(* ===== verification/Go_Prelude.thy ===== *)
theory Go_Prelude
  imports Main "HOL-Library.Word"
begin

text \<open>
  Shared vocabulary of the development: the Go types the sources use, the outcome of a call
  that may panic, the collections of facts the component proofs share, and generic lemmas on
  lists that the Go library theories need.

  A Go \<^verbatim>\<open>string\<close> and a \<^verbatim>\<open>[]byte\<close> are both byte sequences; they are modelled by
  \<^typ>\<open>char list\<close> (HOL's \<^typ>\<open>char\<close> has 256 values), and a nil slice is the empty list.
  \<^verbatim>\<open>uint64\<close> and \<^verbatim>\<open>int\<close> (64 bits on the supported platforms) are \<^typ>\<open>64 word\<close>;
  an \<^verbatim>\<open>int\<close> is read with \<^const>\<open>sint\<close>.
\<close>

type_synonym bytes = string
type_synonym uint64 = "64 word"
type_synonym goint = "64 word"
type_synonym gerror = string

text \<open>
  The outcome of a Go call: a normal return, a run-time panic (with the text of the panic),
  or blocking for ever on a lock that the caller itself holds.
\<close>

datatype 'a go = Ret 'a | Panic string | Deadlock

primrec go_bind :: "'a go \<Rightarrow> ('a \<Rightarrow> 'b go) \<Rightarrow> 'b go" where
  "go_bind (Ret a) f = f a"
| "go_bind (Panic m) f = Panic m"
| "go_bind Deadlock f = Deadlock"

lemma go_bind_Ret_conv: "go_bind m f = Ret b \<longleftrightarrow> (\<exists>a. m = Ret a \<and> f a = Ret b)"
  by (cases m) auto

lemma go_bind_assoc: "go_bind (go_bind m f) g = go_bind m (\<lambda>a. go_bind (f a) g)"
  by (cases m) auto

text \<open>A call that may panic and returns an error or a value; a slice index that panics out of range.\<close>

definition res_bind :: "('e + 'a) go \<Rightarrow> ('a \<Rightarrow> ('e + 'b) go) \<Rightarrow> ('e + 'b) go" where
  "res_bind m f = go_bind m (\<lambda>r. case r of Inl e \<Rightarrow> Ret (Inl e) | Inr a \<Rightarrow> f a)"

lemma res_bind_simps [simp]:
  "res_bind (Ret (Inr a)) f = f a" "res_bind (Ret (Inl e)) f = Ret (Inl e)" "res_bind (Panic m) f = Panic m"
  by (simp_all add: res_bind_def)

lemma res_bind_Ret_Inr:
  "res_bind m f = Ret (Inr b) \<longleftrightarrow> (\<exists>a. m = Ret (Inr a) \<and> f a = Ret (Inr b))"
  by (cases m) (auto simp: res_bind_def split: sum.splits)

definition go_index :: "'a list \<Rightarrow> nat \<Rightarrow> 'a go" where
  "go_index xs i = (if i < length xs then Ret (xs ! i) else Panic ''index out of range'')"

lemma go_index_Ret [simp]: "i < length xs \<Longrightarrow> go_index xs i = Ret (xs ! i)"
  by (simp add: go_index_def)

text \<open>All results, or the first failure.\<close>

fun all_some :: "'a option list \<Rightarrow> 'a list option" where
  "all_some [] = Some []"
| "all_some (x # xs) = (case x of None \<Rightarrow> None | Some a \<Rightarrow> map_option ((#) a) (all_some xs))"

lemma all_some_map_Some [simp]: "all_some (map (\<lambda>x. Some (f x)) xs) = Some (map f xs)"
  by (induction xs) auto

named_theorems zero_values \<open>the zero values of the structs\<close>

abbreviation LF :: char where "LF \<equiv> CHR 0x0A"
abbreviation CR :: char where "CR \<equiv> CHR 0x0D"
abbreviation SP :: char where "SP \<equiv> CHR 0x20"
abbreviation TAB :: char where "TAB \<equiv> CHR 0x09"
abbreviation DQUOTE :: char where "DQUOTE \<equiv> CHR 0x22"
abbreviation BACKSLASH :: char where "BACKSLASH \<equiv> CHR 0x5C"

abbreviation code :: "char \<Rightarrow> nat" where "code \<equiv> of_char"

subsection \<open>Substrings\<close>

text \<open>\<^verbatim>\<open>strings.Contains\<close> and \<^verbatim>\<open>bytes.Index\<close>.\<close>

fun has_prefix :: "bytes \<Rightarrow> bytes \<Rightarrow> bool" where
  "has_prefix [] s = True"
| "has_prefix (p # ps) [] = False"
| "has_prefix (p # ps) (c # cs) = (p = c \<and> has_prefix ps cs)"

fun contains :: "bytes \<Rightarrow> bytes \<Rightarrow> bool" where
  "contains s [] = (s = [])"
| "contains s (c # cs) = (has_prefix s (c # cs) \<or> contains s cs)"

fun index_of :: "bytes \<Rightarrow> bytes \<Rightarrow> nat option" where
  "index_of s [] = (if s = [] then Some 0 else None)"
| "index_of s (c # cs) = (if has_prefix s (c # cs) then Some 0 else map_option Suc (index_of s cs))"

lemma has_prefix_iff: "has_prefix p s \<longleftrightarrow> (\<exists>t. s = p @ t)"
  by (induction p s rule: has_prefix.induct) auto

lemma has_prefix_append [simp]: "has_prefix p (p @ s)"
  by (auto simp: has_prefix_iff)

lemma contains_iff: "contains p s \<longleftrightarrow> (\<exists>u t. s = u @ p @ t)"
proof (induction p s rule: contains.induct)
  case (1 s)
  then show ?case by auto
next
  case (2 s c cs)
  show ?case
    by (simp add: "2" has_prefix_iff) (metis append_Cons append_Nil list.sel(3) neq_Nil_conv)
qed

lemma index_of_Some_conv: "(\<exists>i. index_of p s = Some i) \<longleftrightarrow> contains p s"
  by (induction p s rule: contains.induct) auto

lemma index_of_SomeD: "index_of p s = Some i \<Longrightarrow> i + length p \<le> length s \<and> take (length p) (drop i s) = p"
proof (induction p s arbitrary: i rule: index_of.induct)
  case (1 s)
  then show ?case by (auto split: if_splits)
next
  case (2 s c cs)
  show ?case
  proof (cases "has_prefix s (c # cs)")
    case True
    then obtain t where "c # cs = s @ t" by (auto simp: has_prefix_iff)
    moreover from 2(2) True have "i = 0" by simp
    ultimately show ?thesis by simp
  next
    case False
    with 2 show ?thesis by fastforce
  qed
qed

subsection \<open>Lists\<close>

lemma list_all2_left: "list_all2 P xs ys \<Longrightarrow> x \<in> set xs \<Longrightarrow> \<exists>y\<in>set ys. P x y"
  by (induction rule: list_all2_induct) auto

lemma list_all2_right: "list_all2 P xs ys \<Longrightarrow> y \<in> set ys \<Longrightarrow> \<exists>x\<in>set xs. P x y"
  by (induction rule: list_all2_induct) auto

lemma takeWhile_append_stop:
  "(\<forall>x\<in>set xs. P x) \<Longrightarrow> \<not> P y \<Longrightarrow> takeWhile P (xs @ y # ys) = xs"
  by (induction xs) auto

lemma dropWhile_append_stop:
  "(\<forall>x\<in>set xs. P x) \<Longrightarrow> \<not> P y \<Longrightarrow> dropWhile P (xs @ y # ys) = y # ys"
  by (induction xs) auto

lemma dropWhile_hd_id: "(s = [] \<or> \<not> P (hd s)) \<Longrightarrow> dropWhile P s = s"
  by (cases s) auto

end
