(* ===== verification/Go_Utf8.thy ===== *)
theory Go_Utf8
  imports Go_Prelude
begin

text \<open>
  Go's \<^verbatim>\<open>unicode/utf8\<close>: decoding the first rune of a byte sequence and encoding a rune, with the
  replacement rune U+FFFD of width 1 for an invalid byte. \<^verbatim>\<open>encoding/json\<close>, \<^verbatim>\<open>fmt\<close> scanning
  and \<^verbatim>\<open>bufio.ScanWords\<close>, which the sources call, work on these runes.
\<close>

definition RuneError :: nat where "RuneError = 0xFFFD"

definition cont_byte :: "nat \<Rightarrow> bool" where
  "cont_byte b \<longleftrightarrow> 0x80 \<le> b \<and> b \<le> 0xBF"

text \<open>The accepted range of the second byte depends on the first (no overlong forms, no surrogates).\<close>

definition second_byte :: "nat \<Rightarrow> nat \<Rightarrow> bool" where
  "second_byte b0 b1 \<longleftrightarrow>
     (if b0 = 0xE0 then 0xA0 \<le> b1 \<and> b1 \<le> 0xBF
      else if b0 = 0xED then 0x80 \<le> b1 \<and> b1 \<le> 0x9F
      else if b0 = 0xF0 then 0x90 \<le> b1 \<and> b1 \<le> 0xBF
      else if b0 = 0xF4 then 0x80 \<le> b1 \<and> b1 \<le> 0x8F
      else cont_byte b1)"

definition decode_rune :: "bytes \<Rightarrow> nat \<times> nat" where
  "decode_rune s = (case s of
     [] \<Rightarrow> (RuneError, 0)
   | c0 # s1 \<Rightarrow> (let b0 = code c0 in
       if b0 < 0x80 then (b0, 1)
       else if 0xC2 \<le> b0 \<and> b0 \<le> 0xDF then
         (case s1 of c1 # _ \<Rightarrow>
            if cont_byte (code c1) then ((b0 - 0xC0) * 0x40 + (code c1 - 0x80), 2)
            else (RuneError, 1)
          | [] \<Rightarrow> (RuneError, 1))
       else if 0xE0 \<le> b0 \<and> b0 \<le> 0xEF then
         (case s1 of c1 # c2 # _ \<Rightarrow>
            if second_byte b0 (code c1) \<and> cont_byte (code c2)
            then ((b0 - 0xE0) * 0x1000 + (code c1 - 0x80) * 0x40 + (code c2 - 0x80), 3)
            else (RuneError, 1)
          | _ \<Rightarrow> (RuneError, 1))
       else if 0xF0 \<le> b0 \<and> b0 \<le> 0xF4 then
         (case s1 of c1 # c2 # c3 # _ \<Rightarrow>
            if second_byte b0 (code c1) \<and> cont_byte (code c2) \<and> cont_byte (code c3)
            then ((b0 - 0xF0) * 0x40000 + (code c1 - 0x80) * 0x1000
                   + (code c2 - 0x80) * 0x40 + (code c3 - 0x80), 4)
            else (RuneError, 1)
          | _ \<Rightarrow> (RuneError, 1))
       else (RuneError, 1)))"

definition encode_rune :: "nat \<Rightarrow> bytes" where
  "encode_rune r =
     (let r = (if 0x10FFFF < r \<or> 0xD800 \<le> r \<and> r \<le> 0xDFFF then RuneError else r) in
      if r < 0x80 then [char_of r]
      else if r < 0x800 then [char_of (0xC0 + r div 0x40), char_of (0x80 + r mod 0x40)]
      else if r < 0x10000 then
        [char_of (0xE0 + r div 0x1000), char_of (0x80 + r div 0x40 mod 0x40), char_of (0x80 + r mod 0x40)]
      else
        [char_of (0xF0 + r div 0x40000), char_of (0x80 + r div 0x1000 mod 0x40),
         char_of (0x80 + r div 0x40 mod 0x40), char_of (0x80 + r mod 0x40)])"

subsection \<open>Shape of a decoding step\<close>

lemma decode_rune_ascii [simp]: "code c < 0x80 \<Longrightarrow> decode_rune (c # s) = (code c, 1)"
  by (simp add: decode_rune_def)

lemma decode_rune_size:
  assumes "s \<noteq> []"
  shows "0 < snd (decode_rune s) \<and> snd (decode_rune s) \<le> length s"
proof -
  obtain c s1 where "s = c # s1" using assms by (cases s) auto
  then show ?thesis
    by (auto simp: decode_rune_def Let_def split: list.splits)
qed

lemma decode_rune_size_pos [simp]: "0 < snd (decode_rune (c # s))"
  using decode_rune_size [of "c # s"] by simp

subsection \<open>Encoding what was decoded\<close>

lemma base64_digits:
  fixes x y :: nat
  assumes "y < 0x40"
  shows "(x * 0x40 + y) div 0x40 = x" and "(x * 0x40 + y) mod 0x40 = y"
  using assms by simp_all

lemma encode_rune2:
  assumes "2 \<le> a" "a < 0x20" "b < 0x40"
  shows "encode_rune (a * 0x40 + b) = [char_of (0xC0 + a), char_of (0x80 + b)]"
  using assms by (simp add: encode_rune_def Let_def base64_digits del: char_of_eq_iff)

lemma encode_rune3:
  assumes "a < 0x10" "b < 0x40" "c < 0x40" "a = 0 \<longrightarrow> 0x20 \<le> b" "a = 0xD \<longrightarrow> b < 0x20"
  shows "encode_rune ((a * 0x40 + b) * 0x40 + c) = [char_of (0xE0 + a), char_of (0x80 + b), char_of (0x80 + c)]"
proof -
  define r where "r = (a * 0x40 + b) * 0x40 + c"
  have "r div 0x1000 = r div 0x40 div 0x40" by (simp add: div_mult2_eq [symmetric])
  then have r: "r div 0x1000 = a" "r div 0x40 mod 0x40 = b" "r mod 0x40 = c"
    using assms(1-3) by (simp_all only: r_def base64_digits)
  have "r < 0x10000" using assms(1-3) by (simp add: r_def)
  moreover have "0x800 \<le> r" using assms by (cases "a = 0") (auto simp: r_def)
  moreover have "r < 0xD800 \<or> 0xDFFF < r"
    using assms by (cases "a = 0xD"; cases "a < 0xD") (auto simp: r_def)
  ultimately have rng: "0x800 \<le> r" "r < 0x10000" "r < 0xD800 \<or> 0xDFFF < r" by simp_all
  show ?thesis unfolding r_def [symmetric]
    using rng assms(1-3) by (auto simp: encode_rune_def Let_def r)
qed

lemma encode_rune4:
  assumes "a \<le> 4" "b < 0x40" "c < 0x40" "d < 0x40" "a = 0 \<longrightarrow> 0x10 \<le> b" "a = 4 \<longrightarrow> b < 0x10"
  shows "encode_rune (((a * 0x40 + b) * 0x40 + c) * 0x40 + d)
    = [char_of (0xF0 + a), char_of (0x80 + b), char_of (0x80 + c), char_of (0x80 + d)]"
proof -
  define r where "r = ((a * 0x40 + b) * 0x40 + c) * 0x40 + d"
  have "r div 0x1000 = r div 0x40 div 0x40" "r div 0x40000 = r div 0x40 div 0x40 div 0x40"
    by (simp_all add: div_mult2_eq [symmetric])
  then have r: "r div 0x40000 = a" "r div 0x1000 mod 0x40 = b" "r div 0x40 mod 0x40 = c" "r mod 0x40 = d"
    using assms(1-4) by (simp_all only: r_def base64_digits)
  have rng: "0x10000 \<le> r" "r \<le> 0x10FFFF"
    using assms by (cases "a = 0"; cases "a = 4"; auto simp: r_def)+
  show ?thesis unfolding r_def [symmetric]
    using rng by (simp add: encode_rune_def Let_def r del: char_of_eq_iff)
qed

lemma horner:
  fixes a b c d :: nat
  shows "a * 0x1000 + b * 0x40 + c = (a * 0x40 + b) * 0x40 + c"
    and "a * 0x40000 + b * 0x1000 + c * 0x40 + d = ((a * 0x40 + b) * 0x40 + c) * 0x40 + d"
  by simp_all

text \<open>The four shapes of a successful decoding step.\<close>

lemma decode_rune_cases:
  assumes dec: "decode_rune s = (r, n)" and ok: "\<not> (r = RuneError \<and> n \<le> 1)"
  obtains (one) c0 t where "s = c0 # t" "code c0 < 0x80" "r = code c0" "n = 1"
  | (two) c0 c1 t where "s = c0 # c1 # t" "0xC2 \<le> code c0" "code c0 \<le> 0xDF" "cont_byte (code c1)"
      "r = (code c0 - 0xC0) * 0x40 + (code c1 - 0x80)" "n = 2"
  | (three) c0 c1 c2 t where "s = c0 # c1 # c2 # t" "0xE0 \<le> code c0" "code c0 \<le> 0xEF"
      "second_byte (code c0) (code c1)" "cont_byte (code c2)"
      "r = (code c0 - 0xE0) * 0x1000 + (code c1 - 0x80) * 0x40 + (code c2 - 0x80)" "n = 3"
  | (four) c0 c1 c2 c3 t where "s = c0 # c1 # c2 # c3 # t" "0xF0 \<le> code c0" "code c0 \<le> 0xF4"
      "second_byte (code c0) (code c1)" "cont_byte (code c2)" "cont_byte (code c3)"
      "r = (code c0 - 0xF0) * 0x40000 + (code c1 - 0x80) * 0x1000 + (code c2 - 0x80) * 0x40 + (code c3 - 0x80)"
      "n = 4"
proof (cases s)
  case Nil
  with dec ok show ?thesis by (simp add: decode_rune_def)
next
  case (Cons c0 t)
  from dec [unfolded decode_rune_def Cons list.case Let_def] ok show ?thesis
    by (auto split: list.split_asm if_split_asm intro: one two three four simp: Cons)
qed

lemma second_byte_range:
  "second_byte a b \<Longrightarrow> 0x80 \<le> b \<and> b \<le> 0xBF \<and> (a = 0xE0 \<longrightarrow> 0xA0 \<le> b) \<and> (a = 0xED \<longrightarrow> b \<le> 0x9F)
     \<and> (a = 0xF0 \<longrightarrow> 0x90 \<le> b) \<and> (a = 0xF4 \<longrightarrow> b \<le> 0x8F)"
  by (auto simp: second_byte_def cont_byte_def split: if_splits)

text \<open>
  A rune whose decoding is not the width-1 error is re-encoded to the bytes it came from, and
  decoding looks only at those bytes.
\<close>

lemma encode_decode_rune:
  assumes "decode_rune s = (r, n)" and "\<not> (r = RuneError \<and> n \<le> 1)"
  shows "encode_rune r = take n s"
  using assms
proof (cases rule: decode_rune_cases)
  case one
  then show ?thesis by (simp add: encode_rune_def)
next
  case (two c0 c1 t)
  then show ?thesis using encode_rune2 [of "code c0 - 0xC0" "code c1 - 0x80"]
    by (auto simp: cont_byte_def)
next
  case (three c0 c1 c2 t)
  have "encode_rune r = [char_of (0xE0 + (code c0 - 0xE0)), char_of (0x80 + (code c1 - 0x80)), char_of (0x80 + (code c2 - 0x80))]"
    unfolding three(6) horner(1) using three(2,3) second_byte_range [OF three(4)] three(5)
    by (intro encode_rune3) (auto simp: cont_byte_def)
  then show ?thesis
    using three(1-5,7) second_byte_range [OF three(4)] by (simp add: cont_byte_def)
next
  case (four c0 c1 c2 c3 t)
  have "encode_rune r = [char_of (0xF0 + (code c0 - 0xF0)), char_of (0x80 + (code c1 - 0x80)), char_of (0x80 + (code c2 - 0x80)),
         char_of (0x80 + (code c3 - 0x80))]"
    unfolding four(7) horner(2) using four(2,3) second_byte_range [OF four(4)] four(5,6)
    by (intro encode_rune4) (auto simp: cont_byte_def)
  then show ?thesis
    using four(1-6,8) second_byte_range [OF four(4)] by (simp add: cont_byte_def)
qed

lemma decode_rune_append:
  assumes "decode_rune s = (r, n)" and "\<not> (r = RuneError \<and> n \<le> 1)"
  shows "decode_rune (take n s @ t) = (r, n)"
  using assms
  by (cases rule: decode_rune_cases) (simp_all add: decode_rune_def)

text \<open>Induction over a byte string rune by rune.\<close>

lemma rune_induct [case_names Nil ascii high]:
  assumes "P []"
    and "\<And>c s. code c < 0x80 \<Longrightarrow> P s \<Longrightarrow> P (c # s)"
    and "\<And>c s r n. 0x80 \<le> code c \<Longrightarrow> decode_rune (c # s) = (r, n) \<Longrightarrow> 0 < n \<Longrightarrow> n \<le> Suc (length s) \<Longrightarrow>
      P (drop n (c # s)) \<Longrightarrow> P (c # s)"
  shows "P s"
proof (induction s rule: length_induct)
  case (1 s)
  show ?case
  proof (cases s)
    case Nil
    with assms(1) show ?thesis by simp
  next
    case (Cons c t)
    obtain r n where rn: "decode_rune (c # t) = (r, n)" by (cases "decode_rune (c # t)")
    then have n: "0 < n" "n \<le> Suc (length t)" using decode_rune_size [of "c # t"] by auto
    with 1 Cons have IH: "P t" "P (drop n (c # t))" by auto
    show ?thesis
    proof (cases "code c < 0x80")
      case True
      with assms(2) IH(1) Cons show ?thesis by simp
    next
      case False
      with assms(3) [OF _ rn n IH(2)] Cons show ?thesis by simp
    qed
  qed
qed

end
