(* ===== verification/Go_Strconv.thy ===== *)
theory Go_Strconv
  imports Go_Utf8
begin

text \<open>
  Go's decimal conversions (\<^verbatim>\<open>strconv.ParseUint\<close>, \<^verbatim>\<open>ParseInt\<close>, \<^verbatim>\<open>Atoi\<close> and the \<^verbatim>\<open>%d\<close> verb), the
  scanning verbs \<^verbatim>\<open>%s\<close> and \<^verbatim>\<open>%d\<close> of \<^verbatim>\<open>fmt.Sscanf\<close>, and \<^verbatim>\<open>strings.Split\<close>/\<^verbatim>\<open>Join\<close> on a one-byte
  separator.
\<close>

subsection \<open>Decimal numerals\<close>

definition is_digit :: "char \<Rightarrow> bool" where
  "is_digit c \<longleftrightarrow> 48 \<le> code c \<and> code c \<le> 57"

fun dec_nat :: "nat \<Rightarrow> bytes" where
  "dec_nat n = (if n < 10 then [char_of (48 + n)] else dec_nat (n div 10) @ [char_of (48 + n mod 10)])"

declare dec_nat.simps [simp del]

definition nat_of_dec :: "bytes \<Rightarrow> nat" where
  "nat_of_dec s = foldl (\<lambda>a c. 10 * a + (code c - 48)) 0 s"

definition dec_uint :: "uint64 \<Rightarrow> bytes" where
  "dec_uint w = dec_nat (unat w)"

definition dec_int :: "goint \<Rightarrow> bytes" where
  "dec_int w = (if sint w < 0 then CHR ''-'' # dec_nat (nat (- sint w)) else dec_nat (nat (sint w)))"

definition parse_nat :: "bytes \<Rightarrow> nat option" where
  "parse_nat s = (if s \<noteq> [] \<and> list_all is_digit s then Some (nat_of_dec s) else None)"

text \<open>\<^verbatim>\<open>ParseUint(s, 10, 64)\<close> and \<^verbatim>\<open>ParseInt(s, 10, 64)\<close>; \<open>None\<close> is a syntax or a range error.\<close>

definition parse_uint :: "bytes \<Rightarrow> uint64 option" where
  "parse_uint s = (case parse_nat s of
     None \<Rightarrow> None
   | Some n \<Rightarrow> if n < 2 ^ 64 then Some (of_nat n) else None)"

definition parse_int :: "bytes \<Rightarrow> goint option" where
  "parse_int s = (case s of
     [] \<Rightarrow> None
   | c # cs \<Rightarrow>
       if c = CHR ''-'' then
         (case parse_nat cs of None \<Rightarrow> None
          | Some n \<Rightarrow> if n \<le> 2 ^ 63 then Some (- of_nat n) else None)
       else
         (case parse_nat (if c = CHR ''+'' then cs else s) of None \<Rightarrow> None
          | Some n \<Rightarrow> if n < 2 ^ 63 then Some (of_nat n) else None))"

lemma digit_chars [simp]:
  "char_of (48 :: nat) = CHR ''0''" "char_of (49 :: nat) = CHR ''1''" "char_of (50 :: nat) = CHR ''2''"
  "char_of (51 :: nat) = CHR ''3''" "char_of (52 :: nat) = CHR ''4''" "char_of (53 :: nat) = CHR ''5''"
  "char_of (54 :: nat) = CHR ''6''" "char_of (55 :: nat) = CHR ''7''" "char_of (56 :: nat) = CHR ''8''"
  "char_of (57 :: nat) = CHR ''9''"
  by (simp_all add: char_of_def bit_numeral_rec bit_0)

lemma dec_nat_digits: "list_all is_digit (dec_nat n)"
proof (induction n rule: dec_nat.induct)
  case (1 n)
  moreover have "is_digit (char_of (48 + m))" if "m < 10" for m :: nat
    using that by (simp add: is_digit_def)
  ultimately show ?case
    by (subst dec_nat.simps) simp
qed

lemma dec_nat_not_Nil [simp]: "dec_nat n \<noteq> []"
  by (subst dec_nat.simps) simp

lemma nat_of_dec_snoc: "nat_of_dec (s @ [c]) = 10 * nat_of_dec s + (code c - 48)"
  by (simp add: nat_of_dec_def)

lemma nat_of_dec_dec_nat [simp]: "nat_of_dec (dec_nat n) = n"
proof (induction n rule: dec_nat.induct)
  case (1 n)
  show ?case
  proof (cases "n < 10")
    case True
    then show ?thesis by (subst dec_nat.simps) (simp add: nat_of_dec_def)
  next
    case False
    with 1 show ?thesis by (subst dec_nat.simps) (simp add: nat_of_dec_snoc)
  qed
qed

lemma dec_nat_length: "n < 10 ^ k \<Longrightarrow> 0 < k \<Longrightarrow> length (dec_nat n) \<le> k"
proof (induction n arbitrary: k rule: dec_nat.induct)
  case (1 n)
  show ?case
  proof (cases "n < 10")
    case True
    with 1 show ?thesis by (subst dec_nat.simps) simp
  next
    case False
    with "1.prems" obtain j where k: "k = Suc j" "0 < j"
      by (cases k; cases "k - 1") auto
    with False "1.prems" have "n div 10 < 10 ^ j" by auto
    with "1.IH" [OF False this] k show ?thesis by (subst dec_nat.simps) simp
  qed
qed

lemma parse_nat_dec_nat [simp]: "parse_nat (dec_nat n) = Some n"
  by (simp add: parse_nat_def dec_nat_digits)

lemma parse_uint_dec_uint [simp]: "parse_uint (dec_uint w) = Some w"
  using unsigned_less [of w, where 'a = nat] by (simp add: parse_uint_def dec_uint_def)

lemma dec_nat_hd: "is_digit (hd (dec_nat n))"
  using dec_nat_digits [of n] dec_nat_not_Nil [of n] by (cases "dec_nat n") auto

lemma sint_bounds64: "- (2 ^ 63) \<le> sint (w :: 64 word)" "sint w < 2 ^ 63"
  using sint_range_size [of w] by (simp_all add: word_size)

lemma dec_int_chars: "c \<in> set (dec_int i) \<Longrightarrow> is_digit c \<or> c = CHR ''-''"
  using dec_nat_digits by (auto simp: dec_int_def list_all_iff split: if_splits)

lemma parse_int_dec_int [simp]: "parse_int (dec_int w) = Some w"
proof (cases "sint w < 0")
  case True
  have "nat (- sint w) \<le> 2 ^ 63" using sint_bounds64(1) [of w] by (simp add: nat_le_iff)
  moreover have "- of_nat (nat (- sint w)) = w" using True by simp
  ultimately show ?thesis using True by (simp add: dec_int_def parse_int_def)
next
  case False
  obtain c cs where dec: "dec_nat (nat (sint w)) = c # cs" and "is_digit c"
    using dec_nat_not_Nil dec_nat_hd by (metis list.collapse)
  then have "c \<noteq> CHR ''-''" "c \<noteq> CHR ''+''" by (auto simp: is_digit_def)
  moreover have "parse_nat (c # cs) = Some (nat (sint w))" by (simp flip: dec)
  moreover have "nat (sint w) < 2 ^ 63" using sint_bounds64(2) [of w] by (simp add: nat_less_iff)
  moreover have "of_nat (nat (sint w)) = w" using False by simp
  ultimately show ?thesis using False by (simp add: dec_int_def parse_int_def dec)
qed

subsection \<open>Scanning a packet header line: \<^verbatim>\<open>fmt.Sscanf(s, "%s %d %d", ...)\<close>\<close>

definition is_space_rune :: "nat \<Rightarrow> bool" where
  "is_space_rune r \<longleftrightarrow> (0x09 \<le> r \<and> r \<le> 0x0D) \<or> r = 0x20 \<or> r = 0x85 \<or> r = 0xA0 \<or> r = 0x1680
     \<or> (0x2000 \<le> r \<and> r \<le> 0x200A) \<or> r = 0x2028 \<or> r = 0x2029 \<or> r = 0x202F \<or> r = 0x205F \<or> r = 0x3000"

lemma drop_rune_less [termination_simp]: "s \<noteq> [] \<Longrightarrow> length (drop (snd (decode_rune s)) s) < length s"
  using decode_rune_size [of s] by auto

text \<open>\<^verbatim>\<open>SkipSpace\<close>: a newline is an error (\<open>None\<close>) because \<^verbatim>\<open>Sscanf\<close> does not treat it as space.\<close>

function skip_space :: "bytes \<Rightarrow> bytes option" where
  "skip_space s =
     (if s = [] then Some []
      else if fst (decode_rune s) = 0x0A then None
      else if is_space_rune (fst (decode_rune s)) then skip_space (drop (snd (decode_rune s)) s)
      else Some s)"
  by pat_completeness auto
termination
  by (relation "measure length") (auto dest: drop_rune_less)

text \<open>The word a \<^verbatim>\<open>%s\<close> verb reads, rune by rune (so an invalid byte becomes U+FFFD).\<close>

function scan_token :: "bytes \<Rightarrow> bytes \<times> bytes" where
  "scan_token s =
     (if s = [] \<or> is_space_rune (fst (decode_rune s)) then ([], s)
      else (let (t, r) = scan_token (drop (snd (decode_rune s)) s) in (encode_rune (fst (decode_rune s)) @ t, r)))"
  by pat_completeness auto
termination
  by (relation "measure length") (auto dest: drop_rune_less)

declare skip_space.simps [simp del] scan_token.simps [simp del]

definition scan_string :: "bytes \<Rightarrow> (bytes \<times> bytes) option" where
  "scan_string s = (case skip_space s of
     None \<Rightarrow> None
   | Some t \<Rightarrow> if t = [] then None else Some (scan_token t))"

definition scan_uint :: "bytes \<Rightarrow> (uint64 \<times> bytes) option" where
  "scan_uint s = (case skip_space s of
     None \<Rightarrow> None
   | Some t \<Rightarrow> (let ds = takeWhile is_digit t in
       case parse_uint ds of None \<Rightarrow> None | Some v \<Rightarrow> Some (v, drop (length ds) t)))"

definition scan_int :: "bytes \<Rightarrow> (goint \<times> bytes) option" where
  "scan_int s = (case skip_space s of
     None \<Rightarrow> None
   | Some t \<Rightarrow> (let sign = (case t of c # _ \<Rightarrow> if c = CHR ''+'' \<or> c = CHR ''-'' then [c] else [] | [] \<Rightarrow> []);
                   u = drop (length sign) t;
                   ds = takeWhile is_digit u in
       if ds = [] then None
       else case parse_int (sign @ ds) of None \<Rightarrow> None | Some v \<Rightarrow> Some (v, drop (length ds) u)))"

text \<open>A blank of the format: at least one space (or the end) of the input.\<close>

definition scan_blank :: "bytes \<Rightarrow> bytes option" where
  "scan_blank s =
     (if s = [] then Some []
      else if \<not> is_space_rune (fst (decode_rune s)) \<or> fst (decode_rune s) = 0x0A then None
      else skip_space s)"

text \<open>The number of operands processed, whether an error is returned, and the operands.\<close>

definition Sscanf_s_d_d :: "bytes \<Rightarrow> nat \<times> bool \<times> bytes \<times> uint64 \<times> goint" where
  "Sscanf_s_d_d s = (case scan_string s of
     None \<Rightarrow> (0, True, [], 0, 0)
   | Some (t, s1) \<Rightarrow> (case Option.bind (scan_blank s1) scan_uint of
       None \<Rightarrow> (1, True, t, 0, 0)
     | Some (n, s2) \<Rightarrow> (case Option.bind (scan_blank s2) scan_int of
         None \<Rightarrow> (2, True, t, n, 0)
       | Some (k, s3) \<Rightarrow> (3, False, t, n, k))))"

text \<open>Printable ASCII that is neither a space nor part of a multi-byte rune.\<close>

definition graphic :: "char \<Rightarrow> bool" where
  "graphic c \<longleftrightarrow> 0x21 \<le> code c \<and> code c \<le> 0x7E"

lemma graphic_digit: "is_digit c \<Longrightarrow> graphic c"
  by (simp add: is_digit_def graphic_def)

lemma graphic_not_space: "graphic c \<Longrightarrow> \<not> is_space_rune (code c)"
  by (auto simp: graphic_def is_space_rune_def)

lemma skip_space_graphic: "graphic c \<Longrightarrow> skip_space (c # s) = Some (c # s)"
  using graphic_not_space [of c] by (subst skip_space.simps) (auto simp: graphic_def)

lemma skip_space_SP: "graphic c \<Longrightarrow> skip_space (SP # c # s) = Some (c # s)"
  by (subst skip_space.simps) (simp add: is_space_rune_def skip_space_graphic)

lemma scan_blank_SP: "graphic c \<Longrightarrow> scan_blank (SP # c # s) = Some (c # s)"
  by (simp add: scan_blank_def is_space_rune_def skip_space_SP)

lemma scan_token_graphic:
  "list_all graphic t \<Longrightarrow> s = [] \<or> hd s = SP \<Longrightarrow> scan_token (t @ s) = (t, s)"
proof (induction t)
  case Nil
  then show ?case by (subst scan_token.simps) (cases s; auto simp: is_space_rune_def)
next
  case (Cons c t)
  then have c: "graphic c" "code c < 0x80" by (auto simp: graphic_def)
  with Cons show ?case
    by (subst scan_token.simps) (simp add: graphic_not_space encode_rune_def)
qed

lemma scan_uint_dec: "s = [] \<or> hd s = SP \<Longrightarrow> scan_uint (dec_uint w @ s) = Some (w, s)"
proof -
  assume s: "s = [] \<or> hd s = SP"
  have ds: "takeWhile is_digit (dec_uint w @ s) = dec_uint w"
    using s dec_nat_digits [of "unat w"]
    by (cases s) (auto simp: dec_uint_def list_all_iff takeWhile_append2, simp add: is_digit_def)
  have "skip_space (dec_uint w @ s) = Some (dec_uint w @ s)"
    using skip_space_graphic [OF graphic_digit [OF dec_nat_hd [of "unat w"]], of "tl (dec_uint w) @ s"]
    by (simp add: dec_uint_def flip: append_Cons)
  then show ?thesis
    by (simp add: scan_uint_def ds)
qed

lemma scan_int_dec:
  assumes "n < 2 ^ 63"
  shows "scan_int (dec_nat n) = Some (of_nat n, [])"
proof -
  obtain c cs where dec: "dec_nat n = c # cs" by (cases "dec_nat n") auto
  then have c: "is_digit c" using dec_nat_hd [of n] by simp
  then have c': "c \<noteq> CHR ''-''" "c \<noteq> CHR ''+''" by (auto simp: is_digit_def)
  have "takeWhile is_digit (dec_nat n) = dec_nat n"
    using dec_nat_digits [of n] by (simp add: list_all_iff)
  moreover have "parse_int (dec_nat n) = Some (of_nat n)"
    using parse_nat_dec_nat [of n] c' assms by (simp add: parse_int_def dec)
  ultimately show ?thesis
    using skip_space_graphic [OF graphic_digit [OF c], of cs] c'
    by (simp add: scan_int_def dec)
qed

text \<open>What \<^verbatim>\<open>Fprintf(w, "%s %d %d", ...)\<close> wrote is scanned back.\<close>

lemma Sscanf_s_d_d_printed:
  assumes t: "list_all graphic t" "t \<noteq> []" and n: "n < 2 ^ 63"
  shows "Sscanf_s_d_d (t @ SP # dec_uint w @ SP # dec_nat n) = (3, False, t, w, of_nat n)"
proof -
  obtain c t' where tc: "t = c # t'" using t(2) by (cases t) auto
  have "scan_string (t @ SP # dec_uint w @ SP # dec_nat n) = Some (t, SP # dec_uint w @ SP # dec_nat n)"
    using t scan_token_graphic [OF t(1), of "SP # dec_uint w @ SP # dec_nat n"]
    by (simp add: scan_string_def tc skip_space_graphic)
  moreover have blank: "scan_blank (SP # dec_nat k @ s) = Some (dec_nat k @ s)" for k s
    using scan_blank_SP [OF graphic_digit [OF dec_nat_hd [of k]], of "tl (dec_nat k) @ s"]
    by (simp flip: append_Cons)
  ultimately show ?thesis
    using blank [of n "[]"] scan_uint_dec [of "SP # dec_nat n" w] scan_int_dec [OF n]
    by (simp add: Sscanf_s_d_d_def dec_uint_def)
qed

text \<open>Three operands are processed only when no error is returned.\<close>

lemma Sscanf_s_d_d_count: "Sscanf_s_d_d s = (k, e, t, n, l) \<Longrightarrow> k = 3 \<longleftrightarrow> \<not> e"
  by (auto simp: Sscanf_s_d_d_def split: option.splits prod.splits)

subsection \<open>\<^verbatim>\<open>strings.Split\<close> and \<^verbatim>\<open>strings.Join\<close>\<close>

fun split_on :: "char \<Rightarrow> bytes \<Rightarrow> bytes list" where
  "split_on c [] = [[]]"
| "split_on c (x # xs) =
     (if x = c then [] # split_on c xs
      else (case split_on c xs of [] \<Rightarrow> [[x]] | p # ps \<Rightarrow> (x # p) # ps))"

fun join_with :: "bytes \<Rightarrow> bytes list \<Rightarrow> bytes" where
  "join_with sep [] = []"
| "join_with sep [p] = p"
| "join_with sep (p # q # ps) = p @ sep @ join_with sep (q # ps)"

lemma split_on_not_Nil [simp]: "split_on c s \<noteq> []"
  by (cases s) (auto split: list.splits)

lemma split_on_none: "c \<notin> set p \<Longrightarrow> split_on c p = [p]"
  by (induction p) auto

lemma split_on_append: "c \<notin> set p \<Longrightarrow> split_on c (p @ c # s) = p # split_on c s"
  by (induction p) auto

lemma split_on_join: "ps \<noteq> [] \<Longrightarrow> \<forall>p\<in>set ps. c \<notin> set p \<Longrightarrow> split_on c (join_with [c] ps) = ps"
  by (induction "[c]" ps rule: join_with.induct) (auto simp: split_on_none split_on_append)

lemma join_split_on: "join_with [c] (split_on c s) = s"
proof (induction s)
  case (Cons x s)
  then show ?case
    by (cases "split_on c s"; cases "tl (split_on c s)") (auto split: list.splits)
qed simp

lemma split_on_parts: "p \<in> set (split_on c s) \<Longrightarrow> c \<notin> set p"
  by (induction s arbitrary: p) (auto split: if_splits list.splits)

end
