(* ===== verification/Go_Base64.thy ===== *)
theory Go_Base64
  imports Go_Strconv
begin

text \<open>
  \<^verbatim>\<open>encoding/base64\<close>: the standard and the URL alphabet, encoding with padding, and the decoder, which
  skips newlines and reports the offset of the byte it stops at.
\<close>

subsection \<open>Alphabets\<close>

definition std_alphabet :: bytes where
  "std_alphabet = ''ABCDEFGHIJKLMNOPQRSTUVWXYZabcdefghijklmnopqrstuvwxyz0123456789+/''"

definition b64_char :: "nat \<Rightarrow> char" where "b64_char v = std_alphabet ! v"

text \<open>The decode maps, given the characters for 62 and 63.\<close>

definition alnum_value :: "char \<Rightarrow> nat option" where
  "alnum_value c =
     (let k = code c in
      if 65 \<le> k \<and> k \<le> 90 then Some (k - 65)
      else if 97 \<le> k \<and> k \<le> 122 then Some (k - 71)
      else if 48 \<le> k \<and> k \<le> 57 then Some (k + 4)
      else None)"

definition std_value :: "char \<Rightarrow> nat option" where
  "std_value c = (if c = CHR ''+'' then Some 62 else if c = CHR ''/'' then Some 63 else alnum_value c)"

definition url_value :: "char \<Rightarrow> nat option" where
  "url_value c = (if c = CHR ''-'' then Some 62 else if c = CHR ''_'' then Some 63 else alnum_value c)"

subsection \<open>Encoding\<close>

abbreviation PAD :: char where "PAD \<equiv> CHR ''=''"

fun EncodeToString :: "bytes \<Rightarrow> bytes" where
  "EncodeToString [] = []"
| "EncodeToString [a] =
     [b64_char (code a div 4), b64_char (code a mod 4 * 16), PAD, PAD]"
| "EncodeToString [a, b] =
     [b64_char (code a div 4), b64_char (code a mod 4 * 16 + code b div 16), b64_char (code b mod 16 * 4), PAD]"
| "EncodeToString (a # b # c # s) =
     [b64_char (code a div 4), b64_char (code a mod 4 * 16 + code b div 16),
      b64_char (code b mod 16 * 4 + code c div 64), b64_char (code c mod 64)] @ EncodeToString s"

subsection \<open>Decoding\<close>

text \<open>The bytes of two, three or four digits; left-over bits are dropped.\<close>

fun quantum_bytes :: "nat list \<Rightarrow> bytes" where
  "quantum_bytes (a # b # ds) = char_of ((a * 4 + b div 16) mod 256) # (case ds of
     [] \<Rightarrow> []
   | c # ds' \<Rightarrow> char_of (b mod 16 * 16 + c div 4) # (case ds' of
       [] \<Rightarrow> []
     | d # _ \<Rightarrow> [char_of (c mod 4 * 64 + d)]))"
| "quantum_bytes _ = []"

definition is_newline :: "char \<Rightarrow> bool" where "is_newline c \<longleftrightarrow> c = LF \<or> c = CR"

text \<open>After the last padding character: only newlines may follow.\<close>

definition pad_tail :: "nat \<Rightarrow> nat list \<Rightarrow> bytes \<Rightarrow> nat + bytes" where
  "pad_tail si ds s =
     (let rest = dropWhile is_newline s in
      if rest = [] then Inr (quantum_bytes ds) else Inl (si + length (takeWhile is_newline s)))"

text \<open>
  The rest of the padding: its first character is at offset \<open>si - 1\<close>, \<open>ds\<close> are the digits of the
  last quantum.
\<close>

definition pad_close :: "nat \<Rightarrow> nat list \<Rightarrow> bytes \<Rightarrow> nat + nat \<times> bytes" where
  "pad_close si ds s =
     (if length ds < 2 then Inl (si - 1)
      else if length ds = 2 then
        (let nl = length (takeWhile is_newline s) in
         case dropWhile is_newline s of
           [] \<Rightarrow> Inl (si + nl)
         | c # cs \<Rightarrow> if c \<noteq> PAD then Inl (si + nl - 1) else Inr (si + nl + 1, cs))
      else Inr (si, s))"

definition pad_end :: "nat \<Rightarrow> nat list \<Rightarrow> bytes \<Rightarrow> nat + bytes" where
  "pad_end si ds s = (case pad_close si ds s of Inl e \<Rightarrow> Inl e | Inr (si', rest) \<Rightarrow> pad_tail si' ds rest)"

text \<open>
  The decoder for a decode map, with or without padding: \<open>ds\<close> are the digits of the current quantum,
  \<open>si\<close> the offset of the next byte. The error is the offset of \<^verbatim>\<open>CorruptInputError\<close>.
\<close>

fun b64_loop :: "(char \<Rightarrow> nat option) \<Rightarrow> bool \<Rightarrow> nat \<Rightarrow> nat list \<Rightarrow> bytes \<Rightarrow> nat + bytes" where
  "b64_loop dm padded si ds [] =
     (if ds = [] then Inr []
      else if length ds = 1 \<or> padded then Inl (si - length ds)
      else Inr (quantum_bytes ds))"
| "b64_loop dm padded si ds (c # cs) = (case dm c of
     Some v \<Rightarrow>
       if length ds = 3 then map_sum id ((@) (quantum_bytes (ds @ [v]))) (b64_loop dm padded (Suc si) [] cs)
       else b64_loop dm padded (Suc si) (ds @ [v]) cs
   | None \<Rightarrow>
       if is_newline c then b64_loop dm padded (Suc si) ds cs
       else if padded \<and> c = PAD then pad_end (Suc si) ds cs
       else Inl si)"

definition StdEncoding_DecodeString :: "bytes \<Rightarrow> nat + bytes" where
  "StdEncoding_DecodeString s = b64_loop std_value True 0 [] s"

definition RawURLEncoding_DecodeString :: "bytes \<Rightarrow> nat + bytes" where
  "RawURLEncoding_DecodeString s = b64_loop url_value False 0 [] s"

text \<open>
  \<^verbatim>\<open>URLEncoding.Decode\<close> into a slice without room: an error found in the first quantum is returned, and
  writing its first byte panics. The value is whether there is such a byte.
\<close>

fun b64_first :: "(char \<Rightarrow> nat option) \<Rightarrow> bool \<Rightarrow> nat \<Rightarrow> nat list \<Rightarrow> bytes \<Rightarrow> nat + bool" where
  "b64_first dm padded si ds [] =
     (if ds = [] then Inr False
      else if length ds = 1 \<or> padded then Inl (si - length ds)
      else Inr True)"
| "b64_first dm padded si ds (c # cs) = (case dm c of
     Some v \<Rightarrow> if length ds = 3 then Inr True else b64_first dm padded (Suc si) (ds @ [v]) cs
   | None \<Rightarrow>
       if is_newline c then b64_first dm padded (Suc si) ds cs
       else if padded \<and> c = PAD then map_sum id (\<lambda>_. True) (pad_close (Suc si) ds cs)
       else Inl si)"

definition corrupt_input :: "nat \<Rightarrow> gerror" where
  "corrupt_input si = ''illegal base64 data at input byte '' @ dec_nat si"

subsection \<open>Round trip\<close>

lemma std_value_b64_char: "v < 64 \<Longrightarrow> std_value (b64_char v) = Some v"
proof -
  have "list_all (\<lambda>v. std_value (b64_char v) = Some v) [0..<64]"
    by (simp add: upt_rec std_value_def b64_char_def std_alphabet_def alnum_value_def)
  then show "v < 64 \<Longrightarrow> ?thesis" by (simp add: list_all_iff)
qed

lemma std_value_stops [simp]: "std_value PAD = None" "std_value LF = None" "std_value CR = None"
  by (simp_all add: std_value_def alnum_value_def)

lemma is_newline_PAD [simp]: "\<not> is_newline PAD" "is_newline LF"
  by (simp_all add: is_newline_def)

lemma b64_digits:
  "\<forall>v\<in>set vs. v < 64 \<Longrightarrow> length ds + length vs < 4 \<Longrightarrow>
     b64_loop std_value p si ds (map b64_char vs @ s) = b64_loop std_value p (si + length vs) (ds @ vs) s"
  by (induction vs arbitrary: ds si) (auto simp: std_value_b64_char)

lemma b64_quantum:
  "a < 64 \<Longrightarrow> b < 64 \<Longrightarrow> c < 64 \<Longrightarrow> d < 64 \<Longrightarrow>
     b64_loop std_value p si [] (b64_char a # b64_char b # b64_char c # b64_char d # s)
       = map_sum id ((@) (quantum_bytes [a, b, c, d])) (b64_loop std_value p (Suc (Suc (Suc (Suc si)))) [] s)"
  by (simp add: std_value_b64_char)

lemma code_lt [simp]: "code c < 256"
  by (simp add: of_char_def)

lemma code_split: "code c div 4 < 64" "code c div 16 < 16" "code c div 64 < 4"
  using code_lt [of c] by (auto simp: less_mult_imp_div_less)

lemma digit_join: "y < 16 \<Longrightarrow> x mod 4 * 16 + y < 64" "z < 4 \<Longrightarrow> x mod 16 * 4 + z < 64" for x y z :: nat
  using mod_less_divisor [of 4 x] mod_less_divisor [of 16 x] by linarith+

lemma EncodeToString_decodes: "b64_loop std_value True si [] (EncodeToString s) = Inr s"
proof (induction s arbitrary: si rule: EncodeToString.induct)
  case (2 a)
  have v: "code a div 4 < 64" "code a mod 4 * 16 < 64" using code_split(1) [of a] by auto
  then show ?case
    using b64_digits [of "[code a div 4, code a mod 4 * 16]" "[]" True si "[PAD, PAD]"]
    by (simp add: pad_end_def pad_close_def pad_tail_def)
next
  case (3 a b)
  have v: "code a div 4 < 64" "code a mod 4 * 16 + code b div 16 < 64" "code b mod 16 * 4 < 64"
    using code_split [of a] code_split [of b] by (auto intro: digit_join)
  then show ?case
    using b64_digits [of "[code a div 4, code a mod 4 * 16 + code b div 16, code b mod 16 * 4]" "[]" True si "[PAD]"]
      code_split [of b]
    by (simp add: pad_end_def pad_close_def pad_tail_def)
next
  case (4 a b c s)
  have v: "code a div 4 < 64" "code a mod 4 * 16 + code b div 16 < 64" "code b mod 16 * 4 + code c div 64 < 64"
    "code c mod 64 < 64"
    using code_split [of a] code_split [of b] code_split [of c] by (auto intro: digit_join)
  have "(code b mod 16 * 4 + code c div 64) mod 4 * 64 + code c mod 64 = code c"
    using code_split [of c] by simp
  then show ?case
    using 4 b64_quantum [OF v, of True si "EncodeToString s"] code_split [of b] code_split [of c] by simp
qed simp

theorem decode_encode: "StdEncoding_DecodeString (EncodeToString s) = Inr s"
  by (simp add: StdEncoding_DecodeString_def EncodeToString_decodes)

lemma EncodeToString_length: "length (EncodeToString s) = (length s + 2) div 3 * 4"
proof (induction s rule: EncodeToString.induct)
  case (4 a b c s)
  have "(length (a # b # c # s) + 2) div 3 = Suc ((length s + 2) div 3)" by simp
  then show ?case using 4 by (simp del: One_nat_def)
qed auto

lemma EncodeToString_Nil_iff [simp]: "EncodeToString s = [] \<longleftrightarrow> s = []"
  by (cases s rule: EncodeToString.cases) simp_all

text \<open>The encoded text has characters of the alphabet and padding only.\<close>

definition b64_text :: "char \<Rightarrow> bool" where "b64_text c \<longleftrightarrow> c \<in> set std_alphabet \<or> c = PAD"

lemma b64_char_text: "v < 64 \<Longrightarrow> b64_text (b64_char v)"
proof -
  have "length std_alphabet = 64" by (simp add: std_alphabet_def)
  then show "v < 64 \<Longrightarrow> ?thesis" unfolding b64_text_def b64_char_def by (metis nth_mem)
qed

lemma EncodeToString_text: "list_all b64_text (EncodeToString s)"
proof (induction s rule: EncodeToString.induct)
  case (4 a b c s)
  then show ?case using code_split [of a] code_split [of b] code_split [of c]
    by (auto intro!: b64_char_text digit_join)
next
  case (3 a b)
  then show ?case using code_split [of a] code_split [of b]
    by (auto intro!: b64_char_text digit_join simp: b64_text_def [of PAD])
qed (use code_split in \<open>auto intro!: b64_char_text simp: b64_text_def [of PAD]\<close>)

lemma b64_text_graphic: "b64_text c \<Longrightarrow> graphic c \<and> c \<noteq> CHR ''%'' \<and> \<not> is_newline c"
proof -
  have "list_all (\<lambda>c. graphic c \<and> c \<noteq> CHR ''%'' \<and> \<not> is_newline c) (PAD # std_alphabet)"
    by (simp add: std_alphabet_def graphic_def is_newline_def)
  then show "b64_text c \<Longrightarrow> ?thesis" unfolding list_all_iff b64_text_def by fastforce
qed

subsection \<open>Newlines in the text do not matter\<close>

lemma dropWhile_newline_cases:
  obtains (none) "dropWhile is_newline s = []" "filter (\<lambda>c. \<not> is_newline c) s = []"
  | (more) c cs where "dropWhile is_newline s = c # cs" "\<not> is_newline c"
      "filter (\<lambda>c. \<not> is_newline c) s = c # filter (\<lambda>c. \<not> is_newline c) cs"
proof (cases "dropWhile is_newline s")
  case Nil
  then show thesis by (intro none) (auto simp: dropWhile_eq_Nil_conv filter_empty_conv)
next
  case (Cons c cs)
  have "filter (\<lambda>c. \<not> is_newline c) s = filter (\<lambda>c. \<not> is_newline c) (dropWhile is_newline s)" by (induction s) auto
  with Cons hd_dropWhile [of is_newline s] show thesis by (intro more [of c cs]) auto
qed

lemma pad_tail_newlines: "pad_tail si ds s = Inr r \<longleftrightarrow> pad_tail si' ds (filter (\<lambda>c. \<not> is_newline c) s) = Inr r"
  by (cases rule: dropWhile_newline_cases [of s]) (auto simp: pad_tail_def)

lemma pad_end_newlines: "pad_end si ds s = Inr r \<longleftrightarrow> pad_end si' ds (filter (\<lambda>c. \<not> is_newline c) s) = Inr r"
proof (cases rule: dropWhile_newline_cases [of s])
  case none
  then show ?thesis using pad_tail_newlines [of si ds s r si'] by (simp add: pad_end_def pad_close_def Let_def del: dropWhile_eq_Nil_conv filter_False)
next
  case (more c cs)
  then show ?thesis
    using pad_tail_newlines [of si ds s r si'] pad_tail_newlines [of "Suc (si + length (takeWhile is_newline s))" ds cs r "Suc si'"]
    by (simp add: pad_end_def pad_close_def Let_def)
qed

lemma b64_loop_newlines:
  assumes "dm LF = None" "dm CR = None"
  shows "b64_loop dm p si ds s = Inr r \<longleftrightarrow> b64_loop dm p si' ds (filter (\<lambda>c. \<not> is_newline c) s) = Inr r"
proof (induction s arbitrary: si si' ds r)
  case (Cons c cs)
  have map_sum_Inr: "map_sum id f x = Inr y \<longleftrightarrow> (\<exists>z. x = Inr z \<and> y = f z)" for f :: "bytes \<Rightarrow> bytes" and x :: "nat + bytes" and y
    by (cases x) auto
  show ?case
  proof (cases "is_newline c")
    case True
    then show ?thesis using assms Cons [of "Suc si" ds r si'] by (auto simp: is_newline_def)
  next
    case False
    show ?thesis
    proof (cases "dm c")
      case None
      with False show ?thesis using pad_end_newlines [of "Suc si" ds cs r "Suc si'"] by simp
    next
      case (Some v)
      with False show ?thesis using Cons [of "Suc si" "[]" _ "Suc si'"] Cons [of "Suc si" "ds @ [v]" r "Suc si'"]
        by (simp add: map_sum_Inr)
    qed
  qed
qed auto

lemma decode_newlines:
  "StdEncoding_DecodeString s = Inr r \<longleftrightarrow> StdEncoding_DecodeString (filter (\<lambda>c. \<not> is_newline c) s) = Inr r"
  unfolding StdEncoding_DecodeString_def by (rule b64_loop_newlines) simp_all

end
