(* ===== verification/Go_Hash.thy ===== *)
theory Go_Hash
  imports Go_Prelude
begin

text \<open>
  The hash functions of \<^verbatim>\<open>crypto/sha1\<close> and \<^verbatim>\<open>crypto/sha256\<close> (FIPS 180-4) on 32-bit words, and
  \<^verbatim>\<open>hex.EncodeToString\<close>. Both hashes pad the message to blocks of 64 bytes and fold a compression
  function over them.
\<close>

unbundle bit_operations_syntax

type_synonym w32 = "32 word"

subsection \<open>Padding and words\<close>

definition be_bytes :: "nat \<Rightarrow> nat \<Rightarrow> bytes" where
  "be_bytes k n = map (\<lambda>i. char_of (n div 256 ^ i mod 256)) (rev [0..<k])"

definition pad_message :: "bytes \<Rightarrow> bytes" where
  "pad_message s = s @ [CHR 0x80] @ replicate ((119 - length s mod 64) mod 64) (CHR 0x00) @ be_bytes 8 (8 * length s)"

definition be_word :: "bytes \<Rightarrow> w32" where
  "be_word s = foldl (\<lambda>a c. push_bit 8 a OR of_nat (code c)) 0 s"

function chunks :: "nat \<Rightarrow> 'a list \<Rightarrow> 'a list list" where
  "chunks n xs = (if xs = [] \<or> n = 0 then [] else take n xs # chunks n (drop n xs))"
  by pat_completeness auto
termination
  by (relation "measure (\<lambda>(n, xs). length xs)") auto

declare chunks.simps [simp del]

definition block_words :: "bytes \<Rightarrow> w32 list" where "block_words b = map be_word (chunks 4 b)"

definition word_bytes :: "w32 \<Rightarrow> bytes" where "word_bytes w = be_bytes 4 (unat w)"

definition blocks :: "bytes \<Rightarrow> w32 list list" where "blocks s = map block_words (chunks 64 (pad_message s))"

abbreviation rotr :: "nat \<Rightarrow> w32 \<Rightarrow> w32" where "rotr \<equiv> word_rotr"
abbreviation rotl :: "nat \<Rightarrow> w32 \<Rightarrow> w32" where "rotl \<equiv> word_rotl"

definition Ch :: "w32 \<Rightarrow> w32 \<Rightarrow> w32 \<Rightarrow> w32" where "Ch x y z = (x AND y) XOR (NOT x AND z)"
definition Maj :: "w32 \<Rightarrow> w32 \<Rightarrow> w32 \<Rightarrow> w32" where "Maj x y z = (x AND y) XOR (x AND z) XOR (y AND z)"
definition Parity :: "w32 \<Rightarrow> w32 \<Rightarrow> w32 \<Rightarrow> w32" where "Parity x y z = x XOR y XOR z"

subsection \<open>SHA-1\<close>

type_synonym sha1_state = "w32 \<times> w32 \<times> w32 \<times> w32 \<times> w32"

definition sha1_init :: sha1_state where
  "sha1_init = (0x67452301, 0xEFCDAB89, 0x98BADCFE, 0x10325476, 0xC3D2E1F0)"

primrec sha1_extend :: "nat \<Rightarrow> w32 list \<Rightarrow> w32 list" where
  "sha1_extend 0 ws = ws"
| "sha1_extend (Suc k) ws =
     (let t = length ws in
      sha1_extend k (ws @ [rotl 1 (ws ! (t - 3) XOR ws ! (t - 8) XOR ws ! (t - 14) XOR ws ! (t - 16))]))"

definition sha1_f :: "nat \<Rightarrow> w32 \<Rightarrow> w32 \<Rightarrow> w32 \<Rightarrow> w32" where
  "sha1_f t = (if t < 20 then Ch else if t < 40 then Parity else if t < 60 then Maj else Parity)"

definition sha1_K :: "nat \<Rightarrow> w32" where
  "sha1_K t = (if t < 20 then 0x5A827999 else if t < 40 then 0x6ED9EBA1 else if t < 60 then 0x8F1BBCDC else 0xCA62C1D6)"

fun sha1_round :: "sha1_state \<Rightarrow> nat \<times> w32 \<Rightarrow> sha1_state" where
  "sha1_round (a, b, c, d, e) (t, w) = (rotl 5 a + sha1_f t b c d + e + sha1_K t + w, a, rotl 30 b, c, d)"

fun sha1_add :: "sha1_state \<Rightarrow> sha1_state \<Rightarrow> sha1_state" where
  "sha1_add (a, b, c, d, e) (a', b', c', d', e') = (a + a', b + b', c + c', d + d', e + e')"

definition sha1_block :: "sha1_state \<Rightarrow> w32 list \<Rightarrow> sha1_state" where
  "sha1_block st ws = sha1_add st (foldl sha1_round st (List.enumerate 0 (sha1_extend 64 ws)))"

definition sha1_Sum :: "bytes \<Rightarrow> bytes" where
  "sha1_Sum s = (case foldl sha1_block sha1_init (blocks s) of
     (a, b, c, d, e) \<Rightarrow> concat (map word_bytes [a, b, c, d, e]))"

subsection \<open>SHA-256\<close>

text \<open>
  The constants of the standard are the first 32 bits of the fractional parts of the cube roots (of the
  first 64 primes) and of the square roots (of the first eight); conversion to a 32-bit word drops the
  integer part.
\<close>

definition iroot :: "nat \<Rightarrow> nat \<Rightarrow> nat" where
  "iroot e n = foldl (\<lambda>r i. if (r + 2 ^ i) ^ e \<le> n then r + 2 ^ i else r) 0 (rev [0..<36])"

definition first_primes :: "nat list" where
  "first_primes = filter (\<lambda>n. 1 < n \<and> list_all (\<lambda>d. n mod d \<noteq> 0) [2..<n]) [0..<312]"

definition sha256_K :: "w32 list" where
  "sha256_K = map (\<lambda>p. of_nat (iroot 3 (p * 2 ^ 96))) first_primes"

definition sha256_init :: "w32 list" where
  "sha256_init = map (\<lambda>p. of_nat (iroot 2 (p * 2 ^ 64))) [2, 3, 5, 7, 11, 13, 17, 19]"

definition Sigma0 :: "w32 \<Rightarrow> w32" where "Sigma0 x = rotr 2 x XOR rotr 13 x XOR rotr 22 x"
definition Sigma1 :: "w32 \<Rightarrow> w32" where "Sigma1 x = rotr 6 x XOR rotr 11 x XOR rotr 25 x"
definition sigma0 :: "w32 \<Rightarrow> w32" where "sigma0 x = rotr 7 x XOR rotr 18 x XOR drop_bit 3 x"
definition sigma1 :: "w32 \<Rightarrow> w32" where "sigma1 x = rotr 17 x XOR rotr 19 x XOR drop_bit 10 x"

primrec sha256_extend :: "nat \<Rightarrow> w32 list \<Rightarrow> w32 list" where
  "sha256_extend 0 ws = ws"
| "sha256_extend (Suc k) ws =
     (let t = length ws in
      sha256_extend k (ws @ [sigma1 (ws ! (t - 2)) + ws ! (t - 7) + sigma0 (ws ! (t - 15)) + ws ! (t - 16)]))"

fun sha256_round :: "w32 list \<Rightarrow> w32 \<times> w32 \<Rightarrow> w32 list" where
  "sha256_round [a, b, c, d, e, f, g, h] (k, w) =
     (let t1 = h + Sigma1 e + Ch e f g + k + w; t2 = Sigma0 a + Maj a b c
      in [t1 + t2, a, b, c, d + t1, e, f, g])"
| "sha256_round st _ = st"

definition sha256_block :: "w32 list \<Rightarrow> w32 list \<Rightarrow> w32 list" where
  "sha256_block st ws = map2 (+) st (foldl sha256_round st (zip sha256_K (sha256_extend 48 ws)))"

definition sha256_Sum :: "bytes \<Rightarrow> bytes" where
  "sha256_Sum s = concat (map word_bytes (foldl sha256_block sha256_init (blocks s)))"

subsection \<open>Hexadecimal\<close>

definition hex_digit :: "nat \<Rightarrow> char" where
  "hex_digit n = char_of (if n < 10 then 48 + n else 87 + n)"

definition hex_EncodeToString :: "bytes \<Rightarrow> bytes" where
  "hex_EncodeToString s = concat (map (\<lambda>c. [hex_digit (code c div 16), hex_digit (code c mod 16)]) s)"

subsection \<open>Lengths\<close>

lemma be_bytes_length [simp]: "length (be_bytes k n) = k"
  by (simp add: be_bytes_def)

lemma word_bytes_length [simp]: "length (word_bytes w) = 4"
  by (simp add: word_bytes_def)

text \<open>The padded message consists of whole blocks.\<close>

lemma pad_message_blocks: "64 dvd length (pad_message s)"
proof -
  define q r where "q = length s div 64" and "r = length s mod 64"
  then have n: "length s = 64 * q + r" "r < 64" by simp_all
  have "(119 - r) mod 64 = (if r \<le> 55 then 55 - r else 119 - r)"
    using n(2) mod_if [of "119 - r" 64] by auto
  then have "length (pad_message s) = 64 * q + (if r \<le> 55 then 64 else 128)"
    using n by (simp add: pad_message_def)
  then show ?thesis by simp
qed

lemma sha1_Sum_length [simp]: "length (sha1_Sum s) = 20"
  by (auto simp: sha1_Sum_def split: prod.split)

lemma sha256_round_length: "length st = 8 \<Longrightarrow> length (sha256_round st kw) = 8"
  by (induction st kw rule: sha256_round.induct) (auto simp: Let_def)

lemma sha256_block_length: "length st = 8 \<Longrightarrow> length (sha256_block st ws) = 8"
proof -
  have "length st = 8 \<Longrightarrow> length (foldl sha256_round st kws) = 8" for st kws
    by (induction kws arbitrary: st) (auto simp: sha256_round_length)
  then show "length st = 8 \<Longrightarrow> ?thesis" by (simp add: sha256_block_def)
qed

lemma sha256_Sum_length [simp]: "length (sha256_Sum s) = 32"
proof -
  have "length st = 8 \<Longrightarrow> length (foldl sha256_block st bs) = 8" for st bs
    by (induction bs arbitrary: st) (auto simp: sha256_block_length)
  from this [of sha256_init] have "length (foldl sha256_block sha256_init (blocks s)) = 8" by (simp add: sha256_init_def)
  then show ?thesis by (simp add: sha256_Sum_def length_concat comp_def sum_list_triv)
qed

lemma hex_length [simp]: "length (hex_EncodeToString s) = 2 * length s"
  by (induction s) (simp_all add: hex_EncodeToString_def)

end
