(* ===== verification/Verify.thy ===== *)
theory Verify
  imports Go_Base64 Go_Hash
begin

text \<open>
  Signatures and fingerprints (\<^verbatim>\<open>scamp/verify.go\<close>, \<^verbatim>\<open>scamp/cert.go\<close>). The RSA primitives, PEM and X.509
  parsing are the fields of a record that the definitions take as an argument; hashing, base64 and
  hexadecimal are defined.
\<close>

record 'pub certificate =
  cert_Raw :: bytes
  cert_PublicKey :: "'pub option"

text \<open>
  \<^verbatim>\<open>pem.Decode\<close> gives the bytes of the first block. A parsed public key that is not an RSA key is
  \<open>None\<close>, so is the key of an unparsable PKIX structure. \<^verbatim>\<open>SignPKCS1v15\<close> and \<^verbatim>\<open>VerifyPKCS1v15\<close> are for
  SHA-256 digests.
\<close>

record ('pub, 'priv) crypto =
  pem_Decode :: "bytes \<Rightarrow> bytes option"
  ParseCertificate :: "bytes \<Rightarrow> gerror + 'pub certificate"
  ParsePKIXPublicKey :: "bytes \<Rightarrow> 'pub option"
  VerifyPKCS1v15 :: "'pub \<Rightarrow> bytes \<Rightarrow> bytes \<Rightarrow> gerror option"
  SignPKCS1v15 :: "'priv \<Rightarrow> bytes \<Rightarrow> gerror + bytes"

subsection \<open>Verifying and signing\<close>

definition index_panic :: string where "index_panic = ''index out of range''"

text \<open>The URL branch decodes into the nil slice \<^verbatim>\<open>decoded\<close>.\<close>

definition decodeUnpaddedBase64 :: "bytes \<Rightarrow> bool \<Rightarrow> (nat + bytes) go" where
  "decodeUnpaddedBase64 incoming isURLEncoded =
     (if isURLEncoded then
        (let m = length incoming mod 4;
             incoming1 = (if m \<noteq> 0 then incoming @ replicate (4 - m) PAD else incoming)
         in case b64_first url_value True 0 [] incoming1 of
              Inl e \<Rightarrow> Ret (Inl e)
            | Inr True \<Rightarrow> Panic index_panic
            | Inr False \<Rightarrow> Ret (Inr []))
      else Ret (StdEncoding_DecodeString incoming))"

definition decode_failed :: "nat \<Rightarrow> bytes \<Rightarrow> gerror" where
  "decode_failed e sig = ''failed to decode base64: `'' @ corrupt_input e @ ''`/`'' @ sig @ ''`''"

definition verify_failed :: "gerror \<Rightarrow> gerror" where
  "verify_failed e = ''failed to verify PKCS1v15: `'' @ e @ ''`''"

definition verifySHA256 :: "('pub, 'priv) crypto \<Rightarrow> bytes \<Rightarrow> 'pub \<Rightarrow> bytes \<Rightarrow> bool \<Rightarrow> gerror option go" where
  "verifySHA256 c rawPayload rsaPubKey encodedSignature isURLEncoded =
     go_bind (decodeUnpaddedBase64 encodedSignature isURLEncoded) (\<lambda>r. case r of
       Inl e \<Rightarrow> Ret (Some (decode_failed e encodedSignature))
     | Inr expectedSig \<Rightarrow> (case VerifyPKCS1v15 c rsaPubKey (sha256_Sum rawPayload) expectedSig of
         Some e \<Rightarrow> Ret (Some (verify_failed e))
       | None \<Rightarrow> Ret None))"

definition signSHA256 :: "('pub, 'priv) crypto \<Rightarrow> bytes \<Rightarrow> 'priv \<Rightarrow> gerror + bytes" where
  "signSHA256 c rawPayload priv = (case SignPKCS1v15 c priv (sha256_Sum rawPayload) of
     Inl e \<Rightarrow> Inl e
   | Inr sig \<Rightarrow> Inr (EncodeToString sig))"

subsection \<open>Fingerprints\<close>

definition upper_ascii :: "char \<Rightarrow> char" where
  "upper_ascii c = (if 97 \<le> code c \<and> code c \<le> 122 then char_of (code c - 32) else c)"

text \<open>The loop over the upper-case text of length \<open>n\<close>; the text is ASCII, so a rune is one byte.\<close>

fun finger_loop :: "nat \<Rightarrow> nat \<Rightarrow> bytes \<Rightarrow> bytes \<Rightarrow> bytes" where
  "finger_loop n i [] hexSha1 = hexSha1"
| "finger_loop n i (r # rs) hexSha1 =
     (let h1 = hexSha1 @ [r]
      in finger_loop n (i + 1) rs (if i > 0 \<and> i \<noteq> n - 1 \<and> (i + 1) mod 2 = 0 then h1 @ '':'' else h1))"

definition sha1FingerPrint :: "'pub certificate \<Rightarrow> bytes" where
  "sha1FingerPrint cert =
     (let upperCased = map upper_ascii (hex_EncodeToString (sha1_Sum (cert_Raw cert)))
      in finger_loop (length upperCased) 0 upperCased [])"

definition GetSHA1FingerPrint :: "'pub certificate \<Rightarrow> bytes" where
  "GetSHA1FingerPrint cert = sha1FingerPrint cert"

subsection \<open>Laws of the signatures\<close>

text \<open>
  What the code relies on: \<open>pub\<close> belongs to \<open>priv\<close>, that is, it accepts what \<open>priv\<close> signs.
\<close>

definition key_pair :: "('pub, 'priv) crypto \<Rightarrow> 'pub \<Rightarrow> 'priv \<Rightarrow> bool" where
  "key_pair c pub priv \<longleftrightarrow> (\<forall>digest sig. SignPKCS1v15 c priv digest = Inr sig \<longrightarrow> VerifyPKCS1v15 c pub digest sig = None)"

lemma verifySHA256_accepts:
  "verifySHA256 c payload pub enc False = Ret None \<longleftrightarrow>
     (\<exists>sig. StdEncoding_DecodeString enc = Inr sig \<and> VerifyPKCS1v15 c pub (sha256_Sum payload) sig = None)"
  by (auto simp: verifySHA256_def decodeUnpaddedBase64_def split: sum.splits option.splits)

text \<open>A signature verifies also when it was broken into lines.\<close>

lemma signed_verifies:
  assumes "key_pair c pub priv" and "signSHA256 c payload priv = Inr enc"
    and "filter (\<lambda>x. \<not> is_newline x) enc' = enc"
  shows "verifySHA256 c payload pub enc' False = Ret None"
proof -
  obtain sig where sig: "SignPKCS1v15 c priv (sha256_Sum payload) = Inr sig" "enc = EncodeToString sig"
    using assms(2) by (auto simp: signSHA256_def split: sum.splits)
  have "StdEncoding_DecodeString enc' = Inr sig"
    using decode_newlines [of enc' sig] assms(3) sig(2) decode_encode by simp
  then show ?thesis using sig(1) assms(1) by (auto simp: verifySHA256_accepts key_pair_def)
qed

lemma verifySHA256_returns: "\<exists>e. verifySHA256 c payload pub enc False = Ret e"
  by (auto simp: verifySHA256_def decodeUnpaddedBase64_def split: sum.splits option.splits)

subsection \<open>Laws of the fingerprint\<close>

definition upper_hex_byte :: "char \<Rightarrow> bytes" where
  "upper_hex_byte c = map upper_ascii [hex_digit (code c div 16), hex_digit (code c mod 16)]"

lemma finger_loop_pair:
  assumes "even i"
  shows "finger_loop n i (upper_hex_byte c @ rs) acc
    = finger_loop n (i + 2) rs (acc @ upper_hex_byte c @ (if i + 1 = n - 1 then [] else '':''))"
proof -
  have "(i + 1) mod 2 \<noteq> 0" "(i + 2) mod 2 = 0" using assms by presburger+
  then show ?thesis by (simp add: upper_hex_byte_def Let_def)
qed

lemma finger_loop_pairs:
  assumes "n = i + 2 * length s" and "even i"
  shows "finger_loop n i (concat (map upper_hex_byte s)) acc = acc @ join_with '':'' (map upper_hex_byte s)"
  using assms
proof (induction s arbitrary: i acc)
  case (Cons c s)
  have IH: "finger_loop n (i + 2) (concat (map upper_hex_byte s)) acc = acc @ join_with '':'' (map upper_hex_byte s)" for acc
    using Cons.prems by (intro Cons.IH) auto
  have "i + 1 = n - 1 \<longleftrightarrow> s = []" using Cons.prems by auto
  then show ?case using finger_loop_pair [OF Cons.prems(2), of n c "concat (map upper_hex_byte s)" acc] IH
    by (cases s) simp_all
qed simp

lemma finger_loop_eq: "sha1FingerPrint cert = join_with '':'' (map upper_hex_byte (sha1_Sum (cert_Raw cert)))"
proof -
  have "map upper_ascii (hex_EncodeToString s) = concat (map upper_hex_byte s)" for s
    by (induction s) (simp_all add: hex_EncodeToString_def upper_hex_byte_def)
  then show ?thesis
    using finger_loop_pairs [of 40 0 "sha1_Sum (cert_Raw cert)" "[]"]
    by (simp add: sha1FingerPrint_def Let_def length_concat comp_def upper_hex_byte_def sum_list_triv)
qed

definition finger_char :: "char \<Rightarrow> bool" where
  "finger_char c \<longleftrightarrow> is_digit c \<or> 65 \<le> code c \<and> code c \<le> 70"

lemma upper_hex_byte_chars: "\<exists>x y. upper_hex_byte c = [x, y] \<and> finger_char x \<and> finger_char y"
proof -
  have h: "finger_char (upper_ascii (hex_digit n))" if "n < 16" for n
  proof -
    have "list_all (\<lambda>n. finger_char (upper_ascii (hex_digit n))) [0..<16]"
      by (simp add: upt_rec finger_char_def upper_ascii_def hex_digit_def is_digit_def)
    then show ?thesis using that by (simp add: list_all_iff)
  qed
  have "code c div 16 < 16" using code_split(2) .
  then show ?thesis using h [of "code c div 16"] h [of "code c mod 16"] by (auto simp: upper_hex_byte_def)
qed

lemma upper_hex_byte_inj: "upper_hex_byte c = upper_hex_byte d \<Longrightarrow> c = d"
proof -
  assume eq: "upper_hex_byte c = upper_hex_byte d"
  have inj: "m = n" if "upper_ascii (hex_digit m) = upper_ascii (hex_digit n)" "m < 16" "n < 16" for m n
  proof -
    have "code (upper_ascii (hex_digit k)) = (if k < 10 then 48 + k else 55 + k)" if "k < 16" for k
      using that by (auto simp: upper_ascii_def hex_digit_def)
    from this [OF that(2)] this [OF that(3)] arg_cong [OF that(1), of code]
    have "(if m < 10 then 48 + m else 55 + m) = (if n < 10 then 48 + n else 55 + n)" by (simp only:)
    then show ?thesis by (simp split: if_splits)
  qed
  have "code c div 16 = code d div 16" "code c mod 16 = code d mod 16"
    using eq code_split(2) [of c] code_split(2) [of d] by (auto simp: upper_hex_byte_def intro: inj)
  then have "code c = code d" by (metis div_mult_mod_eq)
  then show ?thesis by simp
qed

lemma upper_hex_byte_no_colon: "CHR '':'' \<notin> set (upper_hex_byte c)"
proof -
  obtain x y where "upper_hex_byte c = [x, y]" "finger_char x" "finger_char y" using upper_hex_byte_chars by blast
  then show ?thesis by (auto simp: finger_char_def is_digit_def)
qed

lemma join_pairs_nth:
  assumes "\<forall>p\<in>set ps. \<exists>x y. p = [x, y] \<and> P x \<and> P y" and "i < length (join_with [sep] ps)"
  shows "if i mod 3 = 2 then join_with [sep] ps ! i = sep else P (join_with [sep] ps ! i)"
  using assms
proof (induction "[sep]" ps arbitrary: i rule: join_with.induct)
  case (2 p)
  then obtain x y where "p = [x, y]" "P x" "P y" by auto
  with 2 show ?case by (cases i) auto
next
  case (3 p q ps)
  then obtain x y where xy: "p = [x, y]" "P x" "P y" by auto
  show ?case
  proof (cases "i < 3")
    case True
    then consider "i = 0" | "i = 1" | "i = 2" by linarith
    then show ?thesis using xy by cases auto
  next
    case False
    then obtain j where j: "i = j + 3" using le_Suc_ex [of 3 i] by (auto simp: add.commute)
    have "j < length (join_with [sep] (q # ps))" using "3.prems"(2) xy j by simp
    then have IH: "if j mod 3 = 2 then join_with [sep] (q # ps) ! j = sep else P (join_with [sep] (q # ps) ! j)"
      using "3.hyps" "3.prems"(1) by simp
    have "join_with [sep] (p # q # ps) = [x, y, sep] @ join_with [sep] (q # ps)" by (simp add: xy)
    moreover have "([x, y, sep] @ join_with [sep] (q # ps)) ! i = join_with [sep] (q # ps) ! j"
      by (simp only: nth_append j) simp
    moreover have "i mod 3 = j mod 3" by (simp add: j)
    ultimately show ?thesis using IH by (simp only:)
  qed
qed simp

lemma join_pairs_length: "\<forall>p\<in>set ps. length p = 2 \<Longrightarrow> length (join_with [sep] ps) = 3 * length ps - 1"
  by (induction "[sep]" ps rule: join_with.induct) auto

lemma fingerprint_inj:
  assumes "sha1FingerPrint cert = sha1FingerPrint cert'"
  shows "sha1_Sum (cert_Raw cert) = sha1_Sum (cert_Raw cert')"
proof -
  have split: "split_on (CHR '':'') (join_with '':'' (map upper_hex_byte s)) = map upper_hex_byte s" if "length s = 20" for s
    using that upper_hex_byte_no_colon by (intro split_on_join) auto
  have "split_on (CHR '':'') (sha1FingerPrint cert) = split_on (CHR '':'') (sha1FingerPrint cert')" using assms by (simp only:)
  then have "map upper_hex_byte (sha1_Sum (cert_Raw cert)) = map upper_hex_byte (sha1_Sum (cert_Raw cert'))"
    unfolding finger_loop_eq split [OF sha1_Sum_length] .
  then show ?thesis by (rule map_injective) (auto intro: injI upper_hex_byte_inj)
qed

subsection \<open>Properties\<close>

text \<open>
  C36. A fingerprint is the SHA-1 of the certificate as twenty pairs of upper-case hexadecimal digits with
  colons between them: it has 59 characters, a colon at every third and digits elsewhere, and two
  certificates have the same fingerprint only if they have the same SHA-1.
\<close>

theorem fingerprint_format:
  "sha1FingerPrint cert = join_with '':'' (map upper_hex_byte (sha1_Sum (cert_Raw cert)))
   \<and> length (sha1FingerPrint cert) = 59
   \<and> (\<forall>i<59. if i mod 3 = 2 then sha1FingerPrint cert ! i = CHR '':'' else finger_char (sha1FingerPrint cert ! i))
   \<and> (sha1FingerPrint cert = sha1FingerPrint cert' \<longleftrightarrow> sha1_Sum (cert_Raw cert) = sha1_Sum (cert_Raw cert'))"
proof -
  let ?ps = "map upper_hex_byte (sha1_Sum (cert_Raw cert))"
  have pairs: "\<forall>p\<in>set ?ps. \<exists>x y. p = [x, y] \<and> finger_char x \<and> finger_char y" using upper_hex_byte_chars by auto
  then have "\<forall>p\<in>set ?ps. length p = 2" by auto
  from join_pairs_length [OF this, of "CHR '':''"] have "length (sha1FingerPrint cert) = 59" by (simp add: finger_loop_eq)
  moreover have "\<forall>i<59. if i mod 3 = 2 then sha1FingerPrint cert ! i = CHR '':'' else finger_char (sha1FingerPrint cert ! i)"
    using join_pairs_nth [OF pairs, of _ "CHR '':''"] calculation by (simp add: finger_loop_eq)
  moreover have "sha1FingerPrint cert = sha1FingerPrint cert' \<longleftrightarrow> sha1_Sum (cert_Raw cert) = sha1_Sum (cert_Raw cert')"
    using fingerprint_inj [of cert cert'] by (auto simp: finger_loop_eq)
  ultimately show ?thesis using finger_loop_eq [of cert] by blast
qed

theorem fingerprint_format_witness:
  "length (sha1FingerPrint \<lparr>cert_Raw = ''abc'', cert_PublicKey = Some ()\<rparr>) = 59"
  using fingerprint_format [of "\<lparr>cert_Raw = ''abc'', cert_PublicKey = Some ()\<rparr>"] by blast

text \<open>
  What is signed verifies: a signature made with a private key is accepted for the same payload by the
  key that belongs to it, also after its text was broken into lines anywhere; and a signature is accepted
  only if its text decodes to bytes that the key verifies for the hash of the payload.
\<close>

lemma signature_roundtrip:
  assumes "key_pair c pub priv" and "signSHA256 c payload priv = Inr enc" and "filter (\<lambda>x. \<not> is_newline x) enc' = enc"
  shows "verifySHA256 c payload pub enc' False = Ret None
    \<and> (verifySHA256 c payload' pub enc' False = Ret None \<longleftrightarrow>
        (\<exists>sig. StdEncoding_DecodeString enc = Inr sig \<and> VerifyPKCS1v15 c pub (sha256_Sum payload') sig = None))"
  using signed_verifies [OF assms] decode_newlines [of enc'] assms(3) by (simp add: verifySHA256_accepts)

definition demo_crypto :: "(unit, unit) crypto" where
  "demo_crypto = \<lparr>pem_Decode = Some, ParseCertificate = (\<lambda>raw. Inr \<lparr>cert_Raw = raw, cert_PublicKey = Some ()\<rparr>),
     ParsePKIXPublicKey = (\<lambda>_. Some ()),
     VerifyPKCS1v15 = (\<lambda>_ _ sig. if sig = ''A'' then None else Some ''crypto/rsa: verification error''),
     SignPKCS1v15 = (\<lambda>_ _. Inr ''A'')\<rparr>"

end
