(* ===== verification/Go_Strings.thy ===== *)
theory Go_Strings
  imports Go_Strconv
begin

text \<open>
  More of \<^verbatim>\<open>strings\<close> and \<^verbatim>\<open>strconv\<close>: trimming space at both ends, the last index of a byte, and the
  errors of \<^verbatim>\<open>Atoi\<close> and \<^verbatim>\<open>ParseInt\<close>, whose text quotes the input with \<^verbatim>\<open>strconv.Quote\<close> (the argument
  \<open>quote\<close>, since quoting depends on the library's tables of printable runes).
\<close>

subsection \<open>Trimming space\<close>

function trim_left :: "bytes \<Rightarrow> bytes" where
  "trim_left s =
     (if s \<noteq> [] \<and> is_space_rune (fst (decode_rune s)) then trim_left (drop (snd (decode_rune s)) s) else s)"
  by pat_completeness auto
termination
  by (relation "measure length") (auto dest: drop_rune_less)

definition rune_start :: "char \<Rightarrow> bool" where "rune_start c \<longleftrightarrow> \<not> cont_byte (code c)"

text \<open>\<^verbatim>\<open>utf8.DecodeLastRune\<close>: the byte that starts the last rune is looked for among the last four.\<close>

definition decode_last_rune :: "bytes \<Rightarrow> nat \<times> nat" where
  "decode_last_rune s =
     (if s = [] then (RuneError, 0)
      else if code (last s) < 0x80 then (code (last s), 1)
      else (let e = length s; lim = e - 4;
                start = (case find (\<lambda>i. rune_start (s ! i)) (rev [lim..<e - 1]) of Some i \<Rightarrow> i | None \<Rightarrow> lim - 1);
                (r, size) = decode_rune (drop start s)
            in if start + size \<noteq> e then (RuneError, 1) else (r, size)))"

lemma decode_last_rune_size: "s \<noteq> [] \<Longrightarrow> 0 < snd (decode_last_rune s) \<and> snd (decode_last_rune s) \<le> length s"
proof -
  assume s: "s \<noteq> []"
  have "snd (decode_rune t) \<le> length t \<and> 0 < snd (decode_rune t)" if "t \<noteq> []" for t
    using decode_rune_size that by blast
  moreover have "i < length s" if "find P (rev [lim..<length s - 1]) = Some i" for P lim i
    using that by (auto simp: find_Some_iff rev_nth)
  ultimately show ?thesis using s
    by (fastforce simp: decode_last_rune_def Let_def Suc_le_eq split: prod.splits option.splits)
qed

lemma take_rune_less [termination_simp]:
  "s \<noteq> [] \<Longrightarrow> length (take (length s - snd (decode_last_rune s)) s) < length s"
  using decode_last_rune_size [of s] by auto

function trim_right :: "bytes \<Rightarrow> bytes" where
  "trim_right s =
     (if s \<noteq> [] \<and> is_space_rune (fst (decode_last_rune s))
      then trim_right (take (length s - snd (decode_last_rune s)) s) else s)"
  by pat_completeness auto
termination
  by (relation "measure length") (auto dest: take_rune_less)

declare trim_left.simps [simp del] trim_right.simps [simp del]

definition TrimSpace :: "bytes \<Rightarrow> bytes" where "TrimSpace s = trim_right (trim_left s)"

lemma trim_left_graphic: "s = [] \<or> graphic (hd s) \<Longrightarrow> trim_left s = s"
  by (subst trim_left.simps) (cases s; auto simp: graphic_def is_space_rune_def)

lemma trim_right_graphic: "s = [] \<or> graphic (last s) \<Longrightarrow> trim_right s = s"
  by (subst trim_right.simps) (auto simp: decode_last_rune_def graphic_def is_space_rune_def)

lemma TrimSpace_graphic: "s = [] \<or> graphic (hd s) \<and> graphic (last s) \<Longrightarrow> TrimSpace s = s"
  by (auto simp: TrimSpace_def trim_left_graphic trim_right_graphic)

subsection \<open>\<^verbatim>\<open>strings.LastIndex\<close> of one byte\<close>

text \<open>The text before and after the last occurrence.\<close>

definition split_last :: "char \<Rightarrow> bytes \<Rightarrow> (bytes \<times> bytes) option" where
  "split_last c s =
     (if c \<in> set s then
        (let suffix = rev (takeWhile (\<lambda>x. x \<noteq> c) (rev s))
         in Some (take (length s - length suffix - 1) s, suffix))
      else None)"

lemma split_last_append: "c \<notin> set t \<Longrightarrow> split_last c (s @ c # t) = Some (s, t)"
proof -
  assume "c \<notin> set t"
  then have "takeWhile (\<lambda>x. x \<noteq> c) (rev (s @ c # t)) = rev t"
    using takeWhile_append_stop [of "rev t" "\<lambda>x. x \<noteq> c" c "rev s"] by auto
  then show ?thesis by (simp add: split_last_def)
qed

lemma split_last_Some: "split_last c s = Some (a, b) \<Longrightarrow> s = a @ c # b \<and> c \<notin> set b"
proof -
  assume sp: "split_last c s = Some (a, b)"
  then have "c \<in> set s" by (auto simp: split_last_def split: if_splits)
  then obtain u v where "s = u @ c # v" "c \<notin> set v" using split_list_last by metis
  with split_last_append [of c v u] sp show ?thesis by simp
qed

subsection \<open>Errors of the decimal conversions\<close>

definition int_syntax :: "bytes \<Rightarrow> bool" where
  "int_syntax s =
     (let t = (case s of c # cs \<Rightarrow> if c = CHR ''-'' \<or> c = CHR ''+'' then cs else s | [] \<Rightarrow> [])
      in t \<noteq> [] \<and> list_all is_digit t)"

definition num_error :: "(bytes \<Rightarrow> bytes) \<Rightarrow> bytes \<Rightarrow> bytes \<Rightarrow> gerror" where
  "num_error quote fn s = ''strconv.'' @ fn @ '': parsing '' @ quote s @ '': '' @
     (if int_syntax s then ''value out of range'' else ''invalid syntax'')"

text \<open>The value that is returned beside an error: the nearest bound, or zero.\<close>

definition int_fallback :: "bytes \<Rightarrow> goint" where
  "int_fallback s =
     (if \<not> int_syntax s then 0 else if hd s = CHR ''-'' then - (2 ^ 63) else 2 ^ 63 - 1)"

lemma parse_int_syntax: "parse_int s = Some v \<Longrightarrow> int_syntax s"
  by (auto simp: parse_int_def int_syntax_def parse_nat_def split: list.splits option.splits if_splits)

end
