(* ===== verification/Ticket.thy ===== *)
theory Ticket
  imports Verify Go_Strings
begin

text \<open>
  Tickets (\<^verbatim>\<open>scamp/ticket.go\<close>): verification of a ticket text, expiry and the check of privileges.

  The public key is a package variable that \<^verbatim>\<open>sync.Once\<close> loads at the first use; it is threaded as the
  key state. The clock, the files and the RSA library are arguments. A \<^verbatim>\<open>map[int]bool\<close> in which only
  \<^verbatim>\<open>true\<close> is stored is the list of its keys.
\<close>

record Ticket =
  tk_Version :: goint
  UserID :: goint
  ClientID :: goint
  Timestamp :: goint
  TTL :: goint
  Privileges :: "goint list"

text \<open>\<^verbatim>\<open>readVerifyKey\<close> (whether it has run) and \<^verbatim>\<open>verifyKey\<close>.\<close>

record 'pub key_state =
  once_done :: bool
  verifyKey :: "'pub option"

definition no_key :: "'pub key_state" where "no_key = \<lparr>once_done = False, verifyKey = None\<rparr>"

definition defaultKeyPath :: bytes where "defaultKeyPath = ''/etc/GT/auth/ticket_verify_public_key.pem''"

subsection \<open>The key\<close>

text \<open>
  The function given to \<^verbatim>\<open>Do\<close>. A failed type assertion, on a key that is not an RSA key or was not
  parsed, panics too. A call that panics counts as done.
\<close>

definition read_verify_key :: "('pub, 'priv) crypto \<Rightarrow> (bytes \<Rightarrow> gerror + bytes) \<Rightarrow> bytes \<Rightarrow> 'pub go" where
  "read_verify_key c readFile keyPath = (case readFile keyPath of
     Inl e \<Rightarrow> Panic e
   | Inr vkStr \<Rightarrow> (case pem_Decode c vkStr of
       None \<Rightarrow> Panic ''can't decode nil pem''
     | Some block \<Rightarrow> (case ParsePKIXPublicKey c block of
         None \<Rightarrow> Panic ''interface conversion''
       | Some pk \<Rightarrow> Ret pk)))"

definition once_key ::
  "('pub, 'priv) crypto \<Rightarrow> (bytes \<Rightarrow> gerror + bytes) \<Rightarrow> bytes \<Rightarrow> 'pub key_state \<Rightarrow> 'pub key_state \<times> unit go" where
  "once_key c readFile keyPath ks =
     (if once_done ks then (ks, Ret ())
      else (case read_verify_key c readFile keyPath of
          Ret pk \<Rightarrow> (\<lparr>once_done = True, verifyKey = Some pk\<rparr>, Ret ())
        | Panic m \<Rightarrow> (ks\<lparr>once_done := True\<rparr>, Panic m)
        | Deadlock \<Rightarrow> (ks\<lparr>once_done := True\<rparr>, Deadlock)))"

subsection \<open>Expiry and privileges\<close>

text \<open>The sum wraps around at 64 bits.\<close>

definition Expired :: "goint \<Rightarrow> Ticket \<Rightarrow> bool" where
  "Expired now ticket = (sint (Timestamp ticket + TTL ticket) < sint now)"

text \<open>\<^verbatim>\<open>%v\<close> of a slice of integers.\<close>

definition print_ints :: "goint list \<Rightarrow> bytes" where
  "print_ints xs = ''['' @ join_with '' '' (map dec_int xs) @ '']''"

definition CheckPrivs :: "goint list \<Rightarrow> Ticket \<Rightarrow> gerror option" where
  "CheckPrivs privs ticket =
     (let missingPrivs = filter (\<lambda>priv. priv \<notin> set (Privileges ticket)) privs
      in if length missingPrivs > 0 then Some (''missing privileges: '' @ print_ints missingPrivs) else None)"

subsection \<open>Parsing\<close>

definition parse_failed :: "bytes \<Rightarrow> bytes \<Rightarrow> gerror \<Rightarrow> gerror" where
  "parse_failed what v e = ''parse '' @ what @ '' ('' @ v @ ''): '' @ e"

definition ticket_int :: "bytes \<Rightarrow> gerror \<Rightarrow> gerror + goint" where
  "ticket_int s e = (case parse_int s of None \<Rightarrow> Inl e | Some v \<Rightarrow> Inr v)"

text \<open>
  The loop over the privileges. The error names the number that was parsed (zero, or a bound), because
  the loop variable is shadowed by it.
\<close>

fun ticket_privs :: "(bytes \<Rightarrow> bytes) \<Rightarrow> bytes list \<Rightarrow> goint list \<Rightarrow> gerror + goint list" where
  "ticket_privs quote [] ps = Inr ps"
| "ticket_privs quote (priv # rest) ps = (case parse_int priv of
     None \<Rightarrow> Inl (parse_failed ''priv'' (dec_int (int_fallback priv)) (num_error quote ''Atoi'' priv))
   | Some v \<Rightarrow> ticket_privs quote rest (if v \<in> set ps then ps else ps @ [v]))"

definition sum_bind :: "'e + 'a \<Rightarrow> ('a \<Rightarrow> 'e + 'b) \<Rightarrow> 'e + 'b" where
  "sum_bind r f = (case r of Inl e \<Rightarrow> Inl e | Inr a \<Rightarrow> f a)"

text \<open>The fields of a ticket whose signature was verified; at least five parts are there.\<close>

definition parse_ticket :: "(bytes \<Rightarrow> bytes) \<Rightarrow> bytes list \<Rightarrow> gerror + Ticket" where
  "parse_ticket quote parts =
     (if parts ! 0 \<noteq> ''1'' then Inl ''invalid version''
      else
        sum_bind (ticket_int (parts ! 1) (parse_failed ''user id'' (parts ! 1) (num_error quote ''Atoi'' (parts ! 1)))) (\<lambda>uid.
        sum_bind (ticket_int (parts ! 2) (parse_failed ''client id'' (parts ! 2) (num_error quote ''Atoi'' (parts ! 2)))) (\<lambda>cid.
        sum_bind (ticket_int (parts ! 3) (parse_failed ''timestamp'' (parts ! 3) (num_error quote ''ParseInt'' (parts ! 3)))) (\<lambda>ts.
        sum_bind (ticket_int (parts ! 4) (''parse TTL: '' @ num_error quote ''ParseInt'' (parts ! 4))) (\<lambda>ttl.
        sum_bind (if length parts > 5 then ticket_privs quote (split_on (CHR ''+'') (parts ! 5)) [] else Inr []) (\<lambda>ps.
          Inr \<lparr>tk_Version = 1, UserID = uid, ClientID = cid, Timestamp = ts, TTL = ttl, Privileges = ps\<rparr>))))))"

definition too_few_parts :: "nat \<Rightarrow> gerror" where
  "too_few_parts n = ''ticket missing parts, wanted 6 parts, have '' @ dec_nat n"

definition key_not_readable :: "bytes \<Rightarrow> gerror" where
  "key_not_readable keyPath = ''`'' @ keyPath @ ''` verify key not readable''"

text \<open>What happens once the key is there.\<close>

definition check_ticket ::
  "('pub, 'priv) crypto \<Rightarrow> (bytes \<Rightarrow> bytes) \<Rightarrow> goint \<Rightarrow> 'pub \<Rightarrow> bytes list \<Rightarrow> bytes \<Rightarrow> gerror + Ticket" where
  "check_ticket c quote now key parts sig = (case RawURLEncoding_DecodeString sig of
     Inl e \<Rightarrow> Inl (''decode signature: '' @ corrupt_input e)
   | Inr signature \<Rightarrow> (case VerifyPKCS1v15 c key (sha256_Sum (join_with '','' parts)) signature of
       Some e \<Rightarrow> Inl (''unable to verify ticket: '' @ e)
     | None \<Rightarrow> sum_bind (parse_ticket quote parts) (\<lambda>ticket.
         if Expired now ticket then Inl ''ticket expired'' else Inr ticket)))"

definition VerifyTicket ::
  "('pub, 'priv) crypto \<Rightarrow> (bytes \<Rightarrow> bytes) \<Rightarrow> (bytes \<Rightarrow> gerror + bytes) \<Rightarrow> goint \<Rightarrow> bytes \<Rightarrow> bytes
    \<Rightarrow> 'pub key_state \<Rightarrow> 'pub key_state \<times> (gerror + Ticket) go" where
  "VerifyTicket c quote readFile now unparsedTicket keyPath0 ks =
     (let keyPath = (if length keyPath0 = 0 then defaultKeyPath else keyPath0);
          parts0 = split_on (CHR '','') (TrimSpace unparsedTicket)
      in if length parts0 < 6 then (ks, Ret (Inl (too_few_parts (length parts0))))
         else (let sig = last parts0; parts = butlast parts0 in
           case once_key c readFile keyPath ks of
             (ks1, Ret _) \<Rightarrow> (ks1, Ret (case verifyKey ks1 of
                 None \<Rightarrow> Inl (key_not_readable keyPath)
               | Some key \<Rightarrow> check_ticket c quote now key parts sig))
           | (ks1, Panic m) \<Rightarrow> (ks1, Panic m)
           | (ks1, Deadlock) \<Rightarrow> (ks1, Deadlock)))"

subsection \<open>Laws\<close>

lemma sum_bind_Inr: "sum_bind r f = Inr b \<longleftrightarrow> (\<exists>a. r = Inr a \<and> f a = Inr b)"
  by (auto simp: sum_bind_def split: sum.splits)

lemma ticket_int_Inr [simp]: "ticket_int s e = Inr v \<longleftrightarrow> parse_int s = Some v"
  by (auto simp: ticket_int_def split: option.splits)

lemma ticket_privs_sound:
  "ticket_privs quote ss ps = Inr qs \<Longrightarrow> set qs = set ps \<union> {v. \<exists>s\<in>set ss. parse_int s = Some v} \<and> (distinct ps \<longrightarrow> distinct qs)"
  by (induction quote ss ps rule: ticket_privs.induct) (auto split: option.splits if_splits)

lemma ticket_privs_total: "(\<exists>qs. ticket_privs quote ss ps = Inr qs) \<longleftrightarrow> (\<forall>s\<in>set ss. parse_int s \<noteq> None)"
  by (induction quote ss ps rule: ticket_privs.induct) (auto split: option.splits)

lemma ticket_privs_printed: "\<exists>qs. ticket_privs quote (map dec_int vs) ps = Inr qs \<and> set qs = set ps \<union> set vs"
proof (induction vs arbitrary: ps)
  case (Cons v vs)
  obtain qs where "ticket_privs quote (map dec_int vs) (if v \<in> set ps then ps else ps @ [v]) = Inr qs"
    "set qs = set (if v \<in> set ps then ps else ps @ [v]) \<union> set vs"
    using Cons by blast
  then show ?case by (intro exI [of _ qs]) (auto split: if_splits)
qed simp

text \<open>The parts of a ticket text: the signed parts and the signature.\<close>

definition ticket_parts :: "bytes \<Rightarrow> bytes list \<Rightarrow> bytes \<Rightarrow> bool" where
  "ticket_parts t parts sig \<longleftrightarrow> split_on (CHR '','') (TrimSpace t) = parts @ [sig] \<and> 5 \<le> length parts"

lemma VerifyTicket_parts:
  assumes "ticket_parts t parts sig" and "once_done ks" and "verifyKey ks = Some key"
  shows "VerifyTicket c quote readFile now t keyPath ks = (ks, Ret (check_ticket c quote now key parts sig))"
  using assms by (simp add: VerifyTicket_def ticket_parts_def once_key_def Let_def)

lemma once_key_cases:
  assumes "once_key c readFile keyPath ks = (ks', r)"
  shows "once_done ks' \<and> (once_done ks \<longrightarrow> ks' = ks)
    \<and> (r = Ret () \<and> \<not> once_done ks \<longrightarrow> (\<exists>pk. verifyKey ks' = Some pk \<and> read_verify_key c readFile keyPath = Ret pk))
    \<and> (r \<noteq> Ret () \<longrightarrow> verifyKey ks' = verifyKey ks \<and> \<not> once_done ks)"
  using assms by (auto simp: once_key_def split: if_splits go.splits)

lemma VerifyTicket_Inr:
  assumes "VerifyTicket c quote readFile now t keyPath ks = (ks', Ret (Inr ticket))"
  shows "\<exists>parts sig key. ticket_parts t parts sig \<and> verifyKey ks' = Some key \<and> once_done ks'
    \<and> check_ticket c quote now key parts sig = Inr ticket"
proof -
  let ?ps = "split_on (CHR '','') (TrimSpace t)"
  have len: "\<not> length ?ps < 6" using assms by (auto simp: VerifyTicket_def Let_def split: if_splits)
  then have "ticket_parts t (butlast ?ps) (last ?ps)" by (simp add: ticket_parts_def)
  moreover obtain r where o: "once_key c readFile (if length keyPath = 0 then defaultKeyPath else keyPath) ks = (ks', r)"
    using assms len by (auto simp: VerifyTicket_def Let_def split: prod.splits go.splits)
  moreover from o have "r = Ret ()" using assms len by (auto simp: VerifyTicket_def Let_def split: go.splits)
  ultimately show ?thesis using assms len once_key_cases [OF o]
    by (auto simp: VerifyTicket_def Let_def split: option.splits)
qed

lemma check_ticket_Inr:
  "check_ticket c quote now key parts sig = Inr ticket \<longleftrightarrow>
     (\<exists>s. RawURLEncoding_DecodeString sig = Inr s \<and> VerifyPKCS1v15 c key (sha256_Sum (join_with '','' parts)) s = None)
     \<and> parse_ticket quote parts = Inr ticket \<and> \<not> Expired now ticket"
  by (auto simp: check_ticket_def sum_bind_Inr split: sum.splits option.splits if_splits)

lemma parse_ticket_Inr:
  "parse_ticket quote parts = Inr ticket \<longleftrightarrow>
     parts ! 0 = ''1'' \<and> tk_Version ticket = 1 \<and> parse_int (parts ! 1) = Some (UserID ticket)
     \<and> parse_int (parts ! 2) = Some (ClientID ticket) \<and> parse_int (parts ! 3) = Some (Timestamp ticket)
     \<and> parse_int (parts ! 4) = Some (TTL ticket)
     \<and> (if length parts > 5 then ticket_privs quote (split_on (CHR ''+'') (parts ! 5)) [] = Inr (Privileges ticket)
        else Privileges ticket = [])"
  by (cases ticket) (auto simp: parse_ticket_def sum_bind_Inr)

lemma VerifyTicket_sound:
  assumes "VerifyTicket c quote readFile now t keyPath ks = (ks', Ret (Inr ticket))"
  shows "\<exists>parts sig s key. TrimSpace t = join_with '','' (parts @ [sig]) \<and> 5 \<le> length parts
    \<and> verifyKey ks' = Some key \<and> RawURLEncoding_DecodeString sig = Inr s
    \<and> VerifyPKCS1v15 c key (sha256_Sum (join_with '','' parts)) s = None
    \<and> parts ! 0 = ''1'' \<and> parse_int (parts ! 1) = Some (UserID ticket) \<and> parse_int (parts ! 2) = Some (ClientID ticket)
    \<and> parse_int (parts ! 3) = Some (Timestamp ticket) \<and> parse_int (parts ! 4) = Some (TTL ticket)
    \<and> set (Privileges ticket) = (if length parts > 5 then {v. \<exists>p\<in>set (split_on (CHR ''+'') (parts ! 5)). parse_int p = Some v} else {})
    \<and> \<not> Expired now ticket"
proof -
  obtain parts sig key where p: "ticket_parts t parts sig" and k: "verifyKey ks' = Some key"
    and ch: "check_ticket c quote now key parts sig = Inr ticket"
    using VerifyTicket_Inr [OF assms] by blast
  have "TrimSpace t = join_with '','' (parts @ [sig])"
    using p join_split_on [of "CHR '',''" "TrimSpace t"] by (simp add: ticket_parts_def)
  moreover obtain s where "RawURLEncoding_DecodeString sig = Inr s"
    "VerifyPKCS1v15 c key (sha256_Sum (join_with '','' parts)) s = None" using ch by (auto simp: check_ticket_Inr)
  moreover have "parse_ticket quote parts = Inr ticket" "\<not> Expired now ticket" using ch by (auto simp: check_ticket_Inr)
  moreover have "5 \<le> length parts" using p by (simp add: ticket_parts_def)
  ultimately show ?thesis using k ticket_privs_sound [of quote "split_on (CHR ''+'') (parts ! 5)" "[]"]
    by (rule_tac exI [of _ parts], rule_tac exI [of _ sig], rule_tac exI [of _ s], rule_tac exI [of _ key])
       (simp add: parse_ticket_Inr split: if_splits)
qed

lemma VerifyTicket_no_deadlock: "snd (VerifyTicket c quote readFile now t keyPath ks) \<noteq> Deadlock"
proof -
  have "read_verify_key c readFile k \<noteq> Deadlock" for k
    by (auto simp: read_verify_key_def split: sum.splits option.splits)
  then have "snd (once_key c readFile k ks) \<noteq> Deadlock" for k
    by (auto simp: once_key_def split: go.splits)
  then show ?thesis by (auto simp: VerifyTicket_def Let_def split: prod.splits go.splits) (metis snd_conv)+
qed

text \<open>The check of privileges is a check for a subset.\<close>

lemma CheckPrivs_iff: "CheckPrivs privs ticket = None \<longleftrightarrow> set privs \<subseteq> set (Privileges ticket)"
  by (auto simp: CheckPrivs_def filter_empty_conv)

subsection \<open>Properties\<close>

text \<open>
  C8. A ticket that is accepted was signed: the text before its last comma has a signature that the loaded
  key verifies, the version is 1, the numbers are those of the parts, its privileges are exactly the numbers
  of the sixth part (none when it is missing), and it has not expired.
\<close>

theorem ticket_sound:
  assumes "VerifyTicket c quote readFile now t keyPath ks = (ks', Ret (Inr ticket))"
  shows "\<exists>parts sig s key. TrimSpace t = join_with '','' (parts @ [sig]) \<and> 5 \<le> length parts
    \<and> verifyKey ks' = Some key \<and> RawURLEncoding_DecodeString sig = Inr s
    \<and> VerifyPKCS1v15 c key (sha256_Sum (join_with '','' parts)) s = None
    \<and> parts ! 0 = ''1'' \<and> parse_int (parts ! 1) = Some (UserID ticket) \<and> parse_int (parts ! 2) = Some (ClientID ticket)
    \<and> parse_int (parts ! 3) = Some (Timestamp ticket) \<and> parse_int (parts ! 4) = Some (TTL ticket)
    \<and> set (Privileges ticket) = (if length parts > 5 then {v. \<exists>p\<in>set (split_on (CHR ''+'') (parts ! 5)). parse_int p = Some v} else {})
    \<and> \<not> Expired now ticket"
  by (rule VerifyTicket_sound [OF assms])

text \<open>A ticket as its issuer writes it; \<open>sig\<close> is the text of the signature.\<close>

definition ticket_fields :: "Ticket \<Rightarrow> bytes list" where
  "ticket_fields tk = [''1'', dec_int (UserID tk), dec_int (ClientID tk), dec_int (Timestamp tk), dec_int (TTL tk)]
     @ (if Privileges tk = [] then [] else [join_with ''+'' (map dec_int (Privileges tk))])"

definition ticket_text :: "Ticket \<Rightarrow> bytes \<Rightarrow> bytes" where
  "ticket_text tk sig = join_with '','' (ticket_fields tk @ [sig])"

lemma join_with_set: "set (join_with sep ps) \<subseteq> set sep \<union> \<Union> (set ` set ps)"
  by (induction sep ps rule: join_with.induct) auto

lemma dec_int_no_comma [simp]: "CHR '','' \<notin> set (dec_int v)" "CHR ''+'' \<notin> set (dec_int v)"
  using dec_int_chars [of _ v] by (fastforce simp: is_digit_def)+

lemma ticket_fields_no_comma: "p \<in> set (ticket_fields tk) \<Longrightarrow> CHR '','' \<notin> set p"
proof -
  have "CHR '','' \<notin> set (join_with ''+'' (map dec_int vs))" for vs
    using join_with_set [of "''+''" "map dec_int vs"] by fastforce
  then show "p \<in> set (ticket_fields tk) \<Longrightarrow> ?thesis" by (auto simp: ticket_fields_def split: if_splits)
qed

lemma join_with_last: "p \<noteq> [] \<Longrightarrow> join_with sep (ps @ [p]) \<noteq> [] \<and> last (join_with sep (ps @ [p])) = last p"
  by (induction sep ps rule: join_with.induct) (auto simp: last_append)

lemma ticket_text_parts:
  assumes "list_all graphic sig" "sig \<noteq> []" "CHR '','' \<notin> set sig"
  shows "ticket_parts (ticket_text tk sig) (ticket_fields tk) sig"
proof -
  have "hd (ticket_text tk sig) = CHR ''1''" "ticket_text tk sig \<noteq> []" by (auto simp: ticket_text_def ticket_fields_def)
  moreover have "last (ticket_text tk sig) = last sig"
    unfolding ticket_text_def using join_with_last assms(2) by blast
  moreover have "graphic (last sig)" using assms(1,2) by (simp add: list_all_iff)
  ultimately have "TrimSpace (ticket_text tk sig) = ticket_text tk sig"
    by (intro TrimSpace_graphic) (auto simp: graphic_def)
  then show ?thesis
    using split_on_join [of "ticket_fields tk @ [sig]" "CHR '',''"] ticket_fields_no_comma [of _ tk] assms(3)
    by (auto simp: ticket_parts_def ticket_text_def ticket_fields_def)
qed

lemma parse_ticket_fields: "\<exists>ps. parse_ticket quote (ticket_fields tk) = Inr (tk\<lparr>tk_Version := 1, Privileges := ps\<rparr>) \<and> set ps = set (Privileges tk)"
proof (cases "Privileges tk = []")
  case True
  then show ?thesis by (simp add: parse_ticket_def ticket_fields_def ticket_int_def sum_bind_def)
next
  case False
  have "split_on (CHR ''+'') (join_with ''+'' (map dec_int (Privileges tk))) = map dec_int (Privileges tk)"
    using False by (intro split_on_join) auto
  moreover obtain qs where "ticket_privs quote (map dec_int (Privileges tk)) [] = Inr qs" "set qs = set (Privileges tk)"
    using ticket_privs_printed [of quote "Privileges tk" "[]"] by auto
  ultimately show ?thesis using False by (intro exI [of _ qs]) (simp add: parse_ticket_Inr ticket_fields_def)
qed

text \<open>
  C18. A ticket that was issued is accepted: the text of a ticket with a signature that the loaded key
  verifies over the fields gives back the ticket, with the same numbers and the same set of privileges,
  unless it has expired, whatever key path the caller names.
\<close>

theorem ticket_accepted:
  assumes "once_done ks" "verifyKey ks = Some key"
    and "list_all graphic sig" "sig \<noteq> []" "CHR '','' \<notin> set sig" "RawURLEncoding_DecodeString sig = Inr s"
    and "VerifyPKCS1v15 c key (sha256_Sum (join_with '','' (ticket_fields tk))) s = None"
  shows "\<exists>ps. set ps = set (Privileges tk) \<and> VerifyTicket c quote readFile now (ticket_text tk sig) keyPath ks
    = (ks, Ret (if Expired now tk then Inl ''ticket expired'' else Inr (tk\<lparr>tk_Version := 1, Privileges := ps\<rparr>)))"
proof -
  obtain ps where ps: "parse_ticket quote (ticket_fields tk) = Inr (tk\<lparr>tk_Version := 1, Privileges := ps\<rparr>)"
    "set ps = set (Privileges tk)"
    using parse_ticket_fields by blast
  have "Expired now (tk\<lparr>tk_Version := 1, Privileges := ps\<rparr>) = Expired now tk" by (simp add: Expired_def)
  then show ?thesis
    using VerifyTicket_parts [OF ticket_text_parts [OF assms(3-5)] assms(1,2), of c quote readFile now tk keyPath] ps assms(6,7)
    by (intro exI [of _ ps]) (simp add: check_ticket_def sum_bind_def)
qed

definition demo_ticket :: Ticket where
  "demo_ticket = \<lparr>tk_Version = 1, UserID = 7, ClientID = 8, Timestamp = 1000, TTL = 60, Privileges = [3, 5]\<rparr>"

definition demo_key :: "unit key_state" where "demo_key = \<lparr>once_done = True, verifyKey = Some ()\<rparr>"

lemma demo_sig: "RawURLEncoding_DecodeString ''QQ'' = Inr ''A''" "list_all graphic ''QQ''"
  by (simp_all add: RawURLEncoding_DecodeString_def url_value_def alnum_value_def graphic_def char_of_def bit_numeral_rec bit_0)

lemma demo_accepts: "VerifyPKCS1v15 demo_crypto () d ''A'' = None"
  by (simp add: demo_crypto_def)

lemma demo_not_expired: "\<not> Expired 1060 demo_ticket"
  by (simp add: Expired_def demo_ticket_def)

lemma demo_verifies:
  "\<exists>ps. set ps = {3, 5} \<and> VerifyTicket demo_crypto quote readFile 1060 (ticket_text demo_ticket ''QQ'') path demo_key
     = (demo_key, Ret (Inr (demo_ticket\<lparr>tk_Version := 1, Privileges := ps\<rparr>)))"
proof -
  obtain ps where ps: "parse_ticket quote (ticket_fields demo_ticket) = Inr (demo_ticket\<lparr>tk_Version := 1, Privileges := ps\<rparr>)"
    "set ps = set (Privileges demo_ticket)"
    using parse_ticket_fields by blast
  have "ticket_parts (ticket_text demo_ticket ''QQ'') (ticket_fields demo_ticket) ''QQ''"
    by (rule ticket_text_parts) (simp_all add: graphic_def)
  from VerifyTicket_parts [OF this, of demo_key "()" demo_crypto quote readFile 1060 path] ps demo_not_expired show ?thesis
    by (intro exI [of _ ps])
       (simp add: check_ticket_def demo_sig demo_accepts demo_key_def sum_bind_def Expired_def, simp add: demo_ticket_def)
qed

theorem ticket_accepted_witness:
  "\<exists>ps. set ps = {3, 5} \<and> VerifyTicket demo_crypto (\<lambda>s. s) (\<lambda>_. Inl []) 1060 (ticket_text demo_ticket ''QQ'') [] demo_key
     = (demo_key, Ret (Inr (demo_ticket\<lparr>tk_Version := 1, Privileges := ps\<rparr>)))"
  using ticket_accepted [of demo_key "()" "''QQ''" "''A''" demo_crypto demo_ticket "\<lambda>s. s" "\<lambda>_. Inl []" 1060 "[]"]
    demo_not_expired
  by (simp add: demo_sig demo_accepts demo_key_def graphic_def) (simp add: demo_ticket_def)

theorem ticket_sound_witness:
  "\<exists>parts sig. TrimSpace (ticket_text demo_ticket ''QQ'') = join_with '','' (parts @ [sig]) \<and> parts ! 0 = ''1''
     \<and> parse_int (parts ! 1) = Some 7"
proof -
  obtain ps where "VerifyTicket demo_crypto (\<lambda>s. s) (\<lambda>_. Inl []) 1060 (ticket_text demo_ticket ''QQ'') [] demo_key
    = (demo_key, Ret (Inr (demo_ticket\<lparr>tk_Version := 1, Privileges := ps\<rparr>)))"
    using demo_verifies by blast
  from ticket_sound [OF this] show ?thesis by (auto simp: demo_ticket_def)
qed

text \<open>The path that is read: the default one when none is given.\<close>

definition effective_path :: "bytes \<Rightarrow> bytes" where
  "effective_path keyPath = (if length keyPath = 0 then defaultKeyPath else keyPath)"

lemma VerifyTicket_no_key:
  assumes "ticket_parts t parts sig" and "once_done ks" and "verifyKey ks = None"
  shows "VerifyTicket c quote readFile now t keyPath ks = (ks, Ret (Inl (key_not_readable (effective_path keyPath))))"
  using assms by (simp add: VerifyTicket_def ticket_parts_def once_key_def effective_path_def Let_def)

text \<open>
  The key is loaded once, from the path of the first call: after a first call whose key could be loaded
  every ticket is checked with that key, whatever path or file is given later; after a first call that
  panicked every later ticket is refused because the key is not readable, even if it has become so.
\<close>

lemma ticket_key_loaded_once:
  assumes "ticket_parts t parts sig" and "VerifyTicket c quote readFile now t keyPath no_key = (ks, r)"
  shows "case read_verify_key c readFile (effective_path keyPath) of
      Ret key \<Rightarrow> ks = \<lparr>once_done = True, verifyKey = Some key\<rparr> \<and> r = Ret (check_ticket c quote now key parts sig)
        \<and> (\<forall>readFile' now' keyPath'. VerifyTicket c quote readFile' now' t keyPath' ks = (ks, Ret (check_ticket c quote now' key parts sig)))
    | Panic m \<Rightarrow> r = Panic m
        \<and> (\<forall>readFile' now' keyPath'. VerifyTicket c quote readFile' now' t keyPath' ks = (ks, Ret (Inl (key_not_readable (effective_path keyPath')))))
    | Deadlock \<Rightarrow> False"
proof -
  have "read_verify_key c readFile (effective_path keyPath) \<noteq> Deadlock"
    by (auto simp: read_verify_key_def split: sum.splits option.splits)
  moreover have v: "VerifyTicket c quote readFile now t keyPath no_key = (case read_verify_key c readFile (effective_path keyPath) of
      Ret key \<Rightarrow> (\<lparr>once_done = True, verifyKey = Some key\<rparr>, Ret (check_ticket c quote now key parts sig))
    | Panic m \<Rightarrow> (no_key\<lparr>once_done := True\<rparr>, Panic m)
    | Deadlock \<Rightarrow> (no_key\<lparr>once_done := True\<rparr>, Deadlock))"
    using assms(1) by (simp add: VerifyTicket_def ticket_parts_def once_key_def effective_path_def no_key_def Let_def split: go.splits)
  ultimately consider (key) key where "read_verify_key c readFile (effective_path keyPath) = Ret key"
    | (failed) m where "read_verify_key c readFile (effective_path keyPath) = Panic m"
    by (cases "read_verify_key c readFile (effective_path keyPath)") auto
  then show ?thesis
  proof cases
    case key
    with v assms(2) have "ks = \<lparr>once_done = True, verifyKey = Some key\<rparr>" "r = Ret (check_ticket c quote now key parts sig)" by simp_all
    with key VerifyTicket_parts [OF assms(1), of ks key c quote] show ?thesis by simp
  next
    case failed
    with v assms(2) have "ks = no_key\<lparr>once_done := True\<rparr>" "r = Panic m" by simp_all
    with failed VerifyTicket_no_key [OF assms(1), of ks c quote] show ?thesis by (simp add: no_key_def)
  qed
qed



end
