(* ===== verification/Go_Json.thy ===== *)
theory Go_Json
  imports Go_Strconv
begin

text \<open>
  The part of \<^verbatim>\<open>encoding/json\<close> that the sources use: the syntax check and splitting of a document
  (lexer and shift-reduce machine with Go's nesting limit), \<^verbatim>\<open>Unmarshal\<close> into a string or an
  integer, \<^verbatim>\<open>unquote\<close>, and \<^verbatim>\<open>Marshal\<close> with HTML escaping. A JSON value keeps the raw text of its
  strings and numbers, as a \<^verbatim>\<open>json.RawMessage\<close> does.
\<close>

datatype json =
    JNull
  | JBool bool
  | JNum bytes
  | JStr bytes
  | JArr "json list"
  | JObj "(bytes \<times> json) list"

datatype token = TLBrace | TRBrace | TLBrack | TRBrack | TColon | TComma
  | TStr bytes | TNum bytes | TTrue | TFalse | TNull

subsection \<open>String literals\<close>

definition hex_val :: "char \<Rightarrow> nat option" where
  "hex_val c = (let b = code c in
     if 48 \<le> b \<and> b \<le> 57 then Some (b - 48)
     else if 97 \<le> b \<and> b \<le> 102 then Some (b - 87)
     else if 65 \<le> b \<and> b \<le> 70 then Some (b - 55)
     else None)"

definition hex_digit :: "nat \<Rightarrow> char" where
  "hex_digit n = (if n < 10 then char_of (48 + n) else char_of (87 + n))"

lemma hex_val_digit [simp]: "n < 16 \<Longrightarrow> hex_val (hex_digit n) = Some n"
  by (simp add: hex_val_def hex_digit_def)

fun hex4 :: "char \<Rightarrow> char \<Rightarrow> char \<Rightarrow> char \<Rightarrow> nat option" where
  "hex4 a b c d = (case (hex_val a, hex_val b, hex_val c, hex_val d) of
     (Some i, Some j, Some k, Some l) \<Rightarrow> Some (((i * 16 + j) * 16 + k) * 16 + l)
   | _ \<Rightarrow> None)"

declare hex4.simps [simp del]

definition simple_escape :: "char \<Rightarrow> char option" where
  "simple_escape e =
     (if e = CHR ''b'' then Some (CHR 0x08)
      else if e = CHR ''f'' then Some (CHR 0x0C)
      else if e = CHR ''n'' then Some LF
      else if e = CHR ''r'' then Some CR
      else if e = CHR ''t'' then Some TAB
      else if e = BACKSLASH \<or> e = CHR ''/'' \<or> e = DQUOTE then Some e
      else None)"

definition getu4 :: "bytes \<Rightarrow> nat option" where
  "getu4 s = (case s of
     c # u # a # b # x # y # _ \<Rightarrow> if c = BACKSLASH \<and> u = CHR ''u'' then hex4 a b x y else None
   | _ \<Rightarrow> None)"

lemma getu4_append: "getu4 s = Some r \<Longrightarrow> 6 \<le> length s \<and> getu4 (s @ t) = Some r"
  by (auto simp: getu4_def split: list.split_asm if_split_asm)

text \<open>
  The length of the first character or escape of a literal, and the literal after its opening
  quote: the raw text up to the closing quote, and the rest.
\<close>

definition raw_unit :: "bytes \<Rightarrow> nat option" where
  "raw_unit s = (case s of
     [] \<Rightarrow> None
   | c # cs \<Rightarrow>
       if c = BACKSLASH then
         (case cs of
            [] \<Rightarrow> None
          | e # _ \<Rightarrow>
              if simple_escape e \<noteq> None then Some 2
              else if getu4 s \<noteq> None then Some 6
              else None)
       else if code c < 0x20 then None
       else Some 1)"

lemma raw_unit_append: "raw_unit s = Some n \<Longrightarrow> 0 < n \<and> n \<le> length s \<and> raw_unit (s @ t) = Some n"
  using getu4_append [of s _ t]
  by (auto simp: raw_unit_def split: list.split_asm if_split_asm)

function scan_raw :: "bytes \<Rightarrow> (bytes \<times> bytes) option" where
  "scan_raw s = (case s of
     [] \<Rightarrow> None
   | c # cs \<Rightarrow>
       if c = DQUOTE then Some ([], cs)
       else (case raw_unit s of
          None \<Rightarrow> None
        | Some n \<Rightarrow> map_option (\<lambda>(r, t). (take n s @ r, t)) (scan_raw (drop n s))))"
  by pat_completeness auto
termination
  by (relation "measure length") (auto dest: raw_unit_append)

declare scan_raw.simps [simp del]

lemma scan_raw_quote [simp]: "scan_raw (DQUOTE # s) = Some ([], s)"
  by (simp add: scan_raw.simps)

lemma scan_raw_unit:
  "raw_unit s = Some n \<Longrightarrow> hd s \<noteq> DQUOTE \<Longrightarrow>
   scan_raw s = map_option (\<lambda>(r, t). (take n s @ r, t)) (scan_raw (drop n s))"
proof (cases s)
  case Nil
  moreover assume "raw_unit s = Some n"
  ultimately show ?thesis by (simp add: raw_unit_def)
qed (simp add: scan_raw.simps [of "_ # _"])

lemma scan_raw_SomeD:
  assumes "scan_raw s = Some (r, u)"
  shows "(s = DQUOTE # u \<and> r = []) \<or>
    (\<exists>n q. raw_unit s = Some n \<and> hd s \<noteq> DQUOTE \<and> scan_raw (drop n s) = Some (q, u) \<and> r = take n s @ q)"
  using assms
  by (subst (asm) scan_raw.simps) (auto split: list.split_asm if_split_asm option.split_asm)

lemma scan_raw_induct [consumes 1, case_names quote unit]:
  assumes "scan_raw s = Some (r, u)"
    and "\<And>u. P (DQUOTE # u) [] u"
    and "\<And>s n q u. raw_unit s = Some n \<Longrightarrow> hd s \<noteq> DQUOTE \<Longrightarrow> scan_raw (drop n s) = Some (q, u) \<Longrightarrow>
      P (drop n s) q u \<Longrightarrow> P s (take n s @ q) u"
  shows "P s r u"
  using assms(1)
proof (induction s arbitrary: r rule: length_induct)
  case (1 s)
  from scan_raw_SomeD [OF "1.prems"] show ?case
  proof (elim disjE exE conjE)
    fix n q
    assume n: "raw_unit s = Some n" "hd s \<noteq> DQUOTE" "scan_raw (drop n s) = Some (q, u)" "r = take n s @ q"
    then have "length (drop n s) < length s" using raw_unit_append [of s n "[]"] by auto
    with 1 n have "P (drop n s) q u" by blast
    with assms(3) n show ?thesis by blast
  qed (simp add: assms(2))
qed

definition is_surrogate :: "nat \<Rightarrow> bool" where
  "is_surrogate r \<longleftrightarrow> 0xD800 \<le> r \<and> r < 0xE000"

text \<open>\<^verbatim>\<open>utf16.DecodeRune\<close>.\<close>

definition utf16_decode :: "nat \<Rightarrow> nat \<Rightarrow> nat" where
  "utf16_decode r1 r2 =
     (if 0xD800 \<le> r1 \<and> r1 < 0xDC00 \<and> 0xDC00 \<le> r2 \<and> r2 < 0xE000
      then (r1 - 0xD800) * 0x400 + (r2 - 0xDC00) + 0x10000 else RuneError)"

text \<open>\<^verbatim>\<open>unquoteBytes\<close> on the raw text between the quotes.\<close>

function unquote :: "bytes \<Rightarrow> bytes option" where
  "unquote s = (case s of
     [] \<Rightarrow> Some []
   | c # s1 \<Rightarrow>
       if c = BACKSLASH then
         (case s1 of
            [] \<Rightarrow> None
          | e # s2 \<Rightarrow>
              (case simple_escape e of
                 Some d \<Rightarrow> map_option ((#) d) (unquote s2)
               | None \<Rightarrow>
                  (case getu4 s of
                     None \<Rightarrow> None
                   | Some r \<Rightarrow>
                       if \<not> is_surrogate r then map_option ((@) (encode_rune r)) (unquote (drop 6 s))
                       else (case getu4 (drop 6 s) of
                           Some r2 \<Rightarrow>
                             if utf16_decode r r2 \<noteq> RuneError
                             then map_option ((@) (encode_rune (utf16_decode r r2))) (unquote (drop 12 s))
                             else map_option ((@) (encode_rune RuneError)) (unquote (drop 6 s))
                         | None \<Rightarrow> map_option ((@) (encode_rune RuneError)) (unquote (drop 6 s))))))
       else if c = DQUOTE \<or> code c < 0x20 then None
       else if code c < 0x80 then map_option ((#) c) (unquote s1)
       else map_option ((@) (encode_rune (fst (decode_rune s)))) (unquote (drop (snd (decode_rune s)) s)))"
  by pat_completeness auto
termination
  by (relation "measure length") auto

declare unquote.simps [simp del]

text \<open>\<^verbatim>\<open>appendString\<close> with \<^verbatim>\<open>escapeHTML\<close>.\<close>

definition html_safe :: "char \<Rightarrow> bool" where
  "html_safe c \<longleftrightarrow> 0x20 \<le> code c \<and> code c < 0x80 \<and> c \<noteq> DQUOTE \<and> c \<noteq> BACKSLASH
     \<and> c \<noteq> CHR ''<'' \<and> c \<noteq> CHR ''>'' \<and> c \<noteq> CHR ''&''"

definition enc_ascii :: "char \<Rightarrow> bytes" where
  "enc_ascii c =
     (if html_safe c then [c]
      else if c = BACKSLASH \<or> c = DQUOTE then [BACKSLASH, c]
      else if c = CHR 0x08 then [BACKSLASH, CHR ''b'']
      else if c = CHR 0x0C then [BACKSLASH, CHR ''f'']
      else if c = LF then [BACKSLASH, CHR ''n'']
      else if c = CR then [BACKSLASH, CHR ''r'']
      else if c = TAB then [BACKSLASH, CHR ''t'']
      else [BACKSLASH, CHR ''u'', CHR ''0'', CHR ''0'', hex_digit (code c div 16), hex_digit (code c mod 16)])"

definition enc_high :: "nat \<Rightarrow> nat \<Rightarrow> bytes \<Rightarrow> bytes" where
  "enc_high r n s =
     (if r = RuneError \<and> n = 1 then BACKSLASH # ''ufffd''
      else if r = 0x2028 then BACKSLASH # ''u2028''
      else if r = 0x2029 then BACKSLASH # ''u2029''
      else take n s)"

function enc_string :: "bytes \<Rightarrow> bytes" where
  "enc_string s = (case s of
     [] \<Rightarrow> []
   | c # s1 \<Rightarrow>
       if code c < 0x80 then enc_ascii c @ enc_string s1
       else (let r = fst (decode_rune s); n = snd (decode_rune s) in
         enc_high r n s @ enc_string (drop n s)))"
  by pat_completeness auto
termination
  by (relation "measure length") auto

declare enc_string.simps [simp del]

text \<open>The text with every invalid byte replaced by U+FFFD; a valid UTF-8 text is unchanged.\<close>

function utf8_repair :: "bytes \<Rightarrow> bytes" where
  "utf8_repair s =
     (if s = [] then []
      else encode_rune (fst (decode_rune s)) @ utf8_repair (drop (snd (decode_rune s)) s))"
  by pat_completeness auto
termination
  by (relation "measure length") (auto dest: drop_rune_less)

declare utf8_repair.simps [simp del]

definition valid_utf8 :: "bytes \<Rightarrow> bool" where
  "valid_utf8 s \<longleftrightarrow> utf8_repair s = s"


lemma rune_bytes_high:
  assumes "decode_rune (c # s) = (r, n)" and "\<not> (r = RuneError \<and> n = 1)" and "0x80 \<le> code c"
  shows "\<forall>d\<in>set (take n (c # s)). 0x80 \<le> code d"
proof -
  have "\<not> (r = RuneError \<and> n \<le> 1)"
    using assms(1,2) decode_rune_size_pos [of c s] by auto
  with assms(1) show ?thesis
    using assms(3)
    by (cases rule: decode_rune_cases) (auto simp: cont_byte_def dest!: second_byte_range)
qed

lemma scan_raw_high:
  "\<forall>d\<in>set u. 0x80 \<le> code d \<Longrightarrow> scan_raw (u @ s) = map_option (\<lambda>(r, t). (u @ r, t)) (scan_raw s)"
proof (induction u)
  case Nil
  show ?case by (cases "scan_raw s") auto
next
  case (Cons c u)
  then have "c \<noteq> DQUOTE" "c \<noteq> BACKSLASH" "\<not> code c < 0x20" by auto
  then have "scan_raw (c # u @ s) = map_option (\<lambda>(r, t). (c # r, t)) (scan_raw (u @ s))"
    by (subst scan_raw_unit [of _ 1]) (simp_all add: raw_unit_def)
  with Cons show ?case by (cases "scan_raw s") auto
qed

lemma hex4_u00: "a < 16 \<Longrightarrow> b < 16 \<Longrightarrow> hex4 (CHR ''0'') (CHR ''0'') (hex_digit a) (hex_digit b) = Some (a * 16 + b)"
  by (simp add: hex4.simps) (simp add: hex_val_def)

lemma simple_escape_u [simp]: "simple_escape (CHR ''u'') = None"
  by (simp add: simple_escape_def)

lemma scan_raw_escape: "simple_escape e \<noteq> None \<Longrightarrow>
  scan_raw (BACKSLASH # e # s) = map_option (\<lambda>(r, t). (BACKSLASH # e # r, t)) (scan_raw s)"
  by (subst scan_raw.simps) (simp add: raw_unit_def numeral_2_eq_2)

lemma scan_raw_u: "hex4 a b x y \<noteq> None \<Longrightarrow>
  scan_raw (BACKSLASH # CHR ''u'' # a # b # x # y # s)
    = map_option (\<lambda>(r, t). (BACKSLASH # CHR ''u'' # a # b # x # y # r, t)) (scan_raw s)"
  by (subst scan_raw.simps) (simp add: raw_unit_def getu4_def)

lemma enc_ascii_cases:
  obtains (safe) "html_safe c" "enc_ascii c = [c]"
  | (escape) e where "enc_ascii c = [BACKSLASH, e]" "simple_escape e = Some c"
  | (u) "enc_ascii c = BACKSLASH # CHR ''u'' # CHR ''0'' # CHR ''0'' # [hex_digit (code c div 16), hex_digit (code c mod 16)]"
proof -
  have "html_safe c \<and> enc_ascii c = [c] \<or> (\<exists>e. enc_ascii c = [BACKSLASH, e] \<and> simple_escape e = Some c)
    \<or> enc_ascii c = BACKSLASH # CHR ''u'' # CHR ''0'' # CHR ''0'' # [hex_digit (code c div 16), hex_digit (code c mod 16)]"
    unfolding enc_ascii_def simple_escape_def by simp
  then show thesis using safe escape u by blast
qed

lemma scan_raw_enc_ascii:
  assumes "code c < 0x80"
  shows "scan_raw (enc_ascii c @ s) = map_option (\<lambda>(r, t). (enc_ascii c @ r, t)) (scan_raw s)"
proof (cases c rule: enc_ascii_cases)
  case safe
  then show ?thesis
    by (subst scan_raw_unit [of _ 1]) (simp_all add: raw_unit_def html_safe_def)
next
  case (escape e)
  then show ?thesis by (simp add: scan_raw_escape)
next
  case u
  have "code c div 16 < 16" "code c mod 16 < 16" using assms by auto
  from hex4_u00 [OF this] show ?thesis by (simp add: u scan_raw_u)
qed

lemma hex4_consts:
  "hex4 (CHR ''f'') (CHR ''f'') (CHR ''f'') (CHR ''d'') = Some RuneError"
  "hex4 (CHR ''2'') (CHR ''0'') (CHR ''2'') (CHR ''8'') = Some 0x2028"
  "hex4 (CHR ''2'') (CHR ''0'') (CHR ''2'') (CHR ''9'') = Some 0x2029"
  by (simp_all add: hex4.simps hex_val_def RuneError_def)

lemma enc_string_Nil [simp]: "enc_string [] = []"
  by (simp add: enc_string.simps)

lemma enc_string_ascii: "code c < 0x80 \<Longrightarrow> enc_string (c # s) = enc_ascii c @ enc_string s"
  by (subst enc_string.simps) simp

lemma enc_string_high:
  "0x80 \<le> code c \<Longrightarrow> decode_rune (c # s) = (r, n) \<Longrightarrow>
   enc_string (c # s) = enc_high r n (c # s) @ enc_string (drop n (c # s))"
  by (subst enc_string.simps) simp

lemma utf8_repair_Nil [simp]: "utf8_repair [] = []"
  by (simp add: utf8_repair.simps)

lemma utf8_repair_ascii: "code c < 0x80 \<Longrightarrow> utf8_repair (c # s) = c # utf8_repair s"
  by (subst utf8_repair.simps) (simp add: encode_rune_def)

lemma utf8_repair_high:
  "decode_rune (c # s) = (r, n) \<Longrightarrow> utf8_repair (c # s) = encode_rune r @ utf8_repair (drop n (c # s))"
  by (subst utf8_repair.simps) simp

lemma scan_raw_enc_high:
  assumes "0x80 \<le> code c" and "decode_rune (c # s) = (r, n)"
  shows "scan_raw (enc_high r n (c # s) @ t) = map_option (\<lambda>(q, u). (enc_high r n (c # s) @ q, u)) (scan_raw t)"
proof -
  have "scan_raw (take n (c # s) @ t) = map_option (\<lambda>(q, u). (take n (c # s) @ q, u)) (scan_raw t)"
    if "\<not> (r = RuneError \<and> n = 1)"
    using rune_bytes_high [OF assms(2) that assms(1)] by (rule scan_raw_high)
  then show ?thesis
    by (auto simp: enc_high_def scan_raw_u hex4_consts)
qed

text \<open>A written string literal is scanned back exactly.\<close>

lemma scan_raw_enc_string: "scan_raw (enc_string s @ DQUOTE # t) = Some (enc_string s, t)"
  by (induction s rule: rune_induct)
     (simp_all add: enc_string_ascii scan_raw_enc_ascii enc_string_high scan_raw_enc_high del: drop_Suc_Cons)

lemma unquote_Nil [simp]: "unquote [] = Some []"
  by (simp add: unquote.simps)

lemma unquote_escape: "simple_escape e = Some d \<Longrightarrow> unquote (BACKSLASH # e # s) = map_option ((#) d) (unquote s)"
  by (subst unquote.simps) simp

lemma unquote_u:
  "hex4 a b x y = Some r \<Longrightarrow> \<not> is_surrogate r \<Longrightarrow>
   unquote (BACKSLASH # CHR ''u'' # a # b # x # y # s) = map_option ((@) (encode_rune r)) (unquote s)"
  by (subst unquote.simps) (simp add: getu4_def)

lemma unquote_enc_ascii:
  assumes "code c < 0x80"
  shows "unquote (enc_ascii c @ s) = map_option ((#) c) (unquote s)"
proof (cases c rule: enc_ascii_cases)
  case safe
  then show ?thesis by (simp add: unquote.simps [of "c # s"] html_safe_def)
next
  case (escape e)
  then show ?thesis by (simp add: unquote_escape)
next
  case u
  have hex: "code c div 16 < 16" "code c mod 16 < 16" using assms by auto
  have "\<not> is_surrogate (code c)" "encode_rune (code c) = [c]"
    using assms by (simp_all add: is_surrogate_def encode_rune_def)
  moreover have "code c div 16 * 16 + code c mod 16 = code c" by (rule div_mult_mod_eq)
  ultimately show ?thesis using unquote_u [OF hex4_u00 [OF hex], of s]
    by (cases "unquote s") (simp_all add: u)
qed

text \<open>
  Decoding a written string literal gives the string back, with every invalid byte replaced by
  U+FFFD: a valid UTF-8 string survives unchanged.
\<close>

lemma unquote_high:
  assumes "decode_rune (c # s) = (r, n)" and "0x80 \<le> code c"
  shows "unquote (c # s) = map_option ((@) (encode_rune r)) (unquote (drop n (c # s)))"
proof -
  from assms(2) have "c \<noteq> BACKSLASH" "c \<noteq> DQUOTE" "\<not> code c < 0x20" by auto
  with assms show ?thesis by (subst unquote.simps) simp
qed

lemma unquote_enc_high:
  assumes high: "0x80 \<le> code c" and dec: "decode_rune (c # s) = (r, n)"
  shows "unquote (enc_high r n (c # s) @ t) = map_option ((@) (encode_rune r)) (unquote t)"
proof -
  have "unquote (take n (c # s) @ t) = map_option ((@) (encode_rune r)) (unquote t)"
    if ok: "\<not> (r = RuneError \<and> n = 1)"
  proof -
    have n: "0 < n" "n \<le> Suc (length s)"
      using decode_rune_size [of "c # s"] dec by auto
    with ok have "\<not> (r = RuneError \<and> n \<le> 1)" by auto
    with decode_rune_append [OF dec, of t] have "decode_rune (take n (c # s) @ t) = (r, n)" by simp
    moreover obtain u where u: "take n (c # s) @ t = c # u" using n by (cases n) auto
    moreover from n have "drop n (take n (c # s) @ t) = t" by simp
    ultimately show ?thesis using unquote_high [of c u r n] high by simp
  qed
  moreover have "\<not> is_surrogate RuneError" "\<not> is_surrogate 0x2028" "\<not> is_surrogate 0x2029"
    by (simp_all add: is_surrogate_def RuneError_def)
  ultimately show ?thesis
    by (auto simp: enc_high_def unquote_u hex4_consts)
qed

lemma unquote_enc_string: "unquote (enc_string s) = Some (utf8_repair s)"
  by (induction s rule: rune_induct)
     (simp_all add: enc_string_ascii unquote_enc_ascii utf8_repair_ascii
       enc_string_high unquote_enc_high utf8_repair_high del: drop_Suc_Cons)


subsection \<open>Numbers\<close>

definition scan_int_part :: "bytes \<Rightarrow> (bytes \<times> bytes) option" where
  "scan_int_part s = (case s of
     [] \<Rightarrow> None
   | c # cs \<Rightarrow>
       if c = CHR ''0'' then Some ([c], cs)
       else if is_digit c then Some (takeWhile is_digit s, dropWhile is_digit s)
       else None)"

definition scan_digits :: "bytes \<Rightarrow> (bytes \<times> bytes) option" where
  "scan_digits s = (if takeWhile is_digit s = [] then None
     else Some (takeWhile is_digit s, dropWhile is_digit s))"

definition scan_frac :: "bytes \<Rightarrow> (bytes \<times> bytes) option" where
  "scan_frac s = (case s of
     c # cs \<Rightarrow> if c = CHR ''.'' then map_option (\<lambda>(d, r). (c # d, r)) (scan_digits cs) else Some ([], s)
   | [] \<Rightarrow> Some ([], []))"

definition scan_exp :: "bytes \<Rightarrow> (bytes \<times> bytes) option" where
  "scan_exp s = (case s of
     c # cs \<Rightarrow>
       if c = CHR ''e'' \<or> c = CHR ''E'' then
         (case cs of
            g # ds \<Rightarrow>
              if g = CHR ''+'' \<or> g = CHR ''-'' then map_option (\<lambda>(d, r). (c # g # d, r)) (scan_digits ds)
              else map_option (\<lambda>(d, r). (c # d, r)) (scan_digits cs)
          | [] \<Rightarrow> None)
       else Some ([], s)
   | [] \<Rightarrow> Some ([], []))"

definition scan_sign :: "bytes \<Rightarrow> bytes \<times> bytes" where
  "scan_sign s = (case s of c # cs \<Rightarrow> if c = CHR ''-'' then ([c], cs) else ([], s) | [] \<Rightarrow> ([], []))"

definition scan_number :: "bytes \<Rightarrow> (bytes \<times> bytes) option" where
  "scan_number s = (case scan_sign s of (g, s0) \<Rightarrow>
     (case scan_int_part s0 of None \<Rightarrow> None | Some (i, s1) \<Rightarrow>
       (case scan_frac s1 of None \<Rightarrow> None | Some (f, s2) \<Rightarrow>
         (case scan_exp s2 of None \<Rightarrow> None | Some (x, s3) \<Rightarrow> Some (g @ i @ f @ x, s3)))))"

text \<open>A text that cannot continue a number.\<close>

definition num_end :: "bytes \<Rightarrow> bool" where
  "num_end t \<longleftrightarrow> t = [] \<or> (\<not> is_digit (hd t) \<and> hd t \<notin> set ''.eE+-'')"

lemma digits_num_end:
  "num_end t \<Longrightarrow> takeWhile is_digit (s @ t) = takeWhile is_digit s"
  "num_end t \<Longrightarrow> dropWhile is_digit (s @ t) = dropWhile is_digit s @ t"
  by (induction s) (auto simp: num_end_def takeWhile_eq_Nil_iff dropWhile_hd_id)

lemma scan_int_part_append: "scan_int_part s = Some (l, r) \<Longrightarrow> num_end t \<Longrightarrow> scan_int_part (s @ t) = Some (l, r @ t)"
  by (cases s) (auto simp: scan_int_part_def digits_num_end split: if_splits)

lemma scan_digits_append: "scan_digits s = Some (l, r) \<Longrightarrow> num_end t \<Longrightarrow> scan_digits (s @ t) = Some (l, r @ t)"
  by (auto simp: scan_digits_def digits_num_end split: if_splits)

lemma scan_frac_append: "scan_frac s = Some (l, r) \<Longrightarrow> num_end t \<Longrightarrow> scan_frac (s @ t) = Some (l, r @ t)"
proof (cases s)
  case Nil
  moreover assume "scan_frac s = Some (l, r)" "num_end t"
  ultimately show ?thesis by (auto simp: scan_frac_def num_end_def split: list.splits)
qed (auto simp: scan_frac_def split: if_splits dest: scan_digits_append)

lemma scan_exp_append: "scan_exp s = Some (l, r) \<Longrightarrow> num_end t \<Longrightarrow> scan_exp (s @ t) = Some (l, r @ t)"
proof (cases s)
  case Nil
  moreover assume "scan_exp s = Some (l, r)" "num_end t"
  ultimately show ?thesis by (auto simp: scan_exp_def num_end_def split: list.splits)
qed (auto simp: scan_exp_def split: if_splits list.splits dest: scan_digits_append)

lemma scan_sign_append: "snd (scan_sign s) \<noteq> [] \<Longrightarrow> scan_sign (s @ t) = (fst (scan_sign s), snd (scan_sign s) @ t)"
  by (cases s) (auto simp: scan_sign_def)

lemma scan_number_append:
  assumes "scan_number s = Some (l, r)" and "num_end t"
  shows "scan_number (s @ t) = Some (l, r @ t)"
proof -
  obtain g s0 where g: "scan_sign s = (g, s0)" by (cases "scan_sign s")
  from assms(1) g obtain i s1 f s2 x s3 where
    n: "scan_int_part s0 = Some (i, s1)" "scan_frac s1 = Some (f, s2)" "scan_exp s2 = Some (x, s3)"
       "l = g @ i @ f @ x" "r = s3"
    by (auto simp: scan_number_def split: option.splits)
  then have "s0 \<noteq> []" by (auto simp: scan_int_part_def)
  with scan_sign_append [of s t] g have "scan_sign (s @ t) = (g, s0 @ t)" by simp
  with n show ?thesis
    using scan_int_part_append [OF n(1) assms(2)] scan_frac_append [OF n(2) assms(2)]
      scan_exp_append [OF n(3) assms(2)]
    by (simp add: scan_number_def)
qed

lemma scan_number_split:
  assumes "scan_number s = Some (l, r)"
  shows "s = l @ r \<and> l \<noteq> []"
proof -
  have d: "scan_digits u = Some (d, v) \<Longrightarrow> u = d @ v" for u d v
    by (auto simp: scan_digits_def split: if_splits)
  obtain g s0 where g: "scan_sign s = (g, s0)" by (cases "scan_sign s")
  then have "s = g @ s0" by (auto simp: scan_sign_def split: list.splits if_splits)
  moreover from assms g obtain i s1 f s2 x where
    n: "scan_int_part s0 = Some (i, s1)" "scan_frac s1 = Some (f, s2)" "scan_exp s2 = Some (x, r)"
       "l = g @ i @ f @ x"
    by (auto simp: scan_number_def split: option.splits)
  moreover from n(1) have "s0 = i @ s1 \<and> i \<noteq> []"
    by (auto simp: scan_int_part_def split: list.splits if_splits)
  moreover from n(2) have "s1 = f @ s2"
    by (auto simp: scan_frac_def split: list.splits if_splits dest: d)
  moreover from n(3) have "s2 = x @ r"
    by (auto simp: scan_exp_def split: list.splits if_splits dest: d)
  ultimately show ?thesis by auto
qed

lemma dec_nat_no_leading_zero: "0 < n \<Longrightarrow> hd (dec_nat n) \<noteq> CHR ''0''"
proof (induction n rule: dec_nat.induct)
  case (1 n)
  show ?case
  proof (cases "n < 10")
    case True
    with 1 have "code (char_of (48 + n)) \<noteq> code (CHR ''0'')" by simp
    then show ?thesis using True by (subst dec_nat.simps) (metis list.sel(1))
  next
    case False
    with 1 show ?thesis by (subst dec_nat.simps) simp
  qed
qed

lemma scan_int_part_dec_nat: "scan_int_part (dec_nat n) = Some (dec_nat n, [])"
proof (cases "n = 0")
  case True
  moreover have "dec_nat 0 = ''0''" by code_simp
  ultimately show ?thesis by (simp add: scan_int_part_def)
next
  case False
  obtain c cs where dec: "dec_nat n = c # cs" by (cases "dec_nat n") auto
  with False dec_nat_no_leading_zero [of n] have "c \<noteq> CHR ''0''" by simp
  moreover from dec dec_nat_digits [of n] have "is_digit c" "\<forall>x\<in>set cs. is_digit x"
    by (auto simp: list_all_iff)
  ultimately show ?thesis by (simp add: dec scan_int_part_def)
qed

lemma scan_number_dec_int: "scan_number (dec_int w) = Some (dec_int w, [])"
proof -
  have "scan_sign (dec_nat n) = ([], dec_nat n)" for n
    using dec_nat_hd [of n] by (cases "dec_nat n") (auto simp: scan_sign_def is_digit_def)
  moreover have "scan_sign (CHR ''-'' # s) = (''-'', s)" for s
    by (simp add: scan_sign_def)
  ultimately show ?thesis
    by (simp add: dec_int_def scan_number_def scan_int_part_dec_nat scan_frac_def scan_exp_def)
qed

subsection \<open>Lexing\<close>

lemma scan_raw_split: "scan_raw s = Some (r, u) \<Longrightarrow> s = r @ DQUOTE # u"
  by (induction rule: scan_raw_induct) (simp_all, metis append_take_drop_id)

lemma scan_raw_length: "scan_raw s = Some (r, u) \<Longrightarrow> length u < length s"
  using scan_raw_split [of s r u] by simp

lemma scan_number_length: "scan_number s = Some (n, u) \<Longrightarrow> length u < length s"
  using scan_number_split [of s n u] by auto

lemma scan_raw_append: "scan_raw s = Some (r, u) \<Longrightarrow> scan_raw (s @ t) = Some (r, u @ t)"
proof (induction rule: scan_raw_induct)
  case (unit s n q u)
  from raw_unit_append [OF unit(1), of t] have "0 < n" "n \<le> length s" "raw_unit (s @ t) = Some n" by auto
  moreover from this have "hd (s @ t) = hd s" by (cases s) auto
  ultimately show ?case using unit by (subst scan_raw_unit [of _ n]) simp_all
qed simp

definition is_json_space :: "char \<Rightarrow> bool" where
  "is_json_space c \<longleftrightarrow> c = SP \<or> c = TAB \<or> c = CR \<or> c = LF"

definition punct :: "char \<Rightarrow> token option" where
  "punct c =
     (if c = CHR ''{'' then Some TLBrace else if c = CHR ''}'' then Some TRBrace
      else if c = CHR ''['' then Some TLBrack else if c = CHR '']'' then Some TRBrack
      else if c = CHR '':'' then Some TColon else if c = CHR '','' then Some TComma else None)"

function json_lex :: "bytes \<Rightarrow> token list option" where
  "json_lex s = (case s of
     [] \<Rightarrow> Some []
   | c # cs \<Rightarrow>
       if is_json_space c then json_lex cs
       else (case punct c of
          Some p \<Rightarrow> map_option ((#) p) (json_lex cs)
        | None \<Rightarrow>
            if c = DQUOTE then
              (case scan_raw cs of None \<Rightarrow> None | Some (r, u) \<Rightarrow> map_option ((#) (TStr r)) (json_lex u))
            else if has_prefix ''true'' s then map_option ((#) TTrue) (json_lex (drop 4 s))
            else if has_prefix ''false'' s then map_option ((#) TFalse) (json_lex (drop 5 s))
            else if has_prefix ''null'' s then map_option ((#) TNull) (json_lex (drop 4 s))
            else (case scan_number s of None \<Rightarrow> None | Some (n, u) \<Rightarrow> map_option ((#) (TNum n)) (json_lex u))))"
  by pat_completeness auto
termination
  by (relation "measure length") (auto dest!: scan_raw_length scan_number_length)

declare json_lex.simps [simp del]

end
