(* ===== verification/Go_Json_Value.thy ===== *)
theory Go_Json_Value
  imports Go_Json
begin

text \<open>
  JSON values: \<^verbatim>\<open>json.Unmarshal\<close> of a document into its tree (a machine over tokens that keeps a
  stack of open arrays and objects, as Go's scanner does, with its nesting limit), compact
  \<^verbatim>\<open>json.Marshal\<close>, and \<^verbatim>\<open>Unmarshal\<close> of one value into a string or an integer variable. The main
  result is that a printed value is parsed back.
\<close>

subsection \<open>Printing\<close>

fun text_of :: "token \<Rightarrow> bytes" where
  "text_of TLBrace = ''{''"
| "text_of TRBrace = ''}''"
| "text_of TLBrack = ''[''"
| "text_of TRBrack = '']''"
| "text_of TColon = '':''"
| "text_of TComma = '',''"
| "text_of (TStr r) = DQUOTE # r @ [DQUOTE]"
| "text_of (TNum n) = n"
| "text_of TTrue = ''true''"
| "text_of TFalse = ''false''"
| "text_of TNull = ''null''"

definition texts :: "token list \<Rightarrow> bytes" where
  "texts ts = concat (map text_of ts)"

fun commas :: "token list list \<Rightarrow> token list" where
  "commas [] = []"
| "commas (x # xs) = x @ concat (map ((#) TComma) xs)"

fun toks :: "json \<Rightarrow> token list" where
  "toks JNull = [TNull]"
| "toks (JBool b) = [if b then TTrue else TFalse]"
| "toks (JNum n) = [TNum n]"
| "toks (JStr r) = [TStr r]"
| "toks (JArr js) = TLBrack # commas (map toks js) @ [TRBrack]"
| "toks (JObj ms) = TLBrace # commas (map (\<lambda>(k, j). TStr k # TColon # toks j) ms) @ [TRBrace]"

definition print_json :: "json \<Rightarrow> bytes" where
  "print_json j = texts (toks j)"

text \<open>The JSON string literal for a Go string.\<close>

definition json_string :: "bytes \<Rightarrow> json" where
  "json_string s = JStr (enc_string s)"

definition json_int :: "goint \<Rightarrow> json" where
  "json_int w = JNum (dec_int w)"

subsection \<open>Parsing\<close>

datatype frame = FArr "json list" | FKey "(bytes \<times> json) list" | FVal "(bytes \<times> json) list" bytes

datatype pmode = MValue | MFirst | MKey | MKeyFirst | MColon | MEnd json

definition maxNestingDepth :: nat where "maxNestingDepth = 10000"

definition step_value :: "frame list \<Rightarrow> token \<Rightarrow> (pmode \<times> frame list) option" where
  "step_value st t = (case t of
     TLBrack \<Rightarrow> if length st < maxNestingDepth then Some (MFirst, FArr [] # st) else None
   | TLBrace \<Rightarrow> if length st < maxNestingDepth then Some (MKeyFirst, FKey [] # st) else None
   | TStr r \<Rightarrow> Some (MEnd (JStr r), st)
   | TNum n \<Rightarrow> Some (MEnd (JNum n), st)
   | TTrue \<Rightarrow> Some (MEnd (JBool True), st)
   | TFalse \<Rightarrow> Some (MEnd (JBool False), st)
   | TNull \<Rightarrow> Some (MEnd JNull, st)
   | _ \<Rightarrow> None)"

definition step_key :: "frame list \<Rightarrow> token \<Rightarrow> (pmode \<times> frame list) option" where
  "step_key st t = (case (st, t) of
     (FKey ms # st', TStr k) \<Rightarrow> Some (MColon, FVal ms k # st')
   | _ \<Rightarrow> None)"

fun step_end :: "json \<Rightarrow> frame list \<Rightarrow> token \<Rightarrow> (pmode \<times> frame list) option" where
  "step_end j (FArr xs # st) TComma = Some (MValue, FArr (j # xs) # st)"
| "step_end j (FArr xs # st) TRBrack = Some (MEnd (JArr (rev (j # xs))), st)"
| "step_end j (FVal ms k # st) TComma = Some (MKey, FKey ((k, j) # ms) # st)"
| "step_end j (FVal ms k # st) TRBrace = Some (MEnd (JObj (rev ((k, j) # ms))), st)"
| "step_end j st t = None"

definition json_step :: "pmode \<Rightarrow> frame list \<Rightarrow> token \<Rightarrow> (pmode \<times> frame list) option" where
  "json_step m st t = (case m of
     MValue \<Rightarrow> step_value st t
   | MFirst \<Rightarrow> if t = TRBrack then Some (MEnd (JArr []), tl st) else step_value st t
   | MKey \<Rightarrow> step_key st t
   | MKeyFirst \<Rightarrow> if t = TRBrace then Some (MEnd (JObj []), tl st) else step_key st t
   | MColon \<Rightarrow> if t = TColon then Some (MValue, st) else None
   | MEnd j \<Rightarrow> step_end j st t)"

fun json_run :: "pmode \<Rightarrow> frame list \<Rightarrow> token list \<Rightarrow> json option" where
  "json_run m st [] = (case (m, st) of (MEnd j, []) \<Rightarrow> Some j | _ \<Rightarrow> None)"
| "json_run m st (t # ts) = (case json_step m st t of None \<Rightarrow> None | Some (m', st') \<Rightarrow> json_run m' st' ts)"

definition parse_json :: "bytes \<Rightarrow> json option" where
  "parse_json s = Option.bind (json_lex s) (json_run MValue [])"

subsection \<open>\<^verbatim>\<open>Unmarshal\<close> into a variable\<close>

text \<open>
  \<open>None\<close> is an error; a JSON \<^verbatim>\<open>null\<close> leaves the variable (second argument) as it is.
\<close>

fun unmarshal_string :: "json \<Rightarrow> bytes \<Rightarrow> bytes option" where
  "unmarshal_string JNull old = Some old"
| "unmarshal_string (JStr r) old = unquote r"
| "unmarshal_string _ old = None"

fun unmarshal_int :: "json \<Rightarrow> goint \<Rightarrow> goint option" where
  "unmarshal_int JNull old = Some old"
| "unmarshal_int (JNum n) old = parse_int n"
| "unmarshal_int _ old = None"

lemma unmarshal_json_string [simp]: "unmarshal_string (json_string s) old = Some (utf8_repair s)"
  by (simp add: json_string_def unquote_enc_string)

lemma unmarshal_json_int [simp]: "unmarshal_int (json_int w) old = Some w"
  by (simp add: json_int_def)

subsection \<open>A printed value is parsed back\<close>

fun wf_json :: "json \<Rightarrow> bool" where
  "wf_json (JNum n) = (scan_number n = Some (n, []))"
| "wf_json (JStr r) = (scan_raw (r @ [DQUOTE]) = Some (r, []))"
| "wf_json (JArr js) = (\<forall>j\<in>set js. wf_json j)"
| "wf_json (JObj ms) = (\<forall>(k, j)\<in>set ms. scan_raw (k @ [DQUOTE]) = Some (k, []) \<and> wf_json j)"
| "wf_json _ = True"

fun json_depth :: "json \<Rightarrow> nat" where
  "json_depth (JArr js) = Suc (Max (insert 0 (json_depth ` set js)))"
| "json_depth (JObj ms) = Suc (Max (insert 0 ((\<lambda>(k, j). json_depth j) ` set ms)))"
| "json_depth _ = 0"

lemma wf_json_string [simp]: "wf_json (json_string s)"
  using scan_raw_enc_string [of s "[]"] by (simp add: json_string_def)

lemma wf_json_int [simp]: "wf_json (json_int w)"
  by (simp add: json_int_def scan_number_dec_int)

lemma texts_simps [simp]:
  "texts [] = []" "texts (t # ts) = text_of t @ texts ts" "texts (ts @ us) = texts ts @ texts us"
  by (simp_all add: texts_def)

lemma json_lex_Nil [simp]: "json_lex [] = Some []"
  by (simp add: json_lex.simps)

lemma json_lex_space: "is_json_space c \<Longrightarrow> json_lex (c # s) = json_lex s"
  by (simp add: json_lex.simps [of "c # s"])

lemma json_lex_punct:
  assumes "punct c = Some t"
  shows "json_lex (c # s) = map_option ((#) t) (json_lex s)"
proof -
  have "\<not> is_json_space c" using assms by (auto simp: punct_def is_json_space_def split: if_splits)
  then show ?thesis using assms by (simp add: json_lex.simps [of "c # s"])
qed

lemma json_lex_string:
  assumes "scan_raw (r @ [DQUOTE]) = Some (r, [])"
  shows "json_lex (DQUOTE # r @ DQUOTE # s) = map_option ((#) (TStr r)) (json_lex s)"
  using scan_raw_append [OF assms, of s]
  by (subst json_lex.simps) (simp add: is_json_space_def punct_def)

lemma scan_number_hd: "scan_number (c # s) = Some x \<Longrightarrow> is_digit c \<or> c = CHR ''-''"
  by (auto simp: scan_number_def scan_sign_def scan_int_part_def is_digit_def
      split: option.split_asm prod.split_asm if_split_asm)

lemma json_lex_number:
  assumes n: "scan_number n = Some (n, [])" and s: "num_end s"
  shows "json_lex (n @ s) = map_option ((#) (TNum n)) (json_lex s)"
proof -
  obtain c cs where c: "n = c # cs" using scan_number_split [OF n] by (cases n) auto
  from scan_number_hd [of c cs] n c have d: "is_digit c \<or> c = CHR ''-''" by auto
  then have "\<not> is_json_space c" "punct c = None" "c \<noteq> DQUOTE" "CHR ''t'' \<noteq> c" "CHR ''f'' \<noteq> c" "CHR ''n'' \<noteq> c"
    by (auto simp: is_json_space_def punct_def is_digit_def)
  with scan_number_append [OF n s] show ?thesis
    by (subst json_lex.simps) (simp add: c)
qed

lemma json_lex_keyword:
  "json_lex (''true'' @ s) = map_option ((#) TTrue) (json_lex s)"
  "json_lex (''false'' @ s) = map_option ((#) TFalse) (json_lex s)"
  "json_lex (''null'' @ s) = map_option ((#) TNull) (json_lex s)"
  by (simp_all add: json_lex.simps [of "_ # _"] is_json_space_def punct_def)


lemmas json_lex_token = json_lex_punct json_lex_string json_lex_number json_lex_keyword

lemma num_end_punct: "punct c = Some t \<Longrightarrow> num_end (c # s)"
  by (auto simp: punct_def num_end_def is_digit_def split: if_splits)

lemma punct_simps [simp]:
  "punct (CHR ''{'') = Some TLBrace" "punct (CHR ''}'') = Some TRBrace" "punct (CHR ''['') = Some TLBrack"
  "punct (CHR '']'') = Some TRBrack" "punct (CHR '':'') = Some TColon" "punct (CHR '','') = Some TComma"
  by (simp_all add: punct_def)

definition prepend :: "token list \<Rightarrow> token list option \<Rightarrow> token list option" where
  "prepend ts m = map_option ((@) ts) m"

lemma prepend_simps:
  "prepend [] m = m" "map_option ((#) t) m = prepend [t] m" "prepend ts (prepend us m) = prepend (ts @ us) m"
  by (cases m; simp add: prepend_def)+

text \<open>\<open>lexes ts\<close>: the texts of the tokens are read back as these tokens, whatever follows.\<close>

definition lexes :: "token list \<Rightarrow> bool" where
  "lexes ts \<longleftrightarrow> (\<forall>s. num_end s \<longrightarrow> json_lex (texts ts @ s) = prepend ts (json_lex s))"

lemma lexesD: "lexes ts \<Longrightarrow> num_end s \<Longrightarrow> json_lex (texts ts @ s) = prepend ts (json_lex s)"
  by (simp add: lexes_def)

lemma lexes_comma_list:
  "\<forall>ts\<in>set tss. lexes ts \<Longrightarrow> punct c = Some p \<Longrightarrow>
   json_lex (texts (concat (map ((#) TComma) tss)) @ c # s)
     = prepend (concat (map ((#) TComma) tss)) (json_lex (c # s))"
proof (induction tss)
  case (Cons ts tss)
  let ?rest = "texts (concat (map ((#) TComma) tss)) @ c # s"
  have "num_end ?rest"
    using num_end_punct [OF Cons.prems(2)] num_end_punct [of "CHR '',''" TComma] by (cases tss) simp_all
  with Cons have "json_lex (texts ts @ ?rest) = prepend ts (json_lex ?rest)"
    by (simp add: lexesD)
  with Cons show ?case by (simp add: json_lex_punct prepend_simps)
qed (simp add: prepend_simps)

lemma lexes_commas:
  assumes "\<forall>ts\<in>set tss. lexes ts" "punct c = Some p"
  shows "json_lex (texts (commas tss) @ c # s) = prepend (commas tss) (json_lex (c # s))"
proof (cases tss)
  case Nil
  then show ?thesis by (simp add: prepend_simps)
next
  case (Cons ts tss')
  let ?rest = "texts (concat (map ((#) TComma) tss')) @ c # s"
  have "num_end ?rest"
    using num_end_punct [OF assms(2)] num_end_punct [of "CHR '',''" TComma] by (cases tss') simp_all
  with assms(1) Cons have "json_lex (texts ts @ ?rest) = prepend ts (json_lex ?rest)"
    by (simp add: lexesD)
  with Cons assms lexes_comma_list [of tss' c p s] show ?thesis
    by (simp add: prepend_simps)
qed

lemma lexes_toks: "wf_json j \<Longrightarrow> lexes (toks j)"
proof (induction j)
  case (JBool b)
  then show ?case by (simp add: lexes_def json_lex_keyword [simplified] prepend_simps)
next
  case (JArr js)
  then have "\<forall>ts\<in>set (map toks js). lexes ts" by auto
  from lexes_commas [OF this, of "CHR '']''" TRBrack] show ?case
    by (simp add: lexes_def json_lex_punct prepend_simps)
next
  case (JObj ms)
  let ?member = "\<lambda>(k, j). TStr k # TColon # toks j"
  have "lexes (?member m)" if "m \<in> set ms" for m
  proof -
    obtain k j where m: "m = (k, j)" by (cases m)
    with JObj that have "scan_raw (k @ [DQUOTE]) = Some (k, [])" "lexes (toks j)" by auto
    then show ?thesis
      by (simp add: m lexes_def json_lex_string json_lex_punct prepend_simps)
  qed
  then have "\<forall>ts\<in>set (map ?member ms). lexes ts" by auto
  from lexes_commas [OF this, of "CHR ''}''" TRBrace] show ?case
    by (simp add: lexes_def json_lex_punct prepend_simps)
qed (simp_all add: lexes_def json_lex_keyword [simplified] json_lex_number json_lex_string prepend_simps)

lemma json_run_step: "json_step m st t = Some (m', st') \<Longrightarrow> json_run m st (t # ts) = json_run m' st' ts"
  by simp

lemma run_first:
  "json_run MFirst st (toks j @ ts) = json_run MValue st (toks j @ ts)"
  by (cases j) (simp_all add: json_step_def)

text \<open>Reading the tokens of a value leaves the machine at the end of that value.\<close>

definition runs :: "json \<Rightarrow> bool" where
  "runs j \<longleftrightarrow> (\<forall>st ts. length st + json_depth j \<le> maxNestingDepth \<longrightarrow>
     json_run MValue st (toks j @ ts) = json_run (MEnd j) st ts)"

lemma runsD: "runs j \<Longrightarrow> length st + json_depth j \<le> maxNestingDepth \<Longrightarrow>
  json_run MValue st (toks j @ ts) = json_run (MEnd j) st ts"
  by (simp add: runs_def)

lemma run_elems:
  "\<forall>x\<in>set js. runs x \<and> Suc (length st) + json_depth x \<le> maxNestingDepth \<Longrightarrow>
   json_run (MEnd j) (FArr xs # st) (concat (map (\<lambda>x. TComma # toks x) js) @ TRBrack # ts)
     = json_run (MEnd (JArr (rev xs @ j # js))) st ts"
  by (induction js arbitrary: j xs) (simp_all add: json_step_def runsD)

lemma run_members:
  "\<forall>(k, x)\<in>set ms. runs x \<and> Suc (length st) + json_depth x \<le> maxNestingDepth \<Longrightarrow>
   json_run (MEnd j) (FVal acc k # st) (concat (map (\<lambda>(k, x). TComma # TStr k # TColon # toks x) ms) @ TRBrace # ts)
     = json_run (MEnd (JObj (rev acc @ (k, j) # ms))) st ts"
  by (induction ms arbitrary: j k acc) (auto simp: json_step_def step_key_def runsD)

lemma json_depth_member:
  "j \<in> set js \<Longrightarrow> json_depth j < json_depth (JArr js)"
  "(k, j) \<in> set ms \<Longrightarrow> json_depth j < json_depth (JObj ms)"
  by (auto simp: less_Suc_eq_le intro!: Max_ge intro: rev_image_eqI)

lemma runs_json: "runs j"
proof (induction j)
  case (JArr js)
  show ?case unfolding runs_def
  proof (intro allI impI)
    fix st :: "frame list" and ts assume d: "length st + json_depth (JArr js) \<le> maxNestingDepth"
    have el: "runs x \<and> Suc (length st) + json_depth x \<le> maxNestingDepth" if "x \<in> set js" for x
      using JArr that d json_depth_member(1) [OF that] by auto
    show "json_run MValue st (toks (JArr js) @ ts) = json_run (MEnd (JArr js)) st ts"
    proof (cases js)
      case Nil
      then show ?thesis using d by (simp add: json_step_def step_value_def)
    next
      case (Cons j js')
      with el run_elems [of js' st j "[]" ts] d show ?thesis
        by (simp add: json_step_def [of MValue] step_value_def run_first runsD comp_def)
    qed
  qed
next
  case (JObj ms)
  show ?case unfolding runs_def
  proof (intro allI impI)
    fix st :: "frame list" and ts assume d: "length st + json_depth (JObj ms) \<le> maxNestingDepth"
    have el: "runs x \<and> Suc (length st) + json_depth x \<le> maxNestingDepth" if "(k, x) \<in> set ms" for k x
      using JObj that d json_depth_member(2) [OF that] by fastforce
    show "json_run MValue st (toks (JObj ms) @ ts) = json_run (MEnd (JObj ms)) st ts"
    proof (cases ms)
      case Nil
      then show ?thesis using d by (simp add: json_step_def step_value_def)
    next
      case (Cons m ms')
      obtain k j where m: "m = (k, j)" by (cases m)
      have "\<forall>(k, x)\<in>set ms'. runs x \<and> Suc (length st) + json_depth x \<le> maxNestingDepth"
        using el Cons by auto
      with el [of k j] m run_members [of ms' st j "[]" k ts] Cons d show ?thesis
        by (simp add: json_step_def step_value_def step_key_def runsD comp_def case_prod_unfold)
    qed
  qed
qed (simp_all add: runs_def json_step_def step_value_def)

lemma json_lex_spaces: "list_all is_json_space s \<Longrightarrow> json_lex s = Some []"
  by (induction s) (simp_all add: json_lex_space)

theorem parse_print_json:
  assumes "wf_json j" and "json_depth j \<le> maxNestingDepth" and "list_all is_json_space s"
  shows "parse_json (print_json j @ s) = Some j"
proof -
  have "num_end s" using assms(3) by (cases s) (auto simp: num_end_def is_json_space_def is_digit_def)
  with lexes_toks [OF assms(1)] json_lex_spaces [OF assms(3)]
  have "json_lex (print_json j @ s) = Some (toks j)" by (simp add: print_json_def lexesD prepend_def)
  then show ?thesis using runsD [OF runs_json, of "[]" j "[]"] assms(2) by (simp add: parse_json_def)
qed

end
