(* ===== verification/Go_IO.thy ===== *)
theory Go_IO
  imports Go_Strconv
begin

text \<open>
  The input and output the sources do through \<^verbatim>\<open>bufio\<close> and \<^verbatim>\<open>io\<close>.

  A \<^verbatim>\<open>bufio.Reader\<close> over a connection is the bytes that are still to come and the error the
  connection reports once they are exhausted. An \<^verbatim>\<open>io.Writer\<close> is a function; the law that a caller
  such as \<^verbatim>\<open>Packet.Write\<close> relies on is the locale \<open>io_writer\<close>, and the law that a writer keeps
  failing once it has failed is the locale \<open>sticky_writer\<close>. Both are interpreted on the models of
  \<^verbatim>\<open>bytes.Buffer\<close> and of \<^verbatim>\<open>bufio.Writer\<close> over a connection.
\<close>

subsection \<open>Reading\<close>

record reader =
  rd_data :: bytes
  rd_err :: gerror

definition bufio_size :: nat where "bufio_size = 4096"

text \<open>
  \<^verbatim>\<open>bufio.Reader.ReadLine\<close>: a line without its end, at most one buffer long; when the buffer is full
  the line is cut (the flag \<^verbatim>\<open>isPrefix\<close>, which the sources ignore), and a carriage return that would
  be cut off from its line feed stays unread.
\<close>

definition ReadLine :: "reader \<Rightarrow> (gerror + bytes) \<times> reader" where
  "ReadLine rd =
     (let line = takeWhile (\<lambda>c. c \<noteq> LF) (rd_data rd) in
      if length line < length (rd_data rd) \<and> length line < bufio_size then
        (Inr (if line \<noteq> [] \<and> last line = CR then butlast line else line),
         rd\<lparr>rd_data := drop (Suc (length line)) (rd_data rd)\<rparr>)
      else if bufio_size \<le> length (rd_data rd) then
        (let chunk = take bufio_size (rd_data rd);
             chunk = (if last chunk = CR then butlast chunk else chunk)
         in (Inr chunk, rd\<lparr>rd_data := drop (length chunk) (rd_data rd)\<rparr>))
      else if rd_data rd = [] then (Inl (rd_err rd), rd)
      else (Inr (rd_data rd), rd\<lparr>rd_data := []\<rparr>))"

text \<open>\<^verbatim>\<open>io.ReadFull\<close> of \<open>n\<close> bytes: the error if there is one, and the bytes read.\<close>

definition ReadFull :: "nat \<Rightarrow> reader \<Rightarrow> (gerror option \<times> bytes) \<times> reader" where
  "ReadFull n rd =
     (if n \<le> length (rd_data rd) then
        ((None, take n (rd_data rd)), rd\<lparr>rd_data := drop n (rd_data rd)\<rparr>)
      else
        ((Some (if rd_data rd \<noteq> [] \<and> rd_err rd = ''EOF'' then ''unexpected EOF'' else rd_err rd), rd_data rd),
         rd\<lparr>rd_data := []\<rparr>))"

lemma ReadLine_crlf:
  assumes "LF \<notin> set l" and "length l + 1 < bufio_size" and "rd_data rd = l @ CR # LF # s"
  shows "ReadLine rd = (Inr l, rd\<lparr>rd_data := s\<rparr>)"
proof -
  have "\<forall>c\<in>set (l @ [CR]). c \<noteq> LF" using assms(1) by auto
  then have "takeWhile (\<lambda>c. c \<noteq> LF) (l @ CR # LF # s) = l @ [CR]"
    using takeWhile_append_stop [of "l @ [CR]" "\<lambda>c. c \<noteq> LF" LF s] by simp
  then show ?thesis using assms(2,3) by (simp add: ReadLine_def)
qed

lemma ReadLine_consumes:
  assumes "ReadLine rd = (Inr l, rd')"
  shows "\<exists>n. 0 < n \<and> n \<le> length (rd_data rd) \<and> rd' = rd\<lparr>rd_data := drop n (rd_data rd)\<rparr>"
proof -
  let ?d = "rd_data rd" and ?line = "takeWhile (\<lambda>c. c \<noteq> LF) (rd_data rd)"
  consider (line) "length ?line < length ?d \<and> length ?line < bufio_size"
    | (full) "\<not> (length ?line < length ?d \<and> length ?line < bufio_size)" "bufio_size \<le> length ?d"
    | (rest) "\<not> (length ?line < length ?d \<and> length ?line < bufio_size)" "\<not> bufio_size \<le> length ?d"
    by blast
  then show ?thesis
  proof cases
    case line
    then show ?thesis using assms
      by (intro exI [of _ "Suc (length ?line)"]) (auto simp: ReadLine_def Let_def)
  next
    case full
    let ?chunk = "if last (take bufio_size ?d) = CR then butlast (take bufio_size ?d) else take bufio_size ?d"
    have "length ?chunk = 4095 \<or> length ?chunk = 4096" using full by (auto simp: bufio_size_def)
    moreover have "rd' = rd\<lparr>rd_data := drop (length ?chunk) ?d\<rparr>"
      using assms full by (auto simp: ReadLine_def Let_def split: if_splits)
    ultimately show ?thesis using full(2)
      by (intro exI [of _ "length ?chunk"]) (auto simp: bufio_size_def)
  next
    case rest
    then have "?d \<noteq> []" "rd' = rd\<lparr>rd_data := []\<rparr>"
      using assms by (auto simp: ReadLine_def Let_def split: if_splits)
    then show ?thesis by (intro exI [of _ "length ?d"]) auto
  qed
qed

lemma ReadFull_prefix:
  "rd_data rd = p @ s \<Longrightarrow> length p = n \<Longrightarrow> ReadFull n rd = ((None, p), rd\<lparr>rd_data := s\<rparr>)"
  by (auto simp: ReadFull_def)

lemma ReadFull_Some_iff: "(\<exists>e b rd'. ReadFull n rd = ((Some e, b), rd')) \<longleftrightarrow> length (rd_data rd) < n"
  by (auto simp: ReadFull_def)

subsection \<open>Writing: the interface\<close>

type_synonym 'w io_write = "bytes \<Rightarrow> 'w \<Rightarrow> (nat \<times> gerror option) \<times> 'w"

locale io_writer =
  fixes wr :: "bytes \<Rightarrow> 'w \<Rightarrow> (nat \<times> gerror option) \<times> 'w"
    and contents :: "'w \<Rightarrow> bytes"
  assumes write_count: "wr p w = ((n, e), w') \<Longrightarrow> n \<le> length p"
    and write_contents: "wr p w = ((n, e), w') \<Longrightarrow> contents w' = contents w @ take n p"
    and write_short: "wr p w = ((n, None), w') \<Longrightarrow> n = length p"
begin

lemma write_all: "wr p w = ((n, None), w') \<Longrightarrow> n = length p \<and> contents w' = contents w @ p"
  using write_contents [of p w n None w'] write_short [of p w n w'] by simp

lemma write_prefix: "wr p w = ((n, e), w') \<Longrightarrow> \<exists>q. contents w' = contents w @ q \<and> n = length q \<and> (\<exists>r. p = q @ r)"
  using write_contents [of p w n e w'] write_count [of p w n e w']
  by (metis append_take_drop_id length_take min.absorb2)

end

locale sticky_writer = io_writer wr contents
  for wr :: "bytes \<Rightarrow> 'w \<Rightarrow> (nat \<times> gerror option) \<times> 'w" and contents :: "'w \<Rightarrow> bytes" +
  fixes failed :: "'w \<Rightarrow> gerror option"
  assumes fails: "wr p w = ((n, Some e), w') \<Longrightarrow> failed w' = Some e"
    and stays_failed: "failed w = Some e \<Longrightarrow> wr p w = ((0, Some e), w)"

subsection \<open>\<^verbatim>\<open>bytes.Buffer\<close>\<close>

definition Buffer_Write :: "bytes \<Rightarrow> bytes \<Rightarrow> (nat \<times> gerror option) \<times> bytes" where
  "Buffer_Write p b = ((length p, None), b @ p)"

interpretation buffer: sticky_writer Buffer_Write "\<lambda>b. b" "\<lambda>_. None"
  by unfold_locales (auto simp: Buffer_Write_def)

subsection \<open>A connection, and \<^verbatim>\<open>bufio.Writer\<close> over it\<close>

text \<open>
  \<open>nc_fail = Some (k, e)\<close>: the connection accepts \<open>k\<close> more bytes, and then every write fails with
  the error text \<open>e\<close>; \<open>None\<close>: it accepts everything.
\<close>

record netconn =
  nc_sent :: bytes
  nc_fail :: "(nat \<times> gerror) option"

definition conn_write :: "bytes \<Rightarrow> netconn \<Rightarrow> (nat \<times> gerror option) \<times> netconn" where
  "conn_write p c = (case nc_fail c of
     None \<Rightarrow> ((length p, None), c\<lparr>nc_sent := nc_sent c @ p\<rparr>)
   | Some (k, e) \<Rightarrow>
       if length p \<le> k then
         ((length p, None), c\<lparr>nc_sent := nc_sent c @ p, nc_fail := Some (k - length p, e)\<rparr>)
       else
         ((k, Some e), c\<lparr>nc_sent := nc_sent c @ take k p, nc_fail := Some (0, e)\<rparr>))"

interpretation net: io_writer conn_write nc_sent
  by unfold_locales (auto simp: conn_write_def split: option.splits if_splits)

record bufwriter =
  bw_buf :: bytes
  bw_err :: "gerror option"
  bw_conn :: netconn

definition bw_contents :: "bufwriter \<Rightarrow> bytes" where
  "bw_contents w = nc_sent (bw_conn w) @ bw_buf w"

definition bw_Flush :: "bufwriter \<Rightarrow> gerror option \<times> bufwriter" where
  "bw_Flush w = (case bw_err w of
     Some e \<Rightarrow> (Some e, w)
   | None \<Rightarrow>
       if bw_buf w = [] then (None, w)
       else (case conn_write (bw_buf w) (bw_conn w) of
          ((n, None), c) \<Rightarrow> (None, w\<lparr>bw_buf := [], bw_conn := c\<rparr>)
        | ((n, Some e), c) \<Rightarrow>
            (Some e, w\<lparr>bw_buf := drop n (bw_buf w), bw_err := Some e, bw_conn := c\<rparr>)))"

text \<open>The loop of \<^verbatim>\<open>bufio.Writer.Write\<close>: \<open>nn\<close> bytes are accepted already.\<close>

definition bw_step :: "bytes \<Rightarrow> bufwriter \<Rightarrow> nat \<times> bufwriter" where
  "bw_step p w =
     (if bw_buf w = [] then
        (case conn_write p (bw_conn w) of ((n, e), c) \<Rightarrow> (n, w\<lparr>bw_err := e, bw_conn := c\<rparr>))
      else
        (let n = min (bufio_size - length (bw_buf w)) (length p) in
         (n, snd (bw_Flush (w\<lparr>bw_buf := bw_buf w @ take n p\<rparr>)))))"

lemma conn_write_cases:
  obtains (ok) c where "conn_write p nc = ((length p, None), c)"
  | (error) k e c where "conn_write p nc = ((k, Some e), c)" "k < length p"
proof (cases "nc_fail nc")
  case None
  then show ?thesis by (intro ok) (simp add: conn_write_def)
next
  case (Some ke)
  obtain k e where ke: "ke = (k, e)" by (cases ke)
  show ?thesis
  proof (cases "length p \<le> k")
    case True
    then show ?thesis using Some ke by (intro ok) (simp add: conn_write_def)
  next
    case False
    then show ?thesis using Some ke by (intro error) (auto simp: conn_write_def)
  qed
qed

lemma bw_step_decreases:
  assumes "bw_err w = None" and "bufio_size - length (bw_buf w) < length p" and "bw_step p w = (n, w')"
  shows "length (drop n p) + length (bw_buf w') + (if bw_err w' = None then 1 else 0)
    < length p + length (bw_buf w) + (if bw_err w = None then 1 else 0)"
proof (cases "bw_buf w = []")
  case True
  with assms show ?thesis
    by (cases rule: conn_write_cases [of p "bw_conn w"]) (auto simp: bw_step_def bufio_size_def)
next
  case False
  let ?n = "min (bufio_size - length (bw_buf w)) (length p)"
  have "take ?n p @ drop ?n p = p" by simp
  then have "length (take ?n p) + length (drop ?n p) = length p" by simp
  moreover from False obtain c cs where "bw_buf w = c # cs" by (cases "bw_buf w") auto
  ultimately show ?thesis using assms
    by (cases rule: conn_write_cases [of "bw_buf w @ take ?n p" "bw_conn w"])
       (auto simp: bw_step_def bw_Flush_def Let_def)
qed

function bw_loop :: "nat \<Rightarrow> bytes \<Rightarrow> bufwriter \<Rightarrow> (nat \<times> gerror option) \<times> bufwriter" where
  "bw_loop nn p w =
     (if bufio_size - length (bw_buf w) < length p \<and> bw_err w = None then
        (let (n, w') = bw_step p w in bw_loop (nn + n) (drop n p) w')
      else (case bw_err w of
          Some e \<Rightarrow> ((nn, Some e), w)
        | None \<Rightarrow> ((nn + length p, None), w\<lparr>bw_buf := bw_buf w @ p\<rparr>)))"
  by pat_completeness auto
termination
proof (relation "measure (\<lambda>(nn, p, w). length p + length (bw_buf w) + (if bw_err w = None then 1 else 0))", goal_cases)
  case (2 nn p w x n w')
  then show ?case using bw_step_decreases [of w p n w'] by simp
qed simp

declare bw_loop.simps [simp del]

definition bw_Write :: "bytes \<Rightarrow> bufwriter \<Rightarrow> (nat \<times> gerror option) \<times> bufwriter" where
  "bw_Write p w = bw_loop 0 p w"


lemma bw_Flush_contents:
  "bw_Flush w = (e, w') \<Longrightarrow> bw_contents w' = bw_contents w"
  by (auto simp: bw_Flush_def bw_contents_def split: option.splits if_splits prod.splits
      dest: net.write_all net.write_contents)

lemma bw_step_contents:
  assumes "bw_step p w = (n, w')"
  shows "n \<le> length p \<and> bw_contents w' = bw_contents w @ take n p"
proof (cases "bw_buf w = []")
  case True
  with assms show ?thesis
    by (auto simp: bw_step_def bw_contents_def split: prod.splits
        dest: net.write_count net.write_contents)
next
  case False
  let ?n = "min (bufio_size - length (bw_buf w)) (length p)"
  let ?w = "w\<lparr>bw_buf := bw_buf w @ take ?n p\<rparr>"
  have w': "w' = snd (bw_Flush ?w)" and n: "n = ?n"
    using False assms by (auto simp: bw_step_def Let_def)
  have "bw_contents w' = bw_contents ?w"
    unfolding w' using bw_Flush_contents [of ?w] by (metis prod.collapse)
  then show ?thesis by (simp add: n bw_contents_def)
qed

lemma bw_loop_contents:
  assumes "bw_loop nn p w = ((m, e), w')"
  shows "\<exists>k \<le> length p. m = nn + k \<and> bw_contents w' = bw_contents w @ take k p
    \<and> bw_err w' = e \<and> (e = None \<longrightarrow> k = length p)"
  using assms
proof (induction nn p w rule: bw_loop.induct)
  case (1 nn p w)
  show ?case
  proof (cases "bufio_size - length (bw_buf w) < length p \<and> bw_err w = None")
    case True
    obtain n w1 where step: "bw_step p w = (n, w1)" by (cases "bw_step p w")
    with True "1.prems" have "bw_loop (nn + n) (drop n p) w1 = ((m, e), w')"
      by (subst (asm) bw_loop.simps) simp
    from "1.IH" [OF True step [symmetric] refl this] obtain k where
      k: "k \<le> length (drop n p)" "m = nn + n + k" "bw_contents w' = bw_contents w1 @ take k (drop n p)"
         "bw_err w' = e" "e = None \<longrightarrow> k = length (drop n p)" by auto
    moreover from bw_step_contents [OF step] have
      "n \<le> length p" "bw_contents w1 = bw_contents w @ take n p" by auto
    ultimately show ?thesis by (intro exI [of _ "n + k"]) (auto simp: take_add)
  next
    case False
    with "1.prems" show ?thesis
      by (subst (asm) bw_loop.simps) (force simp: bw_contents_def split: option.splits)
  qed
qed

text \<open>
  The writer of a connection satisfies the contract of \<^verbatim>\<open>io.Writer\<close> (what it has accepted is what was
  sent followed by what is buffered), and its first error stays: a later \<^verbatim>\<open>Write\<close> accepts nothing.
\<close>

interpretation bufw: sticky_writer bw_Write bw_contents bw_err
proof (unfold_locales, goal_cases)
  case (1 p w n e w')
  then show ?case using bw_loop_contents [of 0 p w n e w'] by (auto simp: bw_Write_def)
next
  case (2 p w n e w')
  then show ?case using bw_loop_contents [of 0 p w n e w'] by (auto simp: bw_Write_def)
next
  case (3 p w n w')
  then show ?case using bw_loop_contents [of 0 p w n None w'] by (auto simp: bw_Write_def)
next
  case (4 p w n e w')
  then show ?case using bw_loop_contents [of 0 p w n "Some e" w'] by (auto simp: bw_Write_def)
next
  case (5 w e p)
  then show ?case by (simp add: bw_Write_def bw_loop.simps [of 0 p w])
qed

text \<open>A connection that accepts everything: the writer never fails, and flushing sends all.\<close>

definition bw_healthy :: "bufwriter \<Rightarrow> bool" where
  "bw_healthy w \<longleftrightarrow> bw_err w = None \<and> nc_fail (bw_conn w) = None"

lemma conn_write_healthy:
  "nc_fail c = None \<Longrightarrow> conn_write p c = ((length p, None), c\<lparr>nc_sent := nc_sent c @ p\<rparr>)"
  by (simp add: conn_write_def)

lemma bw_Flush_healthy:
  "bw_healthy w \<Longrightarrow> \<exists>w'. bw_Flush w = (None, w') \<and> bw_healthy w' \<and> bw_buf w' = []
     \<and> nc_sent (bw_conn w') = bw_contents w"
  by (auto simp: bw_healthy_def bw_Flush_def conn_write_healthy bw_contents_def)

lemma bw_step_healthy: "bw_healthy w \<Longrightarrow> bw_step p w = (n, w') \<Longrightarrow> bw_healthy w'"
  by (auto simp: bw_step_def bw_healthy_def bw_Flush_def conn_write_healthy Let_def
      split: if_splits prod.splits)

lemma bw_loop_healthy:
  "bw_healthy w \<Longrightarrow> bw_loop nn p w = ((m, e), w') \<Longrightarrow> e = None \<and> bw_healthy w'"
proof (induction nn p w rule: bw_loop.induct)
  case (1 nn p w)
  show ?case
  proof (cases "bufio_size - length (bw_buf w) < length p \<and> bw_err w = None")
    case True
    obtain n w1 where step: "bw_step p w = (n, w1)" by (cases "bw_step p w")
    with True "1.prems" have "bw_loop (nn + n) (drop n p) w1 = ((m, e), w')"
      by (subst (asm) bw_loop.simps) simp
    with "1.IH" [OF True step [symmetric] refl] bw_step_healthy [OF "1.prems"(1) step]
    show ?thesis by blast
  next
    case False
    with "1.prems" show ?thesis
      by (subst (asm) bw_loop.simps) (auto simp: bw_healthy_def)
  qed
qed

lemma bw_Write_healthy:
  assumes "bw_healthy w"
  shows "\<exists>w'. bw_Write p w = ((length p, None), w') \<and> bw_healthy w' \<and> bw_contents w' = bw_contents w @ p"
proof -
  obtain m e w' where w: "bw_Write p w = ((m, e), w')" by (metis prod.exhaust)
  then have "e = None" "bw_healthy w'"
    using bw_loop_healthy [OF assms, of 0 p m e w'] by (auto simp: bw_Write_def)
  then show ?thesis using bufw.write_all [of p w m w'] w by auto
qed

end
