(* ===== verification/PacketHeader.thy ===== *)
theory PacketHeader
  imports Go_Json_Value Go_IO
begin

text \<open>
  The header of a message (\<^verbatim>\<open>scamp/packetheader.go\<close>): the envelope and message types with their JSON
  forms, the lenient integer \<^verbatim>\<open>flexInt\<close>, and writing and reading the header as a JSON object.
\<close>

subsection \<open>Data\<close>

text \<open>
  Both enumerations are Go integers; \<open>EnvelopeOther\<close> and \<open>MessageTypeOther\<close> stand for every value
  without a constant, and \<open>MessageTypeUnset\<close> is the zero value of \<^verbatim>\<open>messageType\<close>.
\<close>

datatype envelopeFormat = EnvelopeJSON | EnvelopeJSONSTORE | EnvelopeOther goint

datatype messageType = MessageTypeUnset | MessageTypeRequest | MessageTypeReply | MessageTypeOther goint

record PacketHeader =
  hAction :: bytes
  hEnvelope :: envelopeFormat
  hError :: bytes
  hErrorCode :: bytes
  hRequestID :: goint
  hClientID :: goint
  hTicket :: bytes
  hIdentifyingToken :: bytes
  hMessageType :: messageType
  hVersion :: goint

definition zeroHeader :: PacketHeader where
  "zeroHeader = \<lparr>hAction = [], hEnvelope = EnvelopeJSON, hError = [], hErrorCode = [], hRequestID = 0,
     hClientID = 0, hTicket = [], hIdentifyingToken = [], hMessageType = MessageTypeUnset, hVersion = 0\<rparr>"

declare zeroHeader_def [zero_values]

definition quoted :: "bytes \<Rightarrow> bytes" where
  "quoted s = DQUOTE # s @ [DQUOTE]"

subsection \<open>Marshalling\<close>

fun envelope_MarshalJSON :: "envelopeFormat \<Rightarrow> gerror + bytes" where
  "envelope_MarshalJSON EnvelopeJSON = Inr (quoted ''json'')"
| "envelope_MarshalJSON EnvelopeJSONSTORE = Inr (quoted ''jsonstore'')"
| "envelope_MarshalJSON (EnvelopeOther i) = Inl (''unknown format `'' @ dec_int i @ ''`'')"

fun messageType_MarshalJSON :: "messageType \<Rightarrow> gerror + bytes" where
  "messageType_MarshalJSON MessageTypeRequest = Inr (quoted ''request'')"
| "messageType_MarshalJSON MessageTypeReply = Inr (quoted ''reply'')"
| "messageType_MarshalJSON MessageTypeUnset = Inl ''unknown message type `0`''"
| "messageType_MarshalJSON (MessageTypeOther i) = Inl (''unknown message type `'' @ dec_int i @ ''`'')"

definition envelope_UnmarshalJSON :: "bytes \<Rightarrow> gerror + envelopeFormat" where
  "envelope_UnmarshalJSON incoming =
     (if quoted ''json'' = incoming then Inr EnvelopeJSON
      else if quoted ''jsonstore'' = incoming then Inr EnvelopeJSONSTORE
      else Inl (''unknown envelope type `'' @ incoming @ ''`''))"

definition messageType_UnmarshalJSON :: "bytes \<Rightarrow> gerror + messageType" where
  "messageType_UnmarshalJSON incoming =
     (if quoted ''request'' = incoming then Inr MessageTypeRequest
      else if quoted ''reply'' = incoming then Inr MessageTypeReply
      else Inl (''unknown message type `'' @ incoming @ ''`''))"

text \<open>The argument is the value whose raw text \<^verbatim>\<open>UnmarshalJSON\<close> receives; it tries a string, then a number.\<close>

definition flexInt_UnmarshalJSON :: "json \<Rightarrow> gerror + goint" where
  "flexInt_UnmarshalJSON data = (case unmarshal_string data [] of
     Some stringValue \<Rightarrow> (case parse_int stringValue of
         None \<Rightarrow> Inl (''Could not parse string `'' @ quoted stringValue @ ''` as int value'')
       | Some v \<Rightarrow> Inr v)
   | None \<Rightarrow> (case unmarshal_int data 0 of
         Some intValue \<Rightarrow> Inr intValue
       | None \<Rightarrow> Inl (''Could not parse data `'' @ print_json data @ ''` as int value'')))"

text \<open>
  A field of the object the encoder writes: a raw literal is what \<^verbatim>\<open>MarshalJSON\<close> of the field returned
  (without its quotes), and an \<^verbatim>\<open>omitempty\<close> string is left out when it is empty.
\<close>

definition json_literal :: "bytes \<Rightarrow> json" where
  "json_literal q = JStr (butlast (tl q))"

definition omitempty :: "bytes \<Rightarrow> bytes \<Rightarrow> (bytes \<times> json) list" where
  "omitempty k s = (if s = [] then [] else [(k, json_string s)])"

definition header_members :: "bytes \<Rightarrow> bytes \<Rightarrow> PacketHeader \<Rightarrow> (bytes \<times> json) list" where
  "header_members env tp h =
     [(''action'', json_string (hAction h)), (''envelope'', json_literal env)]
     @ omitempty ''error'' (hError h)
     @ omitempty ''error_code'' (hErrorCode h)
     @ [(''request_id'', json_int (hRequestID h)), (''client_id'', json_int (hClientID h)),
        (''ticket'', json_string (hTicket h)), (''identifying_token'', json_string (hIdentifyingToken h)),
        (''type'', json_literal tp), (''version'', json_int (hVersion h))]"

definition header_json :: "PacketHeader \<Rightarrow> gerror + json" where
  "header_json h = (case envelope_MarshalJSON (hEnvelope h) of
     Inl e \<Rightarrow> Inl (''json: error calling MarshalJSON for type scamp.envelopeFormat: '' @ e)
   | Inr env \<Rightarrow> (case messageType_MarshalJSON (hMessageType h) of
       Inl e \<Rightarrow> Inl (''json: error calling MarshalJSON for type scamp.messageType: '' @ e)
     | Inr tp \<Rightarrow> Inr (JObj (header_members env tp h))))"

definition PacketHeader_Write :: "'w io_write \<Rightarrow> PacketHeader \<Rightarrow> 'w \<Rightarrow> gerror option \<times> 'w" where
  "PacketHeader_Write wr h w = (case header_json h of
     Inl e \<Rightarrow> (Some e, w)
   | Inr j \<Rightarrow> (case wr (print_json j @ [LF]) w of ((n, e), w') \<Rightarrow> (e, w')))"

subsection \<open>Unmarshalling\<close>

text \<open>
  A key selects the field with exactly that name, else the field whose name folds to the same text
  (Go folds ASCII case, and maps U+017F and U+212A to \<open>S\<close> and \<open>K\<close>; every other rune stays outside ASCII).
\<close>

definition fold_rune :: "nat \<Rightarrow> nat" where
  "fold_rune r = (if 97 \<le> r \<and> r \<le> 122 then r - 32 else if r = 0x17F then 83 else if r = 0x212A then 75 else r)"

function fold_name :: "bytes \<Rightarrow> nat list" where
  "fold_name s = (if s = [] then [] else fold_rune (fst (decode_rune s)) # fold_name (drop (snd (decode_rune s)) s))"
  by pat_completeness auto
termination
  by (relation "measure length") (auto dest: drop_rune_less)

declare fold_name.simps [simp del]

definition match_field :: "bytes list \<Rightarrow> bytes \<Rightarrow> bytes option" where
  "match_field names k = (if k \<in> set names then Some k else find (\<lambda>n. fold_name n = fold_name k) names)"

definition header_fields :: "bytes list" where
  "header_fields = [''action'', ''envelope'', ''error'', ''error_code'', ''request_id'', ''client_id'',
     ''ticket'', ''identifying_token'', ''type'', ''version'']"

definition ok_of :: "gerror + 'a \<Rightarrow> 'a option" where
  "ok_of r = (case r of Inl _ \<Rightarrow> None | Inr a \<Rightarrow> Some a)"

definition decode_field :: "bytes \<Rightarrow> json \<Rightarrow> PacketHeader \<Rightarrow> PacketHeader option" where
  "decode_field f j h =
     (if f = ''action'' then map_option (\<lambda>v. h\<lparr>hAction := v\<rparr>) (unmarshal_string j (hAction h))
      else if f = ''envelope'' then map_option (\<lambda>v. h\<lparr>hEnvelope := v\<rparr>) (ok_of (envelope_UnmarshalJSON (print_json j)))
      else if f = ''error'' then map_option (\<lambda>v. h\<lparr>hError := v\<rparr>) (unmarshal_string j (hError h))
      else if f = ''error_code'' then map_option (\<lambda>v. h\<lparr>hErrorCode := v\<rparr>) (unmarshal_string j (hErrorCode h))
      else if f = ''request_id'' then map_option (\<lambda>v. h\<lparr>hRequestID := v\<rparr>) (unmarshal_int j (hRequestID h))
      else if f = ''client_id'' then map_option (\<lambda>v. h\<lparr>hClientID := v\<rparr>) (ok_of (flexInt_UnmarshalJSON j))
      else if f = ''ticket'' then map_option (\<lambda>v. h\<lparr>hTicket := v\<rparr>) (unmarshal_string j (hTicket h))
      else if f = ''identifying_token'' then
        map_option (\<lambda>v. h\<lparr>hIdentifyingToken := v\<rparr>) (unmarshal_string j (hIdentifyingToken h))
      else if f = ''type'' then map_option (\<lambda>v. h\<lparr>hMessageType := v\<rparr>) (ok_of (messageType_UnmarshalJSON (print_json j)))
      else if f = ''version'' then map_option (\<lambda>v. h\<lparr>hVersion := v\<rparr>) (unmarshal_int j (hVersion h))
      else Some h)"

fun decode_fields :: "(bytes \<times> json) list \<Rightarrow> PacketHeader \<Rightarrow> PacketHeader option" where
  "decode_fields [] h = Some h"
| "decode_fields ((k, j) # ms) h = (case unquote k of
     None \<Rightarrow> None
   | Some key \<Rightarrow> (case match_field header_fields key of
       None \<Rightarrow> decode_fields ms h
     | Some f \<Rightarrow> Option.bind (decode_field f j h) (decode_fields ms)))"

text \<open>\<^verbatim>\<open>json.Unmarshal(body, &header)\<close>; \<open>None\<close> is an error.\<close>

definition unmarshal_header :: "bytes \<Rightarrow> PacketHeader \<Rightarrow> PacketHeader option" where
  "unmarshal_header body h = (case parse_json body of
     Some (JObj ms) \<Rightarrow> decode_fields ms h
   | Some JNull \<Rightarrow> Some h
   | _ \<Rightarrow> None)"


subsection \<open>Plain ASCII keys and literals\<close>

definition plain :: "bytes \<Rightarrow> bool" where
  "plain s \<longleftrightarrow> list_all html_safe s"

lemma enc_string_plain: "plain s \<Longrightarrow> enc_string s = s"
  by (induction s) (auto simp: plain_def enc_string_ascii enc_ascii_def html_safe_def)

lemma utf8_repair_plain: "plain s \<Longrightarrow> utf8_repair s = s"
  by (induction s) (auto simp: plain_def utf8_repair_ascii html_safe_def)

lemma unquote_plain: "plain s \<Longrightarrow> unquote s = Some s"
  using unquote_enc_string [of s] by (simp add: enc_string_plain utf8_repair_plain)

lemma scan_raw_plain: "plain s \<Longrightarrow> scan_raw (s @ [DQUOTE]) = Some (s, [])"
  using scan_raw_enc_string [of s "[]"] by (simp add: enc_string_plain)

lemma dec_int_plain: "plain (dec_int w)"
proof -
  have "html_safe c" if "is_digit c" for c using that by (auto simp: html_safe_def is_digit_def)
  then have "list_all html_safe (dec_nat n)" for n using dec_nat_digits [of n] by (simp add: list_all_iff)
  moreover have "html_safe (CHR ''-'')" by (simp add: html_safe_def)
  ultimately show ?thesis by (simp add: plain_def dec_int_def)
qed

lemma plain_fields: "k \<in> set header_fields \<Longrightarrow> plain k"
  by (auto simp: header_fields_def plain_def html_safe_def)

lemma match_field_exact: "k \<in> set names \<Longrightarrow> match_field names k = Some k"
  by (simp add: match_field_def)

lemma decode_fields_known:
  "k \<in> set header_fields \<Longrightarrow> decode_fields ((k, j) # ms) h = Option.bind (decode_field k j h) (decode_fields ms)"
  by (simp add: unquote_plain plain_fields match_field_exact)

declare decode_fields.simps(2) [simp del]

lemma decode_fields_append:
  "decode_fields (ms @ ns) h = Option.bind (decode_fields ms h) (decode_fields ns)"
  by (induction ms arbitrary: h)
     (auto simp: decode_fields.simps(2) split: option.split Option.bind_split)

subsection \<open>A written header is read back\<close>

text \<open>The header as the reader sees it: text fields with their invalid bytes replaced.\<close>

definition repair_header :: "PacketHeader \<Rightarrow> PacketHeader" where
  "repair_header h = h\<lparr>hAction := utf8_repair (hAction h), hError := utf8_repair (hError h),
     hErrorCode := utf8_repair (hErrorCode h), hTicket := utf8_repair (hTicket h),
     hIdentifyingToken := utf8_repair (hIdentifyingToken h)\<rparr>"

lemma envelope_roundtrip:
  "envelope_MarshalJSON e = Inr q \<Longrightarrow> wf_json (json_literal q) \<and> ok_of (envelope_UnmarshalJSON (print_json (json_literal q))) = Some e"
  by (cases e) (auto simp: quoted_def json_literal_def print_json_def envelope_UnmarshalJSON_def ok_of_def
      intro!: scan_raw_plain simp: plain_def html_safe_def)

lemma messageType_roundtrip:
  "messageType_MarshalJSON m = Inr q \<Longrightarrow> wf_json (json_literal q) \<and> ok_of (messageType_UnmarshalJSON (print_json (json_literal q))) = Some m"
  by (cases m) (auto simp: quoted_def json_literal_def print_json_def messageType_UnmarshalJSON_def ok_of_def
      intro!: scan_raw_plain simp: plain_def html_safe_def)

lemma flexInt_json_int: "flexInt_UnmarshalJSON (json_int w) = Inr w"
  by (simp add: flexInt_UnmarshalJSON_def json_int_def)

lemma decode_omitempty_error:
  "hError h = [] \<Longrightarrow> decode_fields (omitempty ''error'' s) h = Some (h\<lparr>hError := utf8_repair s\<rparr>)"
  by (simp add: omitempty_def decode_fields_known header_fields_def decode_field_def)

lemma decode_omitempty_error_code:
  "hErrorCode h = [] \<Longrightarrow> decode_fields (omitempty ''error_code'' s) h = Some (h\<lparr>hErrorCode := utf8_repair s\<rparr>)"
  by (simp add: omitempty_def decode_fields_known header_fields_def decode_field_def)

lemma header_json_InrE:
  assumes "header_json h = Inr j"
  obtains env tp where "envelope_MarshalJSON (hEnvelope h) = Inr env"
    "messageType_MarshalJSON (hMessageType h) = Inr tp" "j = JObj (header_members env tp h)"
  using assms by (auto simp: header_json_def split: sum.splits)

lemma json_depth_scalar [simp]:
  "json_depth (json_string s) = 0" "json_depth (json_int w) = 0" "json_depth (json_literal l) = 0"
  by (simp_all add: json_string_def json_int_def json_literal_def)

lemma header_members_wf:
  assumes "wf_json (json_literal env)" "wf_json (json_literal tp)"
  shows "\<forall>(k, j)\<in>set (header_members env tp h). k \<in> set header_fields \<and> wf_json j \<and> json_depth j = 0"
  using assms by (simp add: header_members_def header_fields_def omitempty_def)

lemma header_json_wf:
  assumes "header_json h = Inr j"
  shows "wf_json j \<and> json_depth j \<le> 1"
proof -
  from assms obtain env tp where q: "envelope_MarshalJSON (hEnvelope h) = Inr env"
    "messageType_MarshalJSON (hMessageType h) = Inr tp" and j: "j = JObj (header_members env tp h)"
    by (rule header_json_InrE)
  have m: "\<forall>(k, j)\<in>set (header_members env tp h). k \<in> set header_fields \<and> wf_json j \<and> json_depth j = 0"
    using envelope_roundtrip [OF q(1)] messageType_roundtrip [OF q(2)] by (intro header_members_wf) auto
  then have "wf_json j" by (auto simp: j scan_raw_plain plain_fields)
  moreover from m have "(\<lambda>(k, j). json_depth j) ` set (header_members env tp h) \<subseteq> {0}" by auto
  then have "Max (insert 0 ((\<lambda>(k, j). json_depth j) ` set (header_members env tp h))) = 0"
    by (intro Max_eqI) auto
  then have "json_depth j \<le> 1" by (simp add: j)
  ultimately show ?thesis by simp
qed

lemma header_roundtrip:
  assumes "header_json h = Inr j"
  shows "unmarshal_header (print_json j @ [LF]) zeroHeader = Some (repair_header h)"
proof -
  from assms obtain env tp where q: "envelope_MarshalJSON (hEnvelope h) = Inr env"
    "messageType_MarshalJSON (hMessageType h) = Inr tp" and j: "j = JObj (header_members env tp h)"
    by (rule header_json_InrE)
  have "parse_json (print_json j @ [LF]) = Some j"
    using header_json_wf [OF assms] by (intro parse_print_json) (auto simp: maxNestingDepth_def is_json_space_def)
  moreover have "decode_fields (header_members env tp h) zeroHeader = Some (repair_header h)"
    using envelope_roundtrip [OF q(1)] messageType_roundtrip [OF q(2)] unfolding header_members_def
    by (simp add: decode_fields_append decode_fields_known header_fields_def decode_field_def
        decode_omitempty_error decode_omitempty_error_code flexInt_json_int ok_of_def
        zeroHeader_def repair_header_def del: append.simps)
  ultimately show ?thesis by (simp add: unmarshal_header_def j)
qed

lemma PacketHeader_Write_buffer:
  "PacketHeader_Write Buffer_Write h buf = (case header_json h of
     Inl e \<Rightarrow> (Some e, buf) | Inr j \<Rightarrow> (None, buf @ print_json j @ [LF]))"
  by (simp add: PacketHeader_Write_def Buffer_Write_def split: sum.split)

lemma header_json_Inr_iff:
  "(\<exists>j. header_json h = Inr j) \<longleftrightarrow>
     hEnvelope h \<in> {EnvelopeJSON, EnvelopeJSONSTORE} \<and> hMessageType h \<in> {MessageTypeRequest, MessageTypeReply}"
  by (cases "hEnvelope h"; cases "hMessageType h") (simp_all add: header_json_def)

subsection \<open>Properties\<close>

text \<open>
  C24. A header is written exactly when its envelope format and its message type have a name; the text
  written is then decoded into the same header (invalid UTF-8 in its text fields replaced), and
  otherwise an error is returned and nothing is written.
\<close>

theorem header_write_read:
  "if hEnvelope h \<in> {EnvelopeJSON, EnvelopeJSONSTORE} \<and> hMessageType h \<in> {MessageTypeRequest, MessageTypeReply}
   then \<exists>t. PacketHeader_Write Buffer_Write h buf = (None, buf @ t)
     \<and> unmarshal_header t zeroHeader = Some (repair_header h)
   else \<exists>e. PacketHeader_Write Buffer_Write h buf = (Some e, buf)"
proof (cases "header_json h")
  case (Inl e)
  then show ?thesis using header_json_Inr_iff [of h] by (auto simp: PacketHeader_Write_buffer)
next
  case (Inr j)
  then show ?thesis using header_json_Inr_iff [of h] header_roundtrip [OF Inr]
    by (auto simp: PacketHeader_Write_buffer)
qed

text \<open>
  \<^verbatim>\<open>flexInt\<close> reads an integer that is written as a number and one that is written as a string of its
  decimal digits alike, and refuses \<^verbatim>\<open>null\<close>.
\<close>

lemma flexInt_lenient:
  "flexInt_UnmarshalJSON (json_int w) = Inr w \<and> flexInt_UnmarshalJSON (json_string (dec_int w)) = Inr w
   \<and> (\<exists>e. flexInt_UnmarshalJSON JNull = Inl e)"
proof -
  have "parse_int [] = None" by (simp add: parse_int_def)
  then show ?thesis using utf8_repair_plain [OF dec_int_plain [of w]]
    by (simp add: flexInt_json_int) (simp add: flexInt_UnmarshalJSON_def)
qed

end
