(* ===== verification/Packet.thy ===== *)
theory Packet
  imports PacketHeader
begin

text \<open>
  Packets (\<^verbatim>\<open>scamp/packet.go\<close>): reading one packet from a stream, writing one, the frame that is
  written as a specification, and the two facts the connection rests on: a written packet is read
  back and nothing of what follows it is consumed, and reading always makes progress.
\<close>

datatype PacketType = HEADER | DATA | EOF | TXERR | ACK | UnknownType goint

record Packet =
  packetType :: PacketType
  msgNo :: uint64
  packetHeader :: PacketHeader
  body :: bytes

datatype read_error =
    ReadlineError gerror
  | HeaderMustHave3Parts
  | SscanfError
  | UnknownPacketType bytes
  | FailedToReadBody gerror
  | MissingTrailingBytes
  | ParseHeaderError

definition headerBytes :: bytes where "headerBytes = ''HEADER''"
definition dataBytes :: bytes where "dataBytes = ''DATA''"
definition eofBytes :: bytes where "eofBytes = ''EOF''"
definition txerrBytes :: bytes where "txerrBytes = ''TXERR''"
definition ackBytesName :: bytes where "ackBytesName = ''ACK''"
definition theRestBytes :: bytes where "theRestBytes = ''END'' @ [CR, LF]"
definition theRestSize :: nat where "theRestSize = 5"

lemmas packet_names = headerBytes_def dataBytes_def eofBytes_def txerrBytes_def ackBytesName_def theRestBytes_def
  theRestSize_def

text \<open>\<^verbatim>\<open>make([]byte, n)\<close> panics for a negative length and beyond the address space (48 bits on amd64).\<close>

definition maxAlloc :: nat where "maxAlloc = 2 ^ 48"

definition make_bytes_panics :: "goint \<Rightarrow> bool" where
  "make_bytes_panics n \<longleftrightarrow> sint n < 0 \<or> int maxAlloc < sint n"

subsection \<open>Reading\<close>

text \<open>The chain of \<^verbatim>\<open>bytes.Equal\<close> tests on the packet type.\<close>

definition packetTypeOf :: "bytes \<Rightarrow> PacketType option" where
  "packetTypeOf b =
     (if headerBytes = b then Some HEADER
      else if dataBytes = b then Some DATA
      else if eofBytes = b then Some EOF
      else if txerrBytes = b then Some TXERR
      else if ackBytesName = b then Some ACK
      else None)"

definition parseHeader :: "Packet \<Rightarrow> Packet option" where
  "parseHeader pkt = map_option (\<lambda>h. pkt\<lparr>packetHeader := h\<rparr>) (unmarshal_header (body pkt) (packetHeader pkt))"

text \<open>
  The state is the reader and the counter \<^verbatim>\<open>packetSeenSinceBoot\<close>; the packet is a value of the sum
  \<open>read_error + Packet\<close>, and a panic of the allocation ends the call.
\<close>

definition ReadPacket :: "reader \<Rightarrow> goint \<Rightarrow> (reader \<times> goint \<times> (read_error + Packet)) go" where
  "ReadPacket rd seen = (case ReadLine rd of
     (Inl e, rd1) \<Rightarrow> Ret (rd1, seen, Inl (ReadlineError e))
   | (Inr hdrBytes, rd1) \<Rightarrow> (case Sscanf_s_d_d hdrBytes of
       (hdrValsRead, scanFailed, pktTypeBytes, no, bodyBytesNeeded) \<Rightarrow>
         if hdrValsRead \<noteq> 3 then Ret (rd1, seen, Inl HeaderMustHave3Parts)
         else if scanFailed then Ret (rd1, seen, Inl SscanfError)
         else (case packetTypeOf pktTypeBytes of
             None \<Rightarrow> Ret (rd1, seen, Inl (UnknownPacketType pktTypeBytes))
           | Some pt \<Rightarrow>
               if make_bytes_panics bodyBytesNeeded then Panic ''makeslice: len out of range''
               else (case ReadFull (nat (sint bodyBytesNeeded)) rd1 of
                   ((Some e, _), rd2) \<Rightarrow> Ret (rd2, seen, Inl (FailedToReadBody e))
                 | ((None, b), rd2) \<Rightarrow> (case ReadFull theRestSize rd2 of
                     ((_, theRest), rd3) \<Rightarrow>
                       if length theRest \<noteq> theRestSize \<or> theRest \<noteq> theRestBytes
                       then Ret (rd3, seen, Inl MissingTrailingBytes)
                       else (let pkt = \<lparr>packetType = pt, msgNo = no, packetHeader = zeroHeader, body = b\<rparr> in
                         if pt = HEADER then
                           (case parseHeader pkt of
                              None \<Rightarrow> Ret (rd3, seen, Inl ParseHeaderError)
                            | Some pkt' \<Rightarrow> Ret (rd3, seen + 1, Inr (pkt'\<lparr>body := []\<rparr>)))
                         else Ret (rd3, seen + 1, Inr pkt)))))))"

subsection \<open>Writing\<close>

fun packetTypeBytes :: "PacketType \<Rightarrow> gerror + bytes" where
  "packetTypeBytes HEADER = Inr headerBytes"
| "packetTypeBytes DATA = Inr dataBytes"
| "packetTypeBytes EOF = Inr eofBytes"
| "packetTypeBytes TXERR = Inr txerrBytes"
| "packetTypeBytes ACK = Inr ackBytesName"
| "packetTypeBytes (UnknownType i) = Inl (''unknown packetType `'' @ dec_int i @ ''`'')"

text \<open>\<^verbatim>\<open>Fprintf(writer, "%s %d %d\r\n", ...)\<close> formats first and then writes once.\<close>

definition header_line :: "bytes \<Rightarrow> uint64 \<Rightarrow> nat \<Rightarrow> bytes" where
  "header_line t no n = t @ SP # dec_uint no @ SP # dec_nat n @ [CR, LF]"

text \<open>The body buffer: the encoded header of a \<^verbatim>\<open>HEADER\<close> packet, the bytes of any other.\<close>

definition packet_body :: "Packet \<Rightarrow> gerror option \<times> bytes" where
  "packet_body pkt =
     (if packetType pkt = HEADER then PacketHeader_Write Buffer_Write (packetHeader pkt) []
      else (None, snd (Buffer_Write (body pkt) [])))"

definition header_err :: "gerror \<Rightarrow> gerror" where
  "header_err e = ''err writing packet header: '' @ e"

definition Packet_Write :: "'w io_write \<Rightarrow> Packet \<Rightarrow> 'w \<Rightarrow> (nat \<times> gerror option) \<times> 'w" where
  "Packet_Write wr pkt w = (case packetTypeBytes (packetType pkt) of
     Inl e \<Rightarrow> ((0, Some e), w)
   | Inr tb \<Rightarrow> (case packet_body pkt of
       (Some e, _) \<Rightarrow> ((0, Some (header_err e)), w)
     | (None, bodyBytes) \<Rightarrow>
         (case wr (header_line tb (msgNo pkt) (length bodyBytes)) w of
            ((n1, Some e), w1) \<Rightarrow> ((n1, Some (header_err e)), w1)
          | ((n1, None), w1) \<Rightarrow> (case wr bodyBytes w1 of
              ((n2, Some e), w2) \<Rightarrow> ((n1 + n2, Some e), w2)
            | ((n2, None), w2) \<Rightarrow> (case wr theRestBytes w2 of
                ((n3, e), w3) \<Rightarrow> ((n1 + n2 + n3, e), w3))))))"

subsection \<open>The frame of a packet\<close>

definition packet_frame :: "Packet \<Rightarrow> gerror + bytes" where
  "packet_frame pkt = (case packetTypeBytes (packetType pkt) of
     Inl e \<Rightarrow> Inl e
   | Inr tb \<Rightarrow> (case packet_body pkt of
       (Some e, _) \<Rightarrow> Inl (header_err e)
     | (None, b) \<Rightarrow> Inr (header_line tb (msgNo pkt) (length b) @ b @ theRestBytes)))"

context io_writer
begin

text \<open>Without an error the frame is written, whole, and its length is returned.\<close>

lemma Packet_Write_ok:
  assumes "Packet_Write wr pkt w = ((n, None), w')"
  shows "\<exists>f. packet_frame pkt = Inr f \<and> n = length f \<and> contents w' = contents w @ f"
  using assms
  by (auto simp: Packet_Write_def packet_frame_def split: sum.splits prod.splits option.splits
      dest!: write_all)

text \<open>With an error, what was written is a prefix of the frame (nothing, if there is no frame).\<close>

lemma Packet_Write_error:
  assumes "Packet_Write wr pkt w = ((n, Some e), w')"
  shows "(packet_frame pkt = Inl e \<and> n = 0 \<and> w' = w)
    \<or> (\<exists>f. packet_frame pkt = Inr f \<and> n \<le> length f \<and> contents w' = contents w @ take n f)"
proof (cases "packet_frame pkt")
  case (Inl e')
  with assms show ?thesis
    by (auto simp: Packet_Write_def packet_frame_def split: sum.splits prod.splits option.splits)
next
  case (Inr f)
  then obtain tb b where tb: "packetTypeBytes (packetType pkt) = Inr tb" and b: "packet_body pkt = (None, b)"
    and f: "f = header_line tb (msgNo pkt) (length b) @ b @ theRestBytes"
    by (auto simp: packet_frame_def split: sum.splits prod.splits option.splits)
  let ?h = "header_line tb (msgNo pkt) (length b)"
  obtain n1 e1 w1 where 1: "wr ?h w = ((n1, e1), w1)" by (metis prod.exhaust)
  obtain n2 e2 w2 where 2: "wr b w1 = ((n2, e2), w2)" by (metis prod.exhaust)
  obtain n3 e3 w3 where 3: "wr theRestBytes w2 = ((n3, e3), w3)" by (metis prod.exhaust)
  have c: "contents w1 = contents w @ take n1 ?h" "n1 \<le> length ?h" "contents w2 = contents w1 @ take n2 b" "n2 \<le> length b"
    "contents w3 = contents w2 @ take n3 theRestBytes" "n3 \<le> length theRestBytes"
    using write_contents [OF 1] write_count [OF 1] write_contents [OF 2] write_count [OF 2]
      write_contents [OF 3] write_count [OF 3] by auto
  have "e1 = None \<Longrightarrow> n1 = length ?h" "e2 = None \<Longrightarrow> n2 = length b"
    using write_short 1 2 by blast+
  with assms 1 2 3 tb b c f show ?thesis
    by (auto simp: Packet_Write_def Inr split: option.splits)
qed

end

context sticky_writer
begin

text \<open>A writer that has failed before takes nothing of a packet and returns its error again.\<close>

lemma Packet_Write_failed:
  assumes "failed w = Some e" and "packet_frame pkt = Inr f"
  shows "Packet_Write wr pkt w = ((0, Some (header_err e)), w)"
  using assms
  by (auto simp: Packet_Write_def packet_frame_def stays_failed split: sum.splits prod.splits option.splits)

end

subsection \<open>A written packet is read back\<close>

text \<open>What the peer sees of a packet: a header packet loses its body, any other packet its header.\<close>

definition received :: "Packet \<Rightarrow> Packet" where
  "received pkt =
     (if packetType pkt = HEADER
      then pkt\<lparr>packetHeader := repair_header (packetHeader pkt), body := []\<rparr>
      else pkt\<lparr>packetHeader := zeroHeader\<rparr>)"

lemma packet_body_eq:
  "packet_body pkt =
     (if packetType pkt = HEADER
      then (case header_json (packetHeader pkt) of Inl e \<Rightarrow> (Some e, []) | Inr j \<Rightarrow> (None, print_json j @ [LF]))
      else (None, body pkt))"
  by (auto simp: packet_body_def PacketHeader_Write_def Buffer_Write_def split: sum.splits)

lemma packet_frame_InrE:
  assumes "packet_frame pkt = Inr f"
  obtains tb b where "packetTypeBytes (packetType pkt) = Inr tb" "packet_body pkt = (None, b)"
    "f = header_line tb (msgNo pkt) (length b) @ b @ theRestBytes"
  using assms by (auto simp: packet_frame_def split: sum.splits prod.splits option.splits)

lemma packetTypeBytes_inverse:
  "packetTypeBytes pt = Inr tb \<Longrightarrow> packetTypeOf tb = Some pt \<and> list_all graphic tb \<and> tb \<noteq> [] \<and> length tb \<le> 6"
  by (cases pt; simp; hypsubst; simp add: packetTypeOf_def packet_names graphic_def)

lemma packetTypeOf_inverse: "packetTypeOf tb = Some pt \<Longrightarrow> packetTypeBytes pt = Inr tb"
  by (auto simp: packetTypeOf_def split: if_splits)

lemma dec_nat_set: "c \<in> set (dec_nat n) \<Longrightarrow> graphic c"
  using dec_nat_digits [of n] by (auto simp: list_all_iff intro: graphic_digit)

lemma ReadLine_header_line:
  assumes tb: "list_all graphic tb" "length tb \<le> 6" and n: "n < 2 ^ 63"
    and rd: "rd_data rd = header_line tb no n @ s"
  shows "ReadLine rd = (Inr (tb @ SP # dec_uint no @ SP # dec_nat n), rd\<lparr>rd_data := s\<rparr>)"
proof (rule ReadLine_crlf)
  let ?l = "tb @ SP # dec_uint no @ SP # dec_nat n"
  show "LF \<notin> set ?l"
    using tb dec_nat_set by (auto simp: list_all_iff dec_uint_def graphic_def dest!: dec_nat_set)
  have "unat no < 10 ^ 20" using unsigned_less [of no, where 'a = nat] by simp
  then have "length (dec_uint no) \<le> 20" unfolding dec_uint_def by (intro dec_nat_length) auto
  moreover have "length (dec_nat n) \<le> 20" using n by (intro dec_nat_length) auto
  ultimately show "length ?l + 1 < bufio_size" using tb(2) by (simp add: bufio_size_def)
  show "rd_data rd = ?l @ CR # LF # s" using rd by (simp add: header_line_def)
qed

lemma maxAlloc_int: "n \<le> maxAlloc \<Longrightarrow> n < 2 ^ 63 \<and> sint (of_nat n :: goint) = int n \<and> \<not> make_bytes_panics (of_nat n)"
proof -
  assume n: "n \<le> maxAlloc"
  then have "n < 2 ^ 63" by (simp add: maxAlloc_def)
  moreover from this have "sint (of_nat n :: goint) = int n"
    by (simp add: signed_of_nat signed_take_bit_int_eq_self)
  ultimately show ?thesis using n by (simp add: make_bytes_panics_def)
qed

lemma ReadPacket_frame:
  assumes frame: "packet_frame pkt = Inr f" and small: "length f \<le> maxAlloc" and rd: "rd_data rd = f @ s"
  shows "ReadPacket rd seen = Ret (rd\<lparr>rd_data := s\<rparr>, seen + 1, Inr (received pkt))"
proof -
  from frame obtain tb b where tb: "packetTypeBytes (packetType pkt) = Inr tb" and b: "packet_body pkt = (None, b)"
    and f: "f = header_line tb (msgNo pkt) (length b) @ b @ theRestBytes"
    by (rule packet_frame_InrE)
  note T = packetTypeBytes_inverse [OF tb]
  have len: "length b \<le> maxAlloc" using small by (simp add: f)
  note N = maxAlloc_int [OF len]
  have line: "ReadLine rd = (Inr (tb @ SP # dec_uint (msgNo pkt) @ SP # dec_nat (length b)),
      rd\<lparr>rd_data := b @ theRestBytes @ s\<rparr>)"
    using T N rd by (intro ReadLine_header_line) (auto simp: f)
  have scan: "Sscanf_s_d_d (tb @ SP # dec_uint (msgNo pkt) @ SP # dec_nat (length b))
      = (3, False, tb, msgNo pkt, of_nat (length b))"
    using T N by (intro Sscanf_s_d_d_printed) auto
  have bd: "ReadFull (length b) (rd\<lparr>rd_data := b @ theRestBytes @ s\<rparr>) = ((None, b), rd\<lparr>rd_data := theRestBytes @ s\<rparr>)"
    by (subst ReadFull_prefix [where p = b]) auto
  have rest: "ReadFull theRestSize (rd\<lparr>rd_data := theRestBytes @ s\<rparr>) = ((None, theRestBytes), rd\<lparr>rd_data := s\<rparr>)"
    by (subst ReadFull_prefix [where p = theRestBytes]) (auto simp: packet_names)
  have rest_len: "length theRestBytes = theRestSize" by (simp add: packet_names)
  show ?thesis
  proof (cases "packetType pkt = HEADER")
    case True
    with b obtain j where j: "header_json (packetHeader pkt) = Inr j" and bj: "b = print_json j @ [LF]"
      by (auto simp: packet_body_eq split: sum.splits)
    show ?thesis
      using True T N header_roundtrip [OF j]
      by (simp add: ReadPacket_def line scan bd rest rest_len parseHeader_def received_def bj [symmetric])
  next
    case False
    with b have bp: "body pkt = b" by (simp add: packet_body_eq)
    from False T N show ?thesis
      by (simp add: ReadPacket_def line scan bd rest rest_len received_def bp)
  qed
qed

subsection \<open>Reading makes progress\<close>

lemma ReadFull_drop: "ReadFull n rd = (r, rd') \<Longrightarrow> \<exists>m. rd' = rd\<lparr>rd_data := drop m (rd_data rd)\<rparr>"
  by (rule exI [of _ "if n \<le> length (rd_data rd) then n else length (rd_data rd)"])
     (auto simp: ReadFull_def split: if_splits)

lemma ReadPacket_line:
  assumes "ReadPacket rd seen = Ret (rd', seen', r)" and "ReadLine rd = (Inr l, rd1)"
  shows "\<exists>m. rd' = rd1\<lparr>rd_data := drop m (rd_data rd1)\<rparr>"
proof -
  have self: "\<exists>m. rd1 = rd1\<lparr>rd_data := drop m (rd_data rd1)\<rparr>" by (rule exI [of _ 0]) simp
  have step: "\<exists>m. rd3 = rd1\<lparr>rd_data := drop m (rd_data rd1)\<rparr>"
    if "ReadFull k rd1 = (x, rd2)" "ReadFull j rd2 = (y, rd3)" for x y rd2 rd3 k j
    using ReadFull_drop [OF that(1)] ReadFull_drop [OF that(2)] by auto
  show ?thesis using assms self
    by (auto simp: ReadPacket_def Let_def split: prod.splits if_splits option.splits dest: step ReadFull_drop)
qed

lemma ReadPacket_progress:
  assumes "ReadPacket rd seen = Ret (rd', seen', r)" and "\<nexists>e. r = Inl (ReadlineError e)"
  shows "\<exists>n. 0 < n \<and> n \<le> length (rd_data rd) \<and> rd' = rd\<lparr>rd_data := drop n (rd_data rd)\<rparr>"
proof -
  obtain l rd1 where line: "ReadLine rd = (Inr l, rd1)"
    using assms by (cases "ReadLine rd") (auto simp: ReadPacket_def split: sum.splits)
  from ReadLine_consumes [OF line] obtain n where n: "0 < n" "n \<le> length (rd_data rd)"
    and rd1: "rd1 = rd\<lparr>rd_data := drop n (rd_data rd)\<rparr>" by blast
  from ReadPacket_line [OF assms(1) line] rd1 obtain m where
    "rd' = rd\<lparr>rd_data := drop (m + n) (rd_data rd)\<rparr>" by auto
  moreover have "drop (m + n) (rd_data rd) = drop (min (m + n) (length (rd_data rd))) (rd_data rd)"
    by (simp add: min_def)
  ultimately show ?thesis using n by (intro exI [of _ "min (m + n) (length (rd_data rd))"]) auto
qed

subsection \<open>What a packet that was read looked like\<close>

lemma packetTypeOf_not_UnknownType: "packetTypeOf tb \<noteq> Some (UnknownType i)"
  by (simp add: packetTypeOf_def)

lemma ReadFull_None:
  "ReadFull n rd = ((None, b), rd') \<longleftrightarrow>
     n \<le> length (rd_data rd) \<and> b = take n (rd_data rd) \<and> rd' = rd\<lparr>rd_data := drop n (rd_data rd)\<rparr>"
  by (auto simp: ReadFull_def)

lemma ReadFull_theRest:
  assumes "ReadFull theRestSize rd = ((e, theRestBytes), rd')"
  shows "rd_data rd = theRestBytes @ rd_data rd'"
proof -
  have "length theRestBytes = theRestSize" by (simp add: packet_names)
  with assms have "theRestSize \<le> length (rd_data rd)"
    by (auto simp: ReadFull_def split: if_splits)
  with assms show ?thesis
    by (simp add: ReadFull_def) (metis append_take_drop_id reader.simps(1) reader.surjective reader.update_convs(1))
qed

lemma make_bytes_nat: "\<not> make_bytes_panics k \<Longrightarrow> of_nat (nat (sint k)) = k"
  by (simp add: make_bytes_panics_def)

lemma ReadPacket_InrE:
  assumes "ReadPacket rd seen = Ret (rd', seen', Inr pkt)"
  obtains line rd1 tb b where "ReadLine rd = (Inr line, rd1)"
    "Sscanf_s_d_d line = (3, False, tb, msgNo pkt, of_nat (length b))"
    "packetTypeOf tb = Some (packetType pkt)"
    "rd_data rd1 = b @ theRestBytes @ rd_data rd'" "seen' = seen + 1"
    "if packetType pkt = HEADER then unmarshal_header b zeroHeader = Some (packetHeader pkt) \<and> body pkt = []
     else body pkt = b \<and> packetHeader pkt = zeroHeader"
proof -
  from assms obtain line rd1 tb no k where
    line: "ReadLine rd = (Inr line, rd1)" and scan: "Sscanf_s_d_d line = (3, False, tb, no, k)"
    by (auto simp: ReadPacket_def split: prod.splits sum.splits if_splits)
  from assms line scan obtain pt where pt: "packetTypeOf tb = Some pt" and k: "\<not> make_bytes_panics k"
    by (auto simp: ReadPacket_def split: option.splits if_splits)
  from assms line scan pt k obtain b rd2 where b: "ReadFull (nat (sint k)) rd1 = ((None, b), rd2)"
    by (cases "ReadFull (nat (sint k)) rd1") (auto simp: ReadPacket_def split: option.splits)
  from assms line scan pt k b obtain e where rest: "ReadFull theRestSize rd2 = ((e, theRestBytes), rd')"
    by (cases "ReadFull theRestSize rd2")
       (auto simp: ReadPacket_def Let_def split: option.splits if_splits)
  let ?raw = "\<lparr>packetType = pt, msgNo = no, packetHeader = zeroHeader, body = b\<rparr>"
  have pkt: "if pt = HEADER then (\<exists>h. unmarshal_header b zeroHeader = Some h \<and> pkt = ?raw\<lparr>packetHeader := h, body := []\<rparr>)
      else pkt = ?raw" and seen: "seen' = seen + 1"
    using assms line scan pt k b rest
    by (auto simp: ReadPacket_def Let_def parseHeader_def split: option.splits if_splits)
  have "of_nat (length b) = k" "rd_data rd1 = b @ theRestBytes @ rd_data rd'"
    using b make_bytes_nat [OF k] ReadFull_theRest [OF rest] by (auto simp: ReadFull_None) (metis append_take_drop_id)
  moreover have "packetType pkt = pt" "msgNo pkt = no" using pkt by (auto split: if_splits)
  moreover have "if packetType pkt = HEADER then unmarshal_header b zeroHeader = Some (packetHeader pkt) \<and> body pkt = []
     else body pkt = b \<and> packetHeader pkt = zeroHeader"
    using pkt by (auto split: if_splits)
  ultimately show thesis
    using line scan pt seen by (intro that) auto
qed

lemma ReadPacket_panics_iff:
  "(\<exists>m. ReadPacket rd seen = Panic m) \<longleftrightarrow>
     (\<exists>line rd1 tb no k pt. ReadLine rd = (Inr line, rd1) \<and> Sscanf_s_d_d line = (3, False, tb, no, k)
        \<and> packetTypeOf tb = Some pt \<and> (sint k < 0 \<or> int maxAlloc < sint k))"
proof (cases "ReadLine rd")
  case (Pair r rd1)
  show ?thesis
  proof (cases r)
    case (Inl e)
    with Pair show ?thesis by (simp add: ReadPacket_def)
  next
    case (Inr line)
    obtain n f tb no k where scan: "Sscanf_s_d_d line = (n, f, tb, no, k)" by (metis prod.exhaust)
    with Sscanf_s_d_d_count [OF scan] Pair Inr show ?thesis
      by (auto simp: ReadPacket_def make_bytes_panics_def Let_def split: option.splits prod.splits if_splits)
  qed
qed

subsection \<open>Properties\<close>

text \<open>
  C15. A packet that \<^verbatim>\<open>Packet.Write\<close> wrote to the buffered writer of a connection without an error is
  read back by \<^verbatim>\<open>ReadPacket\<close>: the packet the peer gets is \<open>received pkt\<close> (text fields of a header
  with their invalid UTF-8 replaced, nothing else changed), the bytes that follow it stay unread,
  and the packet counter grows by one.
\<close>

theorem packet_write_read:
  assumes "Packet_Write bw_Write pkt w = ((n, None), w')" and "n \<le> maxAlloc"
  shows "\<exists>f. bw_contents w' = bw_contents w @ f \<and> length f = n
    \<and> (\<forall>rd s seen. rd_data rd = f @ s \<longrightarrow>
         ReadPacket rd seen = Ret (rd\<lparr>rd_data := s\<rparr>, seen + 1, Inr (received pkt)))"
  using bufw.Packet_Write_ok [OF assms(1)] assms(2) ReadPacket_frame by blast

text \<open>The writer of a fresh connection and a packet for the examples.\<close>

definition fresh_writer :: bufwriter where
  "fresh_writer = \<lparr>bw_buf = [], bw_err = None, bw_conn = \<lparr>nc_sent = [], nc_fail = None\<rparr>\<rparr>"

definition data_hi :: Packet where
  "data_hi = \<lparr>packetType = DATA, msgNo = 7, packetHeader = zeroHeader, body = ''hi''\<rparr>"

definition data_hi_frame :: bytes where
  "data_hi_frame = ''DATA 7 2'' @ [CR, LF] @ ''hiEND'' @ [CR, LF]"

lemma data_hi_frame_eq: "packet_frame data_hi = Inr data_hi_frame"
  by (simp add: packet_frame_def data_hi_def data_hi_frame_def packet_body_eq header_line_def packet_names
      dec_uint_def dec_nat.simps)

lemma data_hi_received: "received data_hi = data_hi"
  by (simp add: received_def data_hi_def)

lemma data_hi_write: "Packet_Write bw_Write data_hi fresh_writer = ((17, None), fresh_writer\<lparr>bw_buf := data_hi_frame\<rparr>)"
  by (simp add: Packet_Write_def data_hi_def data_hi_frame_def packet_body_eq header_line_def packet_names
      dec_uint_def dec_nat.simps fresh_writer_def bw_Write_def bw_loop.simps bufio_size_def)

theorem packet_write_read_witness:
  "ReadPacket \<lparr>rd_data = data_hi_frame @ ''ACK'', rd_err = ''EOF''\<rparr> 0
     = Ret (\<lparr>rd_data = ''ACK'', rd_err = ''EOF''\<rparr>, 1, Inr data_hi)"
proof -
  have "bw_contents fresh_writer = []" "bw_contents (fresh_writer\<lparr>bw_buf := data_hi_frame\<rparr>) = data_hi_frame"
    by (simp_all add: bw_contents_def fresh_writer_def)
  then show ?thesis
    using packet_write_read [OF data_hi_write] by (force simp: maxAlloc_def data_hi_received)
qed

text \<open>
  When \<^verbatim>\<open>Packet.Write\<close> returns an error, the writer has taken exactly a prefix of the packet's frame,
  of the length it returns (nothing when there is no frame: the type is unknown or the header cannot be
  marshalled), and a writer that has failed before takes nothing more.
\<close>

lemma packet_write_error:
  assumes "Packet_Write bw_Write pkt w = ((n, Some e), w')"
  shows "(packet_frame pkt = Inl e \<and> n = 0 \<and> w' = w)
    \<or> (\<exists>f. packet_frame pkt = Inr f \<and> n \<le> length f \<and> bw_contents w' = bw_contents w @ take n f
          \<and> (bw_err w \<noteq> None \<longrightarrow> n = 0 \<and> w' = w))"
proof (cases "bw_err w")
  case None
  then show ?thesis using bufw.Packet_Write_error [OF assms] by blast
next
  case (Some d)
  with bufw.Packet_Write_failed [OF Some] assms have "packet_frame pkt = Inr f \<Longrightarrow> n = 0 \<and> w' = w" for f by simp
  with bufw.Packet_Write_error [OF assms] show ?thesis by blast
qed

text \<open>
  C16. Reading is sound: when \<^verbatim>\<open>ReadPacket\<close> returns a packet, the input was a line with a known packet
  type, the message number of the packet and the length of a body, then exactly that body, then
  \<^verbatim>\<open>END\r\n\<close>, and nothing beyond it was consumed; the packet holds that body, or (for a header packet)
  what it decodes to.
\<close>

theorem read_packet_sound:
  assumes "ReadPacket rd seen = Ret (rd', seen', Inr pkt)"
  shows "\<exists>line rd1 tb b. ReadLine rd = (Inr line, rd1)
    \<and> Sscanf_s_d_d line = (3, False, tb, msgNo pkt, of_nat (length b))
    \<and> packetTypeOf tb = Some (packetType pkt)
    \<and> rd_data rd1 = b @ theRestBytes @ rd_data rd' \<and> seen' = seen + 1
    \<and> (if packetType pkt = HEADER then unmarshal_header b zeroHeader = Some (packetHeader pkt) \<and> body pkt = []
       else body pkt = b \<and> packetHeader pkt = zeroHeader)"
  using assms by (rule ReadPacket_InrE) blast

theorem read_packet_sound_witness:
  "\<exists>line rd1 tb b. ReadLine \<lparr>rd_data = data_hi_frame, rd_err = ''EOF''\<rparr> = (Inr line, rd1)
    \<and> Sscanf_s_d_d line = (3, False, tb, 7, of_nat (length b)) \<and> packetTypeOf tb = Some DATA
    \<and> rd_data rd1 = b @ theRestBytes \<and> b = ''hi''"
proof -
  have "ReadPacket \<lparr>rd_data = data_hi_frame, rd_err = ''EOF''\<rparr> 0 = Ret (\<lparr>rd_data = [], rd_err = ''EOF''\<rparr>, 1, Inr data_hi)"
    using ReadPacket_frame [OF data_hi_frame_eq, of _ "[]" 0] by (simp add: data_hi_received data_hi_frame_def maxAlloc_def)
  from read_packet_sound [OF this] show ?thesis by (auto simp: data_hi_def)
qed

text \<open>
  C23. \<^verbatim>\<open>ReadPacket\<close> panics exactly on a header line with a known packet type whose body length is
  negative or larger than an allocation can be: a peer can make the reader panic.
\<close>

theorem read_packet_panics:
  "(\<exists>m. ReadPacket rd seen = Panic m) \<longleftrightarrow>
     (\<exists>line rd1 tb no k pt. ReadLine rd = (Inr line, rd1) \<and> Sscanf_s_d_d line = (3, False, tb, no, k)
        \<and> packetTypeOf tb = Some pt \<and> (sint k < 0 \<or> int maxAlloc < sint k))"
  by (rule ReadPacket_panics_iff)

end
