(* ===== verification/Systems.thy ===== *)
theory Systems
  imports Main "HOL-Library.Sublist"
begin

text \<open>
  What the components that keep state share: they are transition systems with an invariant, and most of what a caller relies
  on over time is that some order between an earlier and a later state holds (what was delivered stays delivered, what is closed stays
  closed). A component states its steps as a relation and interprets one of the two locales; what holds
  after any number of steps is then proved here once.
\<close>

locale invariant_system =
  fixes start :: "'s \<Rightarrow> bool" and step :: "'s \<Rightarrow> 's \<Rightarrow> bool" and inv :: "'s \<Rightarrow> bool"
  assumes start_inv: "start s \<Longrightarrow> inv s"
    and step_inv: "inv s \<Longrightarrow> step s t \<Longrightarrow> inv t"
begin

lemma steps_inv: "step\<^sup>*\<^sup>* s t \<Longrightarrow> inv s \<Longrightarrow> inv t"
  by (induction rule: rtranclp_induct) (auto intro: step_inv)

lemma reach_inv: "start s \<Longrightarrow> step\<^sup>*\<^sup>* s t \<Longrightarrow> inv t"
  using start_inv steps_inv by blast

end

locale monotone_system = invariant_system +
  fixes le :: "'a \<Rightarrow> 'a \<Rightarrow> bool"
  assumes le_refl: "le s s" and le_trans: "le s t \<Longrightarrow> le t u \<Longrightarrow> le s u"
    and step_le: "inv s \<Longrightarrow> step s t \<Longrightarrow> le s t"
begin

lemma steps_le: "step\<^sup>*\<^sup>* s t \<Longrightarrow> inv s \<Longrightarrow> le s t"
proof (induction rule: rtranclp_induct)
  case (step t u)
  then have "inv t" by (blast intro: steps_inv)
  with step show ?case by (blast intro: step_le le_trans)
qed (rule le_refl)

text \<open>What holds in a reachable state of all that is at least as late in the order holds for ever after.\<close>

lemma stable:
  assumes "\<And>t u. P t \<Longrightarrow> le t u \<Longrightarrow> P u"
  shows "step\<^sup>*\<^sup>* s t \<Longrightarrow> inv s \<Longrightarrow> P s \<Longrightarrow> P t"
  using assms steps_le by blast

end

end
