(* ===== verification/Message.thy ===== *)
theory Message
  imports Packet Systems
begin

text \<open>
  Messages (\<^verbatim>\<open>scamp/message.go\<close>): the message with its data packets, its setters, writing a payload
  (plain, or JSON cut into chunks), the packets of a message, and its bytes. The invariant is that
  \<^verbatim>\<open>bytesWritten\<close> counts the payload and that every stored packet is a \<^verbatim>\<open>DATA\<close> packet.
\<close>

record Message =
  mAction :: bytes
  mEnvelope :: envelopeFormat
  mRequestID :: goint
  mClientID :: goint
  mVersion :: goint
  mMessageType :: messageType
  packets :: "Packet list"
  bytesWritten :: uint64
  mTicket :: bytes
  mIdentifyingToken :: bytes
  mError :: bytes
  mErrorCode :: bytes

subsection \<open>Constructors and accessors\<close>

definition NewMessage :: Message where
  "NewMessage = \<lparr>mAction = [], mEnvelope = EnvelopeJSON, mRequestID = 0, mClientID = 0, mVersion = 0,
     mMessageType = MessageTypeUnset, packets = [], bytesWritten = 0, mTicket = [], mIdentifyingToken = [],
     mError = [], mErrorCode = []\<rparr>"

declare NewMessage_def [zero_values]

definition SetAction :: "bytes \<Rightarrow> Message \<Rightarrow> Message" where "SetAction action msg = msg\<lparr>mAction := action\<rparr>"
definition SetEnvelope :: "envelopeFormat \<Rightarrow> Message \<Rightarrow> Message" where "SetEnvelope env msg = msg\<lparr>mEnvelope := env\<rparr>"
definition SetVersion :: "goint \<Rightarrow> Message \<Rightarrow> Message" where "SetVersion version msg = msg\<lparr>mVersion := version\<rparr>"
definition SetMessageType :: "messageType \<Rightarrow> Message \<Rightarrow> Message" where "SetMessageType mtype msg = msg\<lparr>mMessageType := mtype\<rparr>"
definition SetRequestID :: "goint \<Rightarrow> Message \<Rightarrow> Message" where "SetRequestID requestID msg = msg\<lparr>mRequestID := requestID\<rparr>"
definition SetClientID :: "goint \<Rightarrow> Message \<Rightarrow> Message" where "SetClientID clientID msg = msg\<lparr>mClientID := clientID\<rparr>"
definition SetTicket :: "bytes \<Rightarrow> Message \<Rightarrow> Message" where "SetTicket ticket msg = msg\<lparr>mTicket := ticket\<rparr>"
definition SetIdentifyingToken :: "bytes \<Rightarrow> Message \<Rightarrow> Message" where
  "SetIdentifyingToken token msg = msg\<lparr>mIdentifyingToken := token\<rparr>"
definition SetError :: "bytes \<Rightarrow> Message \<Rightarrow> Message" where "SetError err msg = msg\<lparr>mError := err\<rparr>"
definition SetErrorCode :: "bytes \<Rightarrow> Message \<Rightarrow> Message" where "SetErrorCode errCode msg = msg\<lparr>mErrorCode := errCode\<rparr>"

definition GetError :: "Message \<Rightarrow> bytes" where "GetError msg = mError msg"
definition GetErrorCode :: "Message \<Rightarrow> bytes" where "GetErrorCode msg = mErrorCode msg"
definition GetClientID :: "Message \<Rightarrow> goint" where "GetClientID msg = mClientID msg"
definition GetTicket :: "Message \<Rightarrow> bytes" where "GetTicket msg = mTicket msg"
definition GetIdentifyingToken :: "Message \<Rightarrow> bytes" where "GetIdentifyingToken msg = mIdentifyingToken msg"
definition BytesWritten :: "Message \<Rightarrow> uint64" where "BytesWritten msg = bytesWritten msg"

definition NewRequestMessage :: Message where "NewRequestMessage = SetMessageType MessageTypeRequest NewMessage"
definition NewResponseMessage :: Message where "NewResponseMessage = SetMessageType MessageTypeReply NewMessage"

lemmas message_setters = SetAction_def SetEnvelope_def SetVersion_def SetMessageType_def SetRequestID_def
  SetClientID_def SetTicket_def SetIdentifyingToken_def SetError_def SetErrorCode_def

lemmas message_getters = GetError_def GetErrorCode_def GetClientID_def GetTicket_def GetIdentifyingToken_def
  BytesWritten_def

subsection \<open>Writing the payload\<close>

text \<open>\<^verbatim>\<open>&Packet{packetType: DATA, body: b}\<close>.\<close>

definition data_packet :: "bytes \<Rightarrow> Packet" where
  "data_packet b = \<lparr>packetType = DATA, msgNo = 0, packetHeader = zeroHeader, body = b\<rparr>"

definition Message_Write :: "bytes \<Rightarrow> Message \<Rightarrow> (nat \<times> gerror option) \<times> Message" where
  "Message_Write blob msg =
     ((length blob, None),
      msg\<lparr>bytesWritten := bytesWritten msg + of_nat (length blob), packets := packets msg @ [data_packet blob]\<rparr>)"

definition msgChunkSize :: nat where "msgChunkSize = 128 * 1024"

text \<open>The loop of \<^verbatim>\<open>WriteJSON\<close>, which appends to the packets of the message.\<close>

function chunk_loop :: "bytes \<Rightarrow> Packet list \<Rightarrow> Packet list" where
  "chunk_loop slc ps =
     (if length slc < msgChunkSize then ps @ [data_packet slc]
      else chunk_loop (drop msgChunkSize slc) (ps @ [data_packet (take msgChunkSize slc)]))"
  by pat_completeness auto
termination
  by (relation "measure (\<lambda>(slc, ps). length slc)") (auto simp: msgChunkSize_def)

declare chunk_loop.simps [simp del]

text \<open>
  The argument is what the JSON encoder makes of the payload: an error of marshalling, or a value
  whose text it writes followed by a newline. The count returned is the named result \<^verbatim>\<open>n\<close>, which the
  code never sets.
\<close>

definition WriteJSON :: "gerror + json \<Rightarrow> Message \<Rightarrow> (nat \<times> gerror option) \<times> Message" where
  "WriteJSON data msg = (case data of
     Inl e \<Rightarrow> ((0, Some e), msg)
   | Inr j \<Rightarrow>
       (let buf = print_json j @ [LF];
            msg1 = msg\<lparr>bytesWritten := bytesWritten msg + of_nat (length buf)\<rparr>
        in ((0, None),
            if length buf > msgChunkSize then msg1\<lparr>packets := chunk_loop buf (packets msg1)\<rparr>
            else msg1\<lparr>packets := packets msg1 @ [data_packet buf]\<rparr>)))"

definition Message_Bytes :: "Message \<Rightarrow> bytes" where
  "Message_Bytes msg = foldl (\<lambda>buf pkt. snd (Buffer_Write (body pkt) buf)) [] (packets msg)"

subsection \<open>The packets of a message\<close>

definition header_of :: "Message \<Rightarrow> PacketHeader" where
  "header_of msg = \<lparr>hAction = mAction msg, hEnvelope = mEnvelope msg, hError = mError msg, hErrorCode = mErrorCode msg,
     hRequestID = mRequestID msg, hClientID = mClientID msg, hTicket = GetTicket msg,
     hIdentifyingToken = GetIdentifyingToken msg, hMessageType = mMessageType msg, hVersion = mVersion msg\<rparr>"

definition header_packet :: "uint64 \<Rightarrow> Message \<Rightarrow> Packet" where
  "header_packet no msg = \<lparr>packetType = HEADER, msgNo = no, packetHeader = header_of msg, body = []\<rparr>"

definition eof_packet :: "uint64 \<Rightarrow> Packet" where
  "eof_packet no = \<lparr>packetType = EOF, msgNo = no, packetHeader = zeroHeader, body = []\<rparr>"

text \<open>
  The packets of the message are shared with the result: the loop stamps the message number into
  them, so the message is returned updated.
\<close>

definition toPackets :: "uint64 \<Rightarrow> Message \<Rightarrow> Packet list \<times> Message" where
  "toPackets no msg =
     (let dataPackets = map (\<lambda>pkt. pkt\<lparr>msgNo := no\<rparr>) (packets msg)
      in ([header_packet no msg] @ dataPackets @ [eof_packet no], msg\<lparr>packets := dataPackets\<rparr>))"

subsection \<open>Lemmas\<close>

lemma Message_Bytes_eq: "Message_Bytes msg = concat (map body (packets msg))"
proof -
  have "foldl (\<lambda>buf pkt. snd (Buffer_Write (body pkt) buf)) acc ps = acc @ concat (map body ps)" for acc and ps :: "Packet list"
    by (induction ps arbitrary: acc) (auto simp: Buffer_Write_def)
  then show ?thesis by (simp add: Message_Bytes_def)
qed

text \<open>The reference: cut the text every \<open>k\<close> bytes; the last piece is shorter than \<open>k\<close>.\<close>

fun cuts :: "nat \<Rightarrow> bytes \<Rightarrow> nat \<Rightarrow> bytes list" where
  "cuts k s 0 = [s]"
| "cuts k s (Suc n) = take k s # cuts k (drop k s) n"

lemma concat_cuts: "concat (cuts k s n) = s"
  by (induction n arbitrary: s) auto

lemma length_cuts: "length (cuts k s n) = Suc n"
  by (induction n arbitrary: s) auto

lemma cuts_bounded:
  "0 < k \<Longrightarrow> p \<in> set (cuts k s (length s div k)) \<Longrightarrow> length p \<le> k"
proof (induction "length s div k" arbitrary: s)
  case 0
  then have "length s < k" by (simp add: div_eq_0_iff)
  with 0 show ?case by simp
next
  case (Suc n)
  then have "k \<le> length s" using div_eq_0_iff [of "length s" k] by force
  then have n: "n = length (drop k s) div k" using Suc.hyps(2) Suc.prems(1) by (simp add: le_div_geq)
  from Suc.prems(2) have "p = take k s \<or> p \<in> set (cuts k (drop k s) n)" by (simp flip: Suc.hyps(2))
  with Suc.hyps(1) [OF n Suc.prems(1)] show ?case by (auto simp: n)
qed

lemma msgChunkSize_pos [simp]: "0 < msgChunkSize"
  by (simp add: msgChunkSize_def)

lemma chunk_loop_eq: "chunk_loop s ps = ps @ map data_packet (cuts msgChunkSize s (length s div msgChunkSize))"
proof (induction s ps rule: chunk_loop.induct)
  case (1 s ps)
  show ?case
  proof (cases "length s < msgChunkSize")
    case True
    then show ?thesis by (subst chunk_loop.simps) simp
  next
    case False
    then have "length s div msgChunkSize = Suc (length (drop msgChunkSize s) div msgChunkSize)"
      by (simp add: le_div_geq)
    with False 1 show ?thesis by (subst chunk_loop.simps) simp
  qed
qed

text \<open>The packets \<^verbatim>\<open>WriteJSON\<close> adds: one when the text fits, else one per full chunk and a rest.\<close>

definition json_chunks :: "bytes \<Rightarrow> bytes list" where
  "json_chunks s = (if length s > msgChunkSize then cuts msgChunkSize s (length s div msgChunkSize) else [s])"

lemma WriteJSON_eq:
  "WriteJSON (Inr j) msg = ((0, None), msg\<lparr>bytesWritten := bytesWritten msg + of_nat (length (print_json j @ [LF])),
     packets := packets msg @ map data_packet (json_chunks (print_json j @ [LF]))\<rparr>)"
  by (simp add: WriteJSON_def Let_def json_chunks_def chunk_loop_eq)

lemma json_chunks_concat: "concat (json_chunks s) = s"
  by (simp add: json_chunks_def concat_cuts)

lemma json_chunks_bounded: "p \<in> set (json_chunks s) \<Longrightarrow> length p \<le> msgChunkSize"
  using cuts_bounded [of msgChunkSize p s] by (auto simp: json_chunks_def split: if_splits)

lemma body_data_packet [simp]: "body (data_packet b) = b" "packetType (data_packet b) = DATA"
  by (simp_all add: data_packet_def)

subsection \<open>The invariant\<close>

definition message_ok :: "Message \<Rightarrow> bool" where
  "message_ok msg \<longleftrightarrow> bytesWritten msg = of_nat (length (Message_Bytes msg))
     \<and> (\<forall>p\<in>set (packets msg). packetType p = DATA)"

lemma message_ok_New [simp]: "message_ok NewMessage"
  by (simp add: message_ok_def NewMessage_def Message_Bytes_eq)

lemma message_ok_setters [simp]:
  "message_ok (SetAction a msg) = message_ok msg" "message_ok (SetEnvelope e msg) = message_ok msg"
  "message_ok (SetVersion v msg) = message_ok msg" "message_ok (SetMessageType t msg) = message_ok msg"
  "message_ok (SetRequestID r msg) = message_ok msg" "message_ok (SetClientID c msg) = message_ok msg"
  "message_ok (SetTicket k msg) = message_ok msg" "message_ok (SetIdentifyingToken i msg) = message_ok msg"
  "message_ok (SetError x msg) = message_ok msg" "message_ok (SetErrorCode y msg) = message_ok msg"
  by (simp_all add: message_ok_def message_setters Message_Bytes_eq)

lemma message_ok_Write: "message_ok msg \<Longrightarrow> message_ok (snd (Message_Write b msg))"
  by (auto simp: message_ok_def Message_Write_def Message_Bytes_eq)

lemma message_ok_WriteJSON: "message_ok msg \<Longrightarrow> message_ok (snd (WriteJSON d msg))"
proof (cases d)
  case (Inl e)
  then show "message_ok msg \<Longrightarrow> ?thesis" by (simp add: WriteJSON_def)
next
  case (Inr j)
  moreover have "concat (map (body \<circ> data_packet) (json_chunks s)) = s" for s
    using json_chunks_concat [of s] by (simp add: comp_def)
  ultimately show "message_ok msg \<Longrightarrow> ?thesis"
    by (auto simp: message_ok_def WriteJSON_eq Message_Bytes_eq)
qed

lemma message_ok_toPackets: "message_ok msg \<Longrightarrow> message_ok (snd (toPackets no msg))"
  by (auto simp: message_ok_def toPackets_def Let_def Message_Bytes_eq comp_def)

lemma toPackets_Bytes: "Message_Bytes (snd (toPackets no msg)) = Message_Bytes msg"
  by (simp add: toPackets_def Let_def Message_Bytes_eq comp_def)

text \<open>The steps of the operations of the package, and the messages they build.\<close>

inductive message_step :: "Message \<Rightarrow> Message \<Rightarrow> bool" where
  set: "set_op \<in> {SetAction a, SetEnvelope e, SetVersion v, SetMessageType t, SetRequestID r,
      SetClientID c, SetTicket k, SetIdentifyingToken i, SetError x, SetErrorCode y} \<Longrightarrow> message_step msg (set_op msg)"
| blob: "Message_Write b msg = (r, msg') \<Longrightarrow> message_step msg msg'"
| json: "WriteJSON d msg = (r, msg') \<Longrightarrow> message_step msg msg'"
| toPackets: "toPackets no msg = (ps, msg') \<Longrightarrow> message_step msg msg'"

definition message_built :: "Message \<Rightarrow> bool" where
  "message_built msg \<longleftrightarrow> message_step\<^sup>*\<^sup>* NewMessage msg"

definition payload_extends :: "Message \<Rightarrow> Message \<Rightarrow> bool" where
  "payload_extends msg msg' \<longleftrightarrow> prefix (Message_Bytes msg) (Message_Bytes msg')"

lemma message_ok_step:
  assumes "message_step msg msg'" and "message_ok msg"
  shows "message_ok msg'"
  using assms
proof (induction rule: message_step.induct)
  case (blob b msg r msg')
  then show ?case using message_ok_Write [of msg b] by simp
next
  case (json d msg r msg')
  then show ?case using message_ok_WriteJSON [of msg d] by simp
next
  case (toPackets no msg ps msg')
  then show ?case using message_ok_toPackets [of msg no] by simp
qed auto

lemma WriteJSON_Bytes: "prefix (Message_Bytes msg) (Message_Bytes (snd (WriteJSON d msg)))"
  by (cases d) (simp_all add: WriteJSON_eq Message_Bytes_eq, simp add: WriteJSON_def)

lemma payload_step: "message_step msg msg' \<Longrightarrow> payload_extends msg msg'"
proof (induction rule: message_step.induct)
  case (json d msg r msg')
  then show ?case using WriteJSON_Bytes [of msg d] by (simp add: payload_extends_def)
next
  case (toPackets no msg ps msg')
  then show ?case using toPackets_Bytes [of no msg] by (simp add: payload_extends_def)
qed (auto simp: payload_extends_def Message_Write_def Message_Bytes_eq message_setters)

interpretation building: monotone_system "\<lambda>msg. msg = NewMessage" message_step message_ok payload_extends
  by unfold_locales (use message_ok_step payload_step in \<open>auto simp: payload_extends_def dest: prefix_order.trans\<close>)

lemma message_built_ok: "message_built msg \<Longrightarrow> message_ok msg"
  unfolding message_built_def by (rule building.reach_inv) simp_all

lemma message_built_step: "message_built msg \<Longrightarrow> message_step msg msg' \<Longrightarrow> message_built msg'"
  unfolding message_built_def by (rule rtranclp.rtrancl_into_rtrancl)

subsection \<open>Properties\<close>

text \<open>
  C25. \<^verbatim>\<open>WriteJSON\<close> loses and invents nothing: the bytes of the message grow by exactly the encoded text,
  which is cut into \<^verbatim>\<open>DATA\<close> packets of at most \<^verbatim>\<open>msgChunkSize\<close> bytes, one more than the number of full
  chunks when the text is longer than a chunk; when the payload cannot be marshalled, nothing changes.
\<close>

theorem write_json_payload:
  "case WriteJSON data msg of ((n, err), msg') \<Rightarrow> (case data of
     Inl e \<Rightarrow> err = Some e \<and> msg' = msg
   | Inr j \<Rightarrow> (let text = print_json j @ [LF]; new = drop (length (packets msg)) (packets msg') in
       err = None \<and> packets msg' = packets msg @ new
       \<and> Message_Bytes msg' = Message_Bytes msg @ text
       \<and> bytesWritten msg' = bytesWritten msg + of_nat (length text)
       \<and> list_all (\<lambda>p. packetType p = DATA \<and> length (body p) \<le> msgChunkSize) new
       \<and> length new = (if length text > msgChunkSize then length text div msgChunkSize + 1 else 1)))"
proof (cases data)
  case (Inl e)
  then show ?thesis by (simp add: WriteJSON_def)
next
  case (Inr j)
  let ?t = "print_json j @ [LF]"
  have "concat (map (body \<circ> data_packet) (json_chunks ?t)) = ?t"
    using json_chunks_concat [of ?t] by (simp add: comp_def)
  moreover have "list_all (\<lambda>p. length p \<le> msgChunkSize) (json_chunks ?t)"
    using json_chunks_bounded by (auto simp: list_all_iff)
  moreover have "length (json_chunks ?t) = (if length ?t > msgChunkSize then length ?t div msgChunkSize + 1 else 1)"
    by (simp add: json_chunks_def length_cuts)
  ultimately show ?thesis
    by (simp add: Inr WriteJSON_eq Let_def Message_Bytes_eq list_all_iff)
qed

text \<open>
  C26. Whatever sequence of operations builds a message, its byte counter is the size of its payload
  (modulo 64 bits) and its packets are \<^verbatim>\<open>DATA\<close> packets; whatever is done to it afterwards, the payload is
  kept and only appended to.
\<close>

theorem message_invariant:
  assumes "message_built msg" and "message_step\<^sup>*\<^sup>* msg msg'"
  shows "BytesWritten msg = of_nat (length (Message_Bytes msg)) \<and> (\<forall>p\<in>set (packets msg). packetType p = DATA)
    \<and> prefix (Message_Bytes msg) (Message_Bytes msg')"
proof -
  have ok: "message_ok msg" by (rule message_built_ok [OF assms(1)])
  then have "payload_extends msg msg'" by (rule building.steps_le [OF assms(2)])
  with ok show ?thesis by (simp add: message_ok_def BytesWritten_def payload_extends_def)
qed

theorem message_invariant_witness:
  "BytesWritten (snd (Message_Write ''abc'' NewRequestMessage)) = 3"
proof -
  have "message_step NewMessage NewRequestMessage" unfolding NewRequestMessage_def by (rule message_step.set) blast
  moreover have "message_step NewRequestMessage (snd (Message_Write ''abc'' NewRequestMessage))"
    using message_step.blob [of "''abc''" NewRequestMessage] by (simp add: Message_Write_def)
  ultimately have "message_built (snd (Message_Write ''abc'' NewRequestMessage))"
    unfolding message_built_def by (intro rtranclp.rtrancl_into_rtrancl [OF r_into_rtranclp])
  from message_invariant [OF this rtranclp.rtrancl_refl] show ?thesis
    by (simp add: Message_Bytes_eq Message_Write_def NewRequestMessage_def zero_values message_setters)
qed

text \<open>
  The packets of a message are a header packet that carries every field of the message, its data
  packets in order and an end packet, all with the given message number; the payload is unchanged.
\<close>

lemma to_packets_shape:
  assumes "toPackets no msg = (ps, msg')"
  shows "hd ps = header_packet no msg \<and> last ps = eof_packet no \<and> butlast (tl ps) = packets msg'
    \<and> map body (packets msg') = map body (packets msg) \<and> map packetType (packets msg') = map packetType (packets msg)
    \<and> length ps = length (packets msg) + 2
    \<and> list_all (\<lambda>p. msgNo p = no) ps \<and> Message_Bytes msg' = Message_Bytes msg"
  using assms by (auto simp: toPackets_def Let_def Message_Bytes_eq comp_def list_all_iff header_packet_def eof_packet_def
      butlast_append)

end
