(* ===== verification/Connection.thy ===== *)
theory Connection
  imports Message
begin

text \<open>
  Connections (\<^verbatim>\<open>scamp/connection.go\<close>): sending a message over the buffered writer with its retry loop,
  reassembling messages from the packets that arrive (\<^verbatim>\<open>routePacket\<close>, \<^verbatim>\<open>ackBytes\<close>), the reader loop, and
  closing. The main fact is that the messages one side sends are the messages the other side
  delivers, in order.

  The channel \<^verbatim>\<open>msgs\<close> is the list of the messages put on it, in order, and whether it is closed.
  \<^verbatim>\<open>enableWriteTee\<close> is \<^verbatim>\<open>false\<close> and never set in the package, so the branches for the debugging tee are dead.
\<close>

record Connection =
  Fingerprint :: bytes
  conn_reader :: reader
  conn_writer :: bufwriter
  incomingmsgno :: uint64
  outgoingmsgno :: uint64
  pktToMsg :: "uint64 \<Rightarrow> Message option"
  msgs :: "Message list"
  msgs_closed :: bool
  isClosed :: bool

text \<open>
  The connection over a TLS connection that will deliver \<open>rd\<close> and takes what is written; the
  fingerprint is kept when the peer presented exactly one certificate.
\<close>

definition NewConnection :: "(bytes \<Rightarrow> bytes) \<Rightarrow> bytes list \<Rightarrow> reader \<Rightarrow> netconn \<Rightarrow> Connection" where
  "NewConnection sha1FingerPrint peerCerts rd nc =
     \<lparr>Fingerprint = (case peerCerts of [peerCert] \<Rightarrow> sha1FingerPrint peerCert | _ \<Rightarrow> []),
      conn_reader = rd, conn_writer = \<lparr>bw_buf = [], bw_err = None, bw_conn = nc\<rparr>,
      incomingmsgno = 0, outgoingmsgno = 0, pktToMsg = (\<lambda>_. None), msgs = [], msgs_closed = False,
      isClosed = False\<rparr>"

subsection \<open>Acknowledging and routing\<close>

definition ack_packet :: "uint64 \<Rightarrow> uint64 \<Rightarrow> Packet" where
  "ack_packet no unackedByteCount =
     \<lparr>packetType = ACK, msgNo = no, packetHeader = zeroHeader, body = dec_uint unackedByteCount\<rparr>"

definition ackBytes :: "uint64 \<Rightarrow> uint64 \<Rightarrow> Connection \<Rightarrow> gerror option \<times> Connection" where
  "ackBytes no unackedByteCount conn =
     (case Packet_Write bw_Write (ack_packet no unackedByteCount) (conn_writer conn) of
        ((_, Some e), w) \<Rightarrow> (Some e, conn\<lparr>conn_writer := w\<rparr>)
      | ((_, None), w) \<Rightarrow> (None, conn\<lparr>conn_writer := snd (bw_Flush w)\<rparr>))"

definition message_of_header :: "PacketHeader \<Rightarrow> Message" where
  "message_of_header h =
     (SetTicket (hTicket h) \<circ> SetErrorCode (hErrorCode h) \<circ> SetError (hError h) \<circ> SetClientID (hClientID h)
      \<circ> SetRequestID (hRequestID h) \<circ> SetMessageType (hMessageType h) \<circ> SetVersion (hVersion h)
      \<circ> SetEnvelope (hEnvelope h) \<circ> SetAction (hAction h)) NewMessage"

definition route_header :: "Packet \<Rightarrow> Connection \<Rightarrow> gerror option \<times> Connection" where
  "route_header pkt conn =
     (if msgNo pkt \<noteq> incomingmsgno conn then
        (Some (''out of sequence msgno: expected '' @ dec_uint (incomingmsgno conn) @ '' but got '' @ dec_uint (msgNo pkt)), conn)
      else if pktToMsg conn (msgNo pkt) \<noteq> None then
        (Some (''Bad HEADER; already tracking msgno '' @ dec_uint (msgNo pkt)), conn)
      else
        (None, conn\<lparr>pktToMsg := (pktToMsg conn)(msgNo pkt \<mapsto> message_of_header (packetHeader pkt)),
                    incomingmsgno := incomingmsgno conn + 1\<rparr>))"

text \<open>The message is updated in place, before its bytes are acknowledged; the error of \<^verbatim>\<open>ackBytes\<close> is dropped.\<close>

definition route_data :: "Packet \<Rightarrow> Connection \<Rightarrow> gerror option \<times> Connection" where
  "route_data pkt conn = (case pktToMsg conn (msgNo pkt) of
     None \<Rightarrow> (Some (''not tracking message number '' @ dec_uint (msgNo pkt)), conn)
   | Some msg \<Rightarrow>
       (let msg' = snd (Message_Write (body pkt) msg);
            conn1 = conn\<lparr>pktToMsg := (pktToMsg conn)(msgNo pkt \<mapsto> msg')\<rparr>
        in (None, snd (ackBytes (msgNo pkt) (BytesWritten msg') conn1))))"

definition route_eof :: "Packet \<Rightarrow> Connection \<Rightarrow> gerror option \<times> Connection" where
  "route_eof pkt conn = (case pktToMsg conn (msgNo pkt) of
     None \<Rightarrow> (Some (''cannot process EOF for unknown msgno '' @ dec_uint (msgNo pkt)), conn)
   | Some msg \<Rightarrow>
       (None, conn\<lparr>pktToMsg := (pktToMsg conn)(msgNo pkt := None), msgs := msgs conn @ [msg]\<rparr>))"

definition route_txerr :: "Packet \<Rightarrow> Connection \<Rightarrow> gerror option \<times> Connection" where
  "route_txerr pkt conn = (case pktToMsg conn (msgNo pkt) of
     None \<Rightarrow> (Some (''cannot process EOF for unknown msgno '' @ dec_uint (msgNo pkt)), conn)
   | Some msg \<Rightarrow>
       (let msg1 = (if length (body pkt) > 0 then msg\<lparr>mError := body pkt\<rparr>
                    else msg\<lparr>mError := ''There was an unkown error with the connection''\<rparr>);
            msg2 = snd (Message_Write (body pkt) msg1);
            conn1 = snd (ackBytes (msgNo pkt) (BytesWritten msg2) (conn\<lparr>pktToMsg := (pktToMsg conn)(msgNo pkt \<mapsto> msg2)\<rparr>))
        in (None, conn1\<lparr>pktToMsg := (pktToMsg conn1)(msgNo pkt := None), msgs := msgs conn1 @ [msg2]\<rparr>)))"

definition routePacket :: "Packet \<Rightarrow> Connection \<Rightarrow> gerror option \<times> Connection" where
  "routePacket pkt conn = (case packetType pkt of
     HEADER \<Rightarrow> route_header pkt conn
   | DATA \<Rightarrow> route_data pkt conn
   | EOF \<Rightarrow> route_eof pkt conn
   | TXERR \<Rightarrow> route_txerr pkt conn
   | ACK \<Rightarrow> (None, conn)
   | UnknownType _ \<Rightarrow> (None, conn))"

lemma ackBytes_frame:
  obtains w e where "ackBytes no k conn = (e, conn\<lparr>conn_writer := w\<rparr>)"
proof -
  obtain n e w where "Packet_Write bw_Write (ack_packet no k) (conn_writer conn) = ((n, e), w)"
    by (metis prod.exhaust)
  then show thesis by (cases e) (auto intro!: that simp: ackBytes_def)
qed

lemma routePacket_reader: "conn_reader (snd (routePacket pkt conn)) = conn_reader conn"
proof -
  have "conn_reader (snd (ackBytes no k c)) = conn_reader c" for no k c
    by (rule ackBytes_frame [of no k c]) simp
  then show ?thesis
    by (auto simp: routePacket_def route_header_def route_data_def route_eof_def route_txerr_def Let_def
        split: PacketType.splits option.splits)
qed

subsection \<open>The reader loop\<close>

text \<open>Why the loop ended.\<close>

datatype reader_end = ReadFailed read_error | RouteFailed gerror

lemma packet_loop_decreases:
  assumes "ReadPacket (conn_reader conn) seen = Ret (rd, seen1, Inr pkt)"
    and "routePacket pkt (conn\<lparr>conn_reader := rd\<rparr>) = (e, conn1)"
  shows "length (rd_data (conn_reader conn1)) < length (rd_data (conn_reader conn))"
proof -
  have "conn_reader conn1 = rd"
    using assms(2) routePacket_reader [of pkt "conn\<lparr>conn_reader := rd\<rparr>"] by simp
  then show ?thesis using ReadPacket_progress [OF assms(1)] by auto
qed

function packet_loop :: "Connection \<Rightarrow> goint \<Rightarrow> (reader_end \<times> Connection \<times> goint) go" where
  "packet_loop conn seen = (case ReadPacket (conn_reader conn) seen of
     Panic m \<Rightarrow> Panic m
   | Deadlock \<Rightarrow> Deadlock
   | Ret (rd, seen1, Inl e) \<Rightarrow> Ret (ReadFailed e, conn\<lparr>conn_reader := rd\<rparr>, seen1)
   | Ret (rd, seen1, Inr pkt) \<Rightarrow>
       (case routePacket pkt (conn\<lparr>conn_reader := rd\<rparr>) of
          (Some e, conn1) \<Rightarrow> Ret (RouteFailed e, conn1, seen1)
        | (None, conn1) \<Rightarrow> packet_loop conn1 seen1))"
  by pat_completeness auto
termination
  by (relation "measure (\<lambda>(conn, seen). length (rd_data (conn_reader conn)))") (auto dest: packet_loop_decreases [OF _ sym])

declare packet_loop.simps [simp del]

text \<open>A nil connection returns at once; otherwise the channel is closed when the loop ends.\<close>

definition packetReader :: "Connection option \<Rightarrow> goint \<Rightarrow> (reader_end option \<times> Connection option \<times> goint) go" where
  "packetReader connp seen = (case connp of
     None \<Rightarrow> Ret (None, None, seen)
   | Some conn \<Rightarrow> go_bind (packet_loop conn seen)
       (\<lambda>(e, conn1, seen1). Ret (Some e, Some (conn1\<lparr>msgs_closed := True\<rparr>), seen1)))"

subsection \<open>Sending\<close>

definition RetryLimit :: nat where "RetryLimit = 50"

definition retried :: "gerror \<Rightarrow> gerror" where
  "retried e = ''Retried too many times: '' @ e"

text \<open>
  One packet: a failed write is retried, unless its error says that the connection is gone. In that
  case the loop only breaks: the new error is assigned to a variable of the loop body, so the
  caller sees none.
\<close>

function write_retry :: "nat \<Rightarrow> Packet \<Rightarrow> bufwriter \<Rightarrow> gerror option \<times> bufwriter" where
  "write_retry retries pkt w = (case Packet_Write bw_Write pkt w of
     ((_, None), w') \<Rightarrow> (None, w')
   | ((_, Some e), w') \<Rightarrow>
       if contains ''use of closed connection'' e then (None, w')
       else if contains ''broken pipe'' e then (None, w')
       else if retries > RetryLimit then (Some (retried e), w')
       else write_retry (retries + 1) pkt w')"
  by pat_completeness auto
termination
  by (relation "measure (\<lambda>(retries, _). Suc RetryLimit - retries)") auto

declare write_retry.simps [simp del]

fun send_packets :: "Packet list \<Rightarrow> bufwriter \<Rightarrow> gerror option \<times> bufwriter" where
  "send_packets [] w = (None, w)"
| "send_packets (pkt # pkts) w = (case write_retry 0 pkt w of
     (Some e, w') \<Rightarrow> (Some e, w')
   | (None, w') \<Rightarrow> send_packets pkts w')"

text \<open>
  \<^verbatim>\<open>Send\<close> on a possibly nil connection. A closed connection only sets the error that is returned when
  nothing else fails; the message number is used up before anything is written; and the
  error of the final flush is dropped.
\<close>

definition Connection_Send :: "Connection option \<Rightarrow> Message \<Rightarrow> gerror option \<times> Connection option \<times> Message" where
  "Connection_Send connp msg = (case connp of
     None \<Rightarrow> (Some ''cannot send on nil connection'', None, msg)
   | Some conn \<Rightarrow>
       (let err = (if isClosed conn then Some ''connection already closed'' else None) in
        if mRequestID msg = 0 then (Some ''must specify `ReqestId` on msg before sending'', connp, msg)
        else
          (let no = outgoingmsgno conn;
               conn1 = conn\<lparr>outgoingmsgno := outgoingmsgno conn + 1\<rparr>;
               (pkts, msg') = toPackets no msg
           in case send_packets pkts (conn_writer conn1) of
                (Some e, w) \<Rightarrow> (Some e, Some (conn1\<lparr>conn_writer := w\<rparr>), msg')
              | (None, w) \<Rightarrow> (err, Some (conn1\<lparr>conn_writer := snd (bw_Flush w)\<rparr>), msg'))))"

text \<open>
  Closing: from now on writes fail, and of what the peer sent only the \<open>k\<close> bytes that are already
  buffered can be read.
\<close>

definition net_closed :: gerror where "net_closed = ''use of closed network connection''"

definition Connection_Close :: "nat \<Rightarrow> Connection \<Rightarrow> Connection" where
  "Connection_Close k conn =
     (if isClosed conn then conn
      else conn\<lparr>conn_writer := (conn_writer conn)\<lparr>bw_conn := (bw_conn (conn_writer conn))\<lparr>nc_fail := Some (0, net_closed)\<rparr>\<rparr>,
                conn_reader := \<lparr>rd_data = take k (rd_data (conn_reader conn)), rd_err = net_closed\<rparr>,
                isClosed := True\<rparr>)"

subsection \<open>Sending on a healthy connection\<close>

text \<open>A packet that has a frame, of a size that the peer can allocate.\<close>

definition packet_fits :: "Packet \<Rightarrow> bool" where
  "packet_fits pkt = (case packet_frame pkt of Inl _ \<Rightarrow> False | Inr f \<Rightarrow> length f \<le> maxAlloc)"

definition frames :: "Packet list \<Rightarrow> bytes" where
  "frames pkts = concat (map (\<lambda>p. case packet_frame p of Inl _ \<Rightarrow> [] | Inr f \<Rightarrow> f) pkts)"

lemma frames_simps [simp]:
  "frames [] = []" "packet_frame p = Inr f \<Longrightarrow> frames (p # ps) = f @ frames ps"
  by (simp_all add: frames_def)

lemma packet_fitsE:
  assumes "packet_fits p"
  obtains f where "packet_frame p = Inr f" "length f \<le> maxAlloc"
  using assms by (auto simp: packet_fits_def split: sum.splits)

lemma Packet_Write_healthy:
  assumes "bw_healthy w" and "packet_frame pkt = Inr f"
  shows "\<exists>w'. Packet_Write bw_Write pkt w = ((length f, None), w') \<and> bw_healthy w' \<and> bw_contents w' = bw_contents w @ f"
proof -
  from assms(2) obtain tb b where tb: "packetTypeBytes (packetType pkt) = Inr tb" and b: "packet_body pkt = (None, b)"
    and f: "f = header_line tb (msgNo pkt) (length b) @ b @ theRestBytes"
    by (rule packet_frame_InrE)
  from bw_Write_healthy [OF assms(1)] obtain w1 where 1: "bw_Write (header_line tb (msgNo pkt) (length b)) w
      = ((length (header_line tb (msgNo pkt) (length b)), None), w1)" "bw_healthy w1"
    "bw_contents w1 = bw_contents w @ header_line tb (msgNo pkt) (length b)" by blast
  from bw_Write_healthy [OF 1(2)] obtain w2 where 2: "bw_Write b w1 = ((length b, None), w2)" "bw_healthy w2"
    "bw_contents w2 = bw_contents w1 @ b" by blast
  from bw_Write_healthy [OF 2(2)] obtain w3 where 3: "bw_Write theRestBytes w2 = ((length theRestBytes, None), w3)"
    "bw_healthy w3" "bw_contents w3 = bw_contents w2 @ theRestBytes" by blast
  show ?thesis using tb b 1 2 3 f by (simp add: Packet_Write_def)
qed

lemma write_retry_healthy:
  assumes "bw_healthy w" and "packet_frame pkt = Inr f"
  shows "\<exists>w'. write_retry k pkt w = (None, w') \<and> bw_healthy w' \<and> bw_contents w' = bw_contents w @ f"
  using Packet_Write_healthy [OF assms] by (subst write_retry.simps) auto

lemma send_packets_healthy:
  assumes "bw_healthy w" and "list_all packet_fits pkts"
  shows "\<exists>w'. send_packets pkts w = (None, w') \<and> bw_healthy w' \<and> bw_contents w' = bw_contents w @ frames pkts"
  using assms
proof (induction pkts arbitrary: w)
  case (Cons p ps)
  from Cons.prems(2) obtain f where f: "packet_frame p = Inr f" by (auto elim: packet_fitsE)
  from write_retry_healthy [OF Cons.prems(1) f] obtain w1 where
    1: "write_retry 0 p w = (None, w1)" "bw_healthy w1" "bw_contents w1 = bw_contents w @ f" by blast
  from Cons.IH [OF 1(2)] Cons.prems(2) show ?case by (auto simp: 1 f)
qed simp

text \<open>A message that can be sent: it has a request id, its packets fit, and it satisfies the invariant.\<close>

definition message_fits :: "Message \<Rightarrow> bool" where
  "message_fits msg \<longleftrightarrow> mRequestID msg \<noteq> 0 \<and> message_ok msg \<and> (\<forall>no. list_all packet_fits (fst (toPackets no msg)))"

definition conn_healthy :: "Connection \<Rightarrow> bool" where
  "conn_healthy conn \<longleftrightarrow> bw_healthy (conn_writer conn) \<and> bw_buf (conn_writer conn) = [] \<and> \<not> isClosed conn"

abbreviation sent :: "Connection \<Rightarrow> bytes" where
  "sent conn \<equiv> nc_sent (bw_conn (conn_writer conn))"

lemma Send_healthy:
  assumes "conn_healthy conn" and "message_fits msg"
  shows "\<exists>conn'. Connection_Send (Some conn) msg = (None, Some conn', snd (toPackets (outgoingmsgno conn) msg))
    \<and> conn_healthy conn' \<and> outgoingmsgno conn' = outgoingmsgno conn + 1
    \<and> sent conn' = sent conn @ frames (fst (toPackets (outgoingmsgno conn) msg))"
proof -
  obtain pkts msg' where tp: "toPackets (outgoingmsgno conn) msg = (pkts, msg')" by (metis prod.exhaust)
  have "list_all packet_fits pkts" using assms(2) tp by (metis fst_conv message_fits_def)
  with send_packets_healthy [of "conn_writer conn" pkts] assms(1) obtain w where
    w: "send_packets pkts (conn_writer conn) = (None, w)" "bw_healthy w"
       "bw_contents w = sent conn @ frames pkts"
    by (auto simp: conn_healthy_def bw_contents_def)
  from bw_Flush_healthy [OF w(2)] obtain w' where "bw_Flush w = (None, w')" "bw_healthy w'" "bw_buf w' = []"
    "nc_sent (bw_conn w') = bw_contents w" by blast
  with w tp assms show ?thesis
    by (simp add: Connection_Send_def conn_healthy_def message_fits_def)
qed

subsection \<open>Receiving\<close>

lemma ackBytes_reader_update:
  "ackBytes no k (conn\<lparr>conn_reader := r\<rparr>) = apsnd (\<lambda>c. c\<lparr>conn_reader := r\<rparr>) (ackBytes no k conn)"
  by (simp add: ackBytes_def split: prod.split option.split)

lemma routePacket_reader_update:
  "routePacket pkt (conn\<lparr>conn_reader := r\<rparr>) = apsnd (\<lambda>c. c\<lparr>conn_reader := r\<rparr>) (routePacket pkt conn)"
proof -
  have ack: "snd (ackBytes no k (conn\<lparr>conn_reader := r, pktToMsg := m\<rparr>))
      = (snd (ackBytes no k (conn\<lparr>pktToMsg := m\<rparr>)))\<lparr>conn_reader := r\<rparr>" for no k m
  proof -
    have "conn\<lparr>conn_reader := r, pktToMsg := m\<rparr> = conn\<lparr>pktToMsg := m\<rparr>\<lparr>conn_reader := r\<rparr>" by simp
    then show ?thesis by (simp only: ackBytes_reader_update snd_apsnd)
  qed
  show ?thesis
    by (cases "packetType pkt")
       (simp_all add: routePacket_def route_header_def route_data_def route_eof_def route_txerr_def Let_def ack
          split: option.split)
qed

fun route_packets :: "Packet list \<Rightarrow> Connection \<Rightarrow> gerror option \<times> Connection" where
  "route_packets [] conn = (None, conn)"
| "route_packets (p # ps) conn = (case routePacket p conn of
     (Some e, conn1) \<Rightarrow> (Some e, conn1)
   | (None, conn1) \<Rightarrow> route_packets ps conn1)"

lemma route_packets_append:
  "route_packets (ps @ qs) conn = (case route_packets ps conn of
     (Some e, conn1) \<Rightarrow> (Some e, conn1) | (None, conn1) \<Rightarrow> route_packets qs conn1)"
  by (induction ps arbitrary: conn) (auto split: prod.split option.split)

text \<open>The reader loop on the frames of packets is the routing of what is received of them.\<close>

lemma packet_loop_frames:
  assumes "list_all packet_fits ps" and "route_packets (map received ps) conn = (None, conn')"
  shows "packet_loop (conn\<lparr>conn_reader := \<lparr>rd_data = frames ps @ s, rd_err = e\<rparr>\<rparr>) seen
    = packet_loop (conn'\<lparr>conn_reader := \<lparr>rd_data = s, rd_err = e\<rparr>\<rparr>) (seen + of_nat (length ps))"
  using assms
proof (induction ps arbitrary: conn seen)
  case (Cons p ps)
  from Cons.prems(1) obtain f where f: "packet_frame p = Inr f" "length f \<le> maxAlloc"
    by (auto elim: packet_fitsE)
  from Cons.prems(2) obtain conn1 where 1: "routePacket (received p) conn = (None, conn1)"
    and 2: "route_packets (map received ps) conn1 = (None, conn')"
    by (auto split: prod.splits option.splits)
  let ?rd = "\<lparr>rd_data = frames ps @ s, rd_err = e\<rparr>"
  have "ReadPacket \<lparr>rd_data = frames (p # ps) @ s, rd_err = e\<rparr> seen = Ret (?rd, seen + 1, Inr (received p))"
    using ReadPacket_frame [OF f, of "\<lparr>rd_data = frames (p # ps) @ s, rd_err = e\<rparr>" "frames ps @ s" seen] f by simp
  then have "packet_loop (conn\<lparr>conn_reader := \<lparr>rd_data = frames (p # ps) @ s, rd_err = e\<rparr>\<rparr>) seen
      = packet_loop (conn1\<lparr>conn_reader := ?rd\<rparr>) (seen + 1)"
    using 1 by (subst packet_loop.simps) (simp add: routePacket_reader_update del: frames_simps)
  also have "\<dots> = packet_loop (conn'\<lparr>conn_reader := \<lparr>rd_data = s, rd_err = e\<rparr>\<rparr>) (seen + of_nat (length (p # ps)))"
    using Cons.IH [OF _ 2, of "seen + 1"] Cons.prems(1) by (simp add: ac_simps)
  finally show ?case .
qed simp

text \<open>
  The message that is delivered: the fields of its header with invalid UTF-8 replaced, except the
  identifying token, which is not copied; the payload in the same pieces.
\<close>

definition received_message :: "Message \<Rightarrow> Message" where
  "received_message msg = (message_of_header (repair_header (header_of msg)))\<lparr>
     packets := map (data_packet \<circ> body) (packets msg), bytesWritten := of_nat (length (Message_Bytes msg))\<rparr>"

lemma route_data_packets:
  assumes "list_all (\<lambda>p. packetType p = DATA \<and> msgNo p = no) ps" and "pktToMsg conn no = Some m"
  shows "\<exists>w. route_packets ps conn = (None, conn\<lparr>conn_writer := w, pktToMsg := (pktToMsg conn)(no \<mapsto>
     m\<lparr>packets := packets m @ map (data_packet \<circ> body) ps,
       bytesWritten := bytesWritten m + of_nat (length (concat (map body ps)))\<rparr>)\<rparr>)"
  using assms
proof (induction ps arbitrary: conn m)
  case Nil
  then have "(pktToMsg conn)(no \<mapsto> m) = pktToMsg conn" by (simp add: fun_upd_idem)
  then show ?case by (intro exI [of _ "conn_writer conn"]) (simp del: fun_upd_apply)
next
  case (Cons p ps)
  let ?m = "snd (Message_Write (body p) m)"
  let ?c0 = "conn\<lparr>pktToMsg := (pktToMsg conn)(no \<mapsto> ?m)\<rparr>"
  obtain w e where "ackBytes no (BytesWritten ?m) ?c0 = (e, ?c0\<lparr>conn_writer := w\<rparr>)" by (rule ackBytes_frame)
  moreover define c where "c = ?c0\<lparr>conn_writer := w\<rparr>"
  ultimately have 1: "routePacket p conn = (None, c)"
    using Cons.prems by (simp add: routePacket_def route_data_def)
  have "pktToMsg c no = Some ?m" "list_all (\<lambda>p. packetType p = DATA \<and> msgNo p = no) ps"
    using Cons.prems(1) by (simp_all add: c_def)
  then obtain w' where 2: "route_packets ps c = (None, c\<lparr>conn_writer := w', pktToMsg := (pktToMsg c)(no \<mapsto>
     ?m\<lparr>packets := packets ?m @ map (data_packet \<circ> body) ps,
       bytesWritten := bytesWritten ?m + of_nat (length (concat (map body ps)))\<rparr>)\<rparr>)"
    using Cons.IH [of c ?m] by blast
  show ?case
    unfolding route_packets.simps 1 prod.case option.case 2
    by (intro exI [of _ w'])
       (auto simp: c_def Message_Write_def ac_simps fun_eq_iff comp_def intro!: Connection.equality)
qed

lemma header_json_fits: "packet_fits (header_packet no msg) \<Longrightarrow> \<exists>j. header_json (header_of msg) = Inr j"
  by (auto simp: packet_fits_def packet_frame_def packet_body_eq header_packet_def split: sum.splits)

lemma received_toPackets:
  assumes "message_ok msg"
  shows "map received (fst (toPackets no msg)) =
    [(header_packet no msg)\<lparr>packetHeader := repair_header (header_of msg)\<rparr>]
    @ map (\<lambda>p. p\<lparr>msgNo := no, packetHeader := zeroHeader\<rparr>) (packets msg) @ [eof_packet no]"
  using assms by (auto simp: toPackets_def Let_def received_def header_packet_def eof_packet_def message_ok_def)

lemma route_message:
  assumes "message_ok msg" and "incomingmsgno conn = no" and "pktToMsg conn no = None"
  shows "\<exists>w. route_packets (map received (fst (toPackets no msg))) conn
    = (None, conn\<lparr>conn_writer := w, incomingmsgno := no + 1, msgs := msgs conn @ [received_message msg]\<rparr>)"
proof -
  let ?m = "message_of_header (repair_header (header_of msg))"
  let ?ps = "map (\<lambda>p. p\<lparr>msgNo := no, packetHeader := zeroHeader\<rparr>) (packets msg)"
  define c1 where "c1 = conn\<lparr>pktToMsg := (pktToMsg conn)(no \<mapsto> ?m), incomingmsgno := no + 1\<rparr>"
  have m0: "packets ?m = []" "bytesWritten ?m = 0"
    by (simp_all add: message_of_header_def message_setters NewMessage_def)
  have 1: "routePacket ((header_packet no msg)\<lparr>packetHeader := repair_header (header_of msg)\<rparr>) conn = (None, c1)"
    using assms by (simp add: routePacket_def route_header_def header_packet_def c1_def)
  have "list_all (\<lambda>p. packetType p = DATA \<and> msgNo p = no) ?ps" "pktToMsg c1 no = Some ?m"
    using assms(1) by (auto simp: list_all_iff message_ok_def c1_def)
  from route_data_packets [OF this] obtain w where
    2: "route_packets ?ps c1 = (None, c1\<lparr>conn_writer := w, pktToMsg := (pktToMsg c1)(no \<mapsto> received_message msg)\<rparr>)"
    by (auto simp: m0 received_message_def Message_Bytes_eq comp_def)
  have "(pktToMsg conn)(no := None) = pktToMsg conn" using assms(3) by (simp add: fun_upd_idem)
  then have 3: "routePacket (eof_packet no) (c1\<lparr>conn_writer := w, pktToMsg := (pktToMsg c1)(no \<mapsto> received_message msg)\<rparr>)
      = (None, conn\<lparr>conn_writer := w, incomingmsgno := no + 1, msgs := msgs conn @ [received_message msg]\<rparr>)"
    by (simp add: routePacket_def route_eof_def eof_packet_def c1_def)
  show ?thesis
    unfolding received_toPackets [OF assms(1)]
    by (intro exI [of _ w]) (simp add: route_packets_append 1 2 3)
qed

subsection \<open>From one end to the other\<close>

fun send_all :: "Message list \<Rightarrow> Connection \<Rightarrow> gerror option list \<times> Connection" where
  "send_all [] conn = ([], conn)"
| "send_all (msg # ms) conn = (case Connection_Send (Some conn) msg of
     (e, connp, _) \<Rightarrow> (case send_all ms (case connp of None \<Rightarrow> conn | Some c \<Rightarrow> c) of (es, c) \<Rightarrow> (e # es, c)))"

text \<open>The packets of consecutive messages, numbered from \<open>no\<close>.\<close>

fun numbered_packets :: "uint64 \<Rightarrow> Message list \<Rightarrow> Packet list" where
  "numbered_packets no [] = []"
| "numbered_packets no (msg # ms) = fst (toPackets no msg) @ numbered_packets (no + 1) ms"

lemma frames_append [simp]: "frames (ps @ qs) = frames ps @ frames qs"
  by (simp add: frames_def)

lemma send_all_healthy:
  assumes "conn_healthy conn" and "list_all message_fits ms"
  shows "\<exists>conn'. send_all ms conn = (replicate (length ms) None, conn') \<and> conn_healthy conn'
    \<and> outgoingmsgno conn' = outgoingmsgno conn + of_nat (length ms)
    \<and> sent conn' = sent conn @ frames (numbered_packets (outgoingmsgno conn) ms)"
  using assms
proof (induction ms arbitrary: conn)
  case (Cons m ms)
  from Send_healthy [of conn m] Cons.prems obtain conn1 where
    1: "Connection_Send (Some conn) m = (None, Some conn1, snd (toPackets (outgoingmsgno conn) m))"
       "conn_healthy conn1" "outgoingmsgno conn1 = outgoingmsgno conn + 1"
       "sent conn1 = sent conn @ frames (fst (toPackets (outgoingmsgno conn) m))" by auto
  from Cons.IH [OF 1(2)] Cons.prems(2) obtain conn' where
    "send_all ms conn1 = (replicate (length ms) None, conn')" "conn_healthy conn'"
    "outgoingmsgno conn' = outgoingmsgno conn1 + of_nat (length ms)"
    "sent conn' = sent conn1 @ frames (numbered_packets (outgoingmsgno conn1) ms)" by auto
  then show ?case by (intro exI [of _ conn']) (simp add: 1 add.assoc)
qed simp

lemma route_messages:
  assumes "list_all message_ok ms" and "pktToMsg conn = (\<lambda>_. None)"
  shows "\<exists>w. route_packets (map received (numbered_packets (incomingmsgno conn) ms)) conn
    = (None, conn\<lparr>conn_writer := w, incomingmsgno := incomingmsgno conn + of_nat (length ms),
                  msgs := msgs conn @ map received_message ms\<rparr>)"
  using assms
proof (induction ms arbitrary: conn)
  case Nil
  show ?case by (intro exI [of _ "conn_writer conn"]) simp
next
  case (Cons m ms)
  from route_message [of m conn] Cons.prems obtain w where
    1: "route_packets (map received (fst (toPackets (incomingmsgno conn) m))) conn
      = (None, conn\<lparr>conn_writer := w, incomingmsgno := incomingmsgno conn + 1, msgs := msgs conn @ [received_message m]\<rparr>)"
    by auto
  define c where "c = conn\<lparr>conn_writer := w, incomingmsgno := incomingmsgno conn + 1, msgs := msgs conn @ [received_message m]\<rparr>"
  from Cons.IH [of c] Cons.prems obtain w' where
    "route_packets (map received (numbered_packets (incomingmsgno c) ms)) c
      = (None, c\<lparr>conn_writer := w', incomingmsgno := incomingmsgno c + of_nat (length ms),
                  msgs := msgs c @ map received_message ms\<rparr>)" by (auto simp: c_def)
  moreover from 1 have "route_packets (map received (fst (toPackets (incomingmsgno conn) m))) conn = (None, c)"
    by (simp add: c_def)
  ultimately show ?case
    by (intro exI [of _ w']) (simp add: route_packets_append, simp add: c_def ac_simps)
qed

lemma numbered_packets_fit: "list_all message_fits ms \<Longrightarrow> list_all packet_fits (numbered_packets no ms)"
  by (induction ms arbitrary: no) (auto simp: message_fits_def)

lemma packet_loop_end:
  "packet_loop (conn\<lparr>conn_reader := \<lparr>rd_data = [], rd_err = e\<rparr>\<rparr>) seen
    = Ret (ReadFailed (ReadlineError e), conn\<lparr>conn_reader := \<lparr>rd_data = [], rd_err = e\<rparr>\<rparr>, seen)"
  by (subst packet_loop.simps) (simp add: ReadPacket_def ReadLine_def bufio_size_def)

lemma deliver_frames:
  assumes "list_all message_fits ms" and "pktToMsg c = (\<lambda>_. None)"
    and "conn_reader c = \<lparr>rd_data = frames (numbered_packets (incomingmsgno c) ms), rd_err = e\<rparr>"
  shows "\<exists>w. packetReader (Some c) seen = Ret (Some (ReadFailed (ReadlineError e)),
     Some (c\<lparr>conn_reader := \<lparr>rd_data = [], rd_err = e\<rparr>, conn_writer := w,
             incomingmsgno := incomingmsgno c + of_nat (length ms),
             msgs := msgs c @ map received_message ms, msgs_closed := True\<rparr>),
     seen + of_nat (length (numbered_packets (incomingmsgno c) ms)))"
proof -
  let ?ps = "numbered_packets (incomingmsgno c) ms"
  have "list_all message_ok ms" using assms(1) by (simp add: list_all_iff message_fits_def)
  from route_messages [OF this assms(2)] obtain w where
    w: "route_packets (map received ?ps) c = (None, c\<lparr>conn_writer := w,
      incomingmsgno := incomingmsgno c + of_nat (length ms), msgs := msgs c @ map received_message ms\<rparr>)" by blast
  have "c = c\<lparr>conn_reader := \<lparr>rd_data = frames ?ps @ [], rd_err = e\<rparr>\<rparr>" using assms(3) by simp
  with packet_loop_frames [OF numbered_packets_fit [OF assms(1)] w, of "[]" e seen]
  have "packet_loop c seen = packet_loop (c\<lparr>conn_writer := w, incomingmsgno := incomingmsgno c + of_nat (length ms),
      msgs := msgs c @ map received_message ms, conn_reader := \<lparr>rd_data = [], rd_err = e\<rparr>\<rparr>) (seen + of_nat (length ?ps))"
    by simp
  then show ?thesis by (intro exI [of _ w]) (simp add: packetReader_def packet_loop_end)
qed

end
