(* ===== verification/Connection_Laws.thy ===== *)
theory Connection_Laws
  imports Connection Systems
begin

text \<open>
  Further laws of a connection: what \<^verbatim>\<open>Send\<close> returns when the header cannot be marshalled or the writer
  has failed, the invariant of the reachable connections, the acknowledgements, the independence
  of interleaved messages, and the properties of the component.
\<close>

subsection \<open>Sending that fails\<close>

text \<open>A write that fails without taking anything is repeated up to the limit.\<close>

lemma write_retry_stuck:
  assumes "Packet_Write bw_Write pkt w = ((n, Some e), w)"
  shows "write_retry k pkt w =
    (if contains ''use of closed connection'' e \<or> contains ''broken pipe'' e then (None, w)
     else (Some (retried e), w))"
proof (induction "Suc RetryLimit - k" arbitrary: k)
  case 0
  then show ?case using assms by (subst write_retry.simps) simp
next
  case (Suc x)
  then have "x = Suc RetryLimit - Suc k" "\<not> RetryLimit < k" by auto
  with Suc.hyps(1) [of "Suc k"] assms show ?case by (subst write_retry.simps) simp
qed

definition gone :: "gerror \<Rightarrow> bool" where
  "gone e \<longleftrightarrow> contains ''use of closed connection'' e \<or> contains ''broken pipe'' e"

lemma write_retry_failed:
  assumes "bw_err w = Some e" and "packet_fits pkt"
  shows "write_retry k pkt w =
    (if gone (header_err e) then (None, w)
     else (Some (retried (header_err e)), w))"
proof -
  obtain f where "packet_frame pkt = Inr f" using assms(2) by (rule packet_fitsE)
  from write_retry_stuck [OF bufw.Packet_Write_failed [OF assms(1) this]] show ?thesis by (simp add: gone_def)
qed

lemma send_packets_gone:
  assumes "bw_err w = Some e" and "gone (header_err e)" and "list_all packet_fits pkts"
  shows "send_packets pkts w = (None, w)"
  using assms(3) by (induction pkts) (simp_all add: write_retry_failed [OF assms(1)] assms(2))

lemma toPackets_Cons: "fst (toPackets no msg) = header_packet no msg # map (\<lambda>p. p\<lparr>msgNo := no\<rparr>) (packets msg) @ [eof_packet no]"
  by (simp add: toPackets_def Let_def)

lemma send_packets_failed:
  assumes "bw_err w = Some e" and "packet_fits p"
  shows "send_packets (p # ps) w = (if gone (header_err e) then send_packets ps w
     else (Some (retried (header_err e)), w))"
  by (simp add: write_retry_failed [OF assms])

lemma Send_failed:
  assumes "bw_err (conn_writer conn) = Some e" and "message_fits msg"
  shows "Connection_Send (Some conn) msg =
    ((if gone (header_err e) then (if isClosed conn then Some ''connection already closed'' else None)
      else Some (retried (header_err e))),
     Some (conn\<lparr>outgoingmsgno := outgoingmsgno conn + 1\<rparr>), snd (toPackets (outgoingmsgno conn) msg))"
proof -
  let ?no = "outgoingmsgno conn"
  obtain ps msg' where tp: "toPackets ?no msg = (header_packet ?no msg # ps, msg')"
    using toPackets_Cons [of ?no msg] by (metis fst_conv prod.exhaust)
  from assms(2) have "list_all packet_fits (fst (toPackets ?no msg))" unfolding message_fits_def by blast
  then have fits: "packet_fits (header_packet ?no msg)" "list_all packet_fits (header_packet ?no msg # ps)"
    by (simp_all add: tp)
  have "bw_Flush (conn_writer conn) = (Some e, conn_writer conn)" by (simp add: bw_Flush_def assms(1))
  moreover have "mRequestID msg \<noteq> 0" using assms(2) by (simp add: message_fits_def)
  ultimately show ?thesis
    using send_packets_gone [OF assms(1) _ fits(2)] send_packets_failed [OF assms(1) fits(1), of ps]
    by (simp add: Connection_Send_def Let_def tp del: send_packets.simps)
qed

subsubsection \<open>A header that cannot be marshalled\<close>

lemma contains_char: "contains p s \<Longrightarrow> c \<in> set p \<Longrightarrow> c \<in> set s"
  by (auto simp: contains_iff)

lemma not_contains_number:
  "p \<noteq> [] \<Longrightarrow> \<not> is_digit (hd p) \<Longrightarrow> hd p \<noteq> CHR ''-'' \<Longrightarrow> hd p \<notin> set t
     \<Longrightarrow> \<not> contains p (dec_int i @ t) \<and> \<not> has_prefix p (dec_int i @ t)"
proof -
  assume p: "p \<noteq> []" "\<not> is_digit (hd p)" "hd p \<noteq> CHR ''-''" "hd p \<notin> set t"
  then have "\<not> contains p (dec_int i @ t)"
    using contains_char [of p "dec_int i @ t" "hd p"] dec_int_chars [of "hd p" i] by auto
  moreover from this have "\<not> has_prefix p (dec_int i @ t)"
    by (auto simp: contains_iff has_prefix_iff) (metis append_Nil)
  ultimately show ?thesis by simp
qed

lemma header_json_not_gone:
  assumes "header_json h = Inl e"
  shows "\<not> gone (header_err e)"
proof -
  have "\<not> is_digit (CHR ''u'')" "\<not> is_digit (CHR ''b'')" by (simp_all add: is_digit_def)
  then have u: "\<not> contains ''use of closed connection'' (dec_int i @ ''`'')" "\<not> contains ''broken pipe'' (dec_int i @ ''`'')" for i
    using not_contains_number [of "''use of closed connection''" "''`''" i]
      not_contains_number [of "''broken pipe''" "''`''" i] by simp_all
  from assms show ?thesis
    by (cases "hEnvelope h"; cases "hMessageType h") (auto simp: header_json_def header_err_def gone_def u)
qed

lemma header_packet_unmarshallable:
  assumes "header_json (header_of msg) = Inl e"
  shows "write_retry 0 (header_packet no msg) w = (Some (retried (header_err e)), w)"
proof -
  have "Packet_Write bw_Write (header_packet no msg) w = ((0, Some (header_err e)), w)"
    using assms by (simp add: Packet_Write_def header_packet_def packet_body_eq)
  from write_retry_stuck [OF this, of 0] header_json_not_gone [OF assms] show ?thesis by (simp add: gone_def)
qed

lemma Send_unmarshallable:
  assumes "header_json (header_of msg) = Inl e" and "mRequestID msg \<noteq> 0"
  shows "Connection_Send (Some conn) msg =
    (Some (retried (header_err e)),
     Some (conn\<lparr>outgoingmsgno := outgoingmsgno conn + 1\<rparr>), snd (toPackets (outgoingmsgno conn) msg))"
proof -
  obtain ps msg' where tp: "toPackets (outgoingmsgno conn) msg = (header_packet (outgoingmsgno conn) msg # ps, msg')"
    using toPackets_Cons [of "outgoingmsgno conn" msg] by (metis fst_conv prod.exhaust)
  then show ?thesis using assms
    by (simp add: Connection_Send_def header_packet_unmarshallable [OF assms(1)])
qed

subsection \<open>The abstract reassembler\<close>

text \<open>
  What routing promises, without sequence numbers, acknowledgements and errors: a map of the messages
  that are being received, and the list of the deliveries, tagged with the message number.
\<close>

type_synonym tracked = "uint64 \<Rightarrow> Message option"

definition txerr_text :: "bytes \<Rightarrow> bytes" where
  "txerr_text b = (if b = [] then ''There was an unkown error with the connection'' else b)"

definition assemble :: "Packet \<Rightarrow> tracked \<Rightarrow> (uint64 \<times> Message) list \<times> tracked" where
  "assemble p m = (case (packetType p, m (msgNo p)) of
     (HEADER, _) \<Rightarrow> ([], m(msgNo p \<mapsto> message_of_header (packetHeader p)))
   | (DATA, Some msg) \<Rightarrow> ([], m(msgNo p \<mapsto> snd (Message_Write (body p) msg)))
   | (EOF, Some msg) \<Rightarrow> ([(msgNo p, msg)], m(msgNo p := None))
   | (TXERR, Some msg) \<Rightarrow> ([(msgNo p, snd (Message_Write (body p) (SetError (txerr_text (body p)) msg)))], m(msgNo p := None))
   | _ \<Rightarrow> ([], m))"

fun assemble_all :: "Packet list \<Rightarrow> tracked \<Rightarrow> (uint64 \<times> Message) list \<times> tracked" where
  "assemble_all [] m = ([], m)"
| "assemble_all (p # ps) m = (case assemble p m of (d, m1) \<Rightarrow> (case assemble_all ps m1 of (ds, m2) \<Rightarrow> (d @ ds, m2)))"

lemma snd_ackBytes_fields [simp]:
  "pktToMsg (snd (ackBytes no k c)) = pktToMsg c" "msgs (snd (ackBytes no k c)) = msgs c"
  "incomingmsgno (snd (ackBytes no k c)) = incomingmsgno c" "outgoingmsgno (snd (ackBytes no k c)) = outgoingmsgno c"
  "isClosed (snd (ackBytes no k c)) = isClosed c" "msgs_closed (snd (ackBytes no k c)) = msgs_closed c"
  by (rule ackBytes_frame [of no k c]; simp)+

lemma routePacket_assemble:
  assumes "routePacket p c = (None, c')"
  shows "msgs c' = msgs c @ map snd (fst (assemble p (pktToMsg c))) \<and> pktToMsg c' = snd (assemble p (pktToMsg c))"
  using assms
  by (cases "packetType p"; cases "pktToMsg c (msgNo p)")
     (auto simp: routePacket_def route_header_def route_data_def route_eof_def route_txerr_def assemble_def
        Let_def SetError_def txerr_text_def fun_upd_idem split: if_splits)

lemma route_packets_assemble:
  "route_packets ps c = (None, c') \<Longrightarrow>
     msgs c' = msgs c @ map snd (fst (assemble_all ps (pktToMsg c))) \<and> pktToMsg c' = snd (assemble_all ps (pktToMsg c))"
proof (induction ps arbitrary: c)
  case (Cons p ps)
  then obtain c1 where 1: "routePacket p c = (None, c1)" and 2: "route_packets ps c1 = (None, c')"
    by (auto split: prod.splits option.splits)
  from routePacket_assemble [OF 1] Cons.IH [OF 2] show ?case by (simp split: prod.split)
qed simp

text \<open>Packets with other numbers do not matter to a message.\<close>

lemma assemble_other:
  "msgNo p \<noteq> no \<Longrightarrow> snd (assemble p m) no = m no \<and> filter (\<lambda>d. fst d = no) (fst (assemble p m)) = []"
  by (auto simp: assemble_def split: PacketType.splits option.splits)

lemma assemble_same:
  "msgNo p = no \<Longrightarrow> m no = m' no \<Longrightarrow>
     snd (assemble p m) no = snd (assemble p m') no
     \<and> fst (assemble p m) = fst (assemble p m')
     \<and> filter (\<lambda>d. fst d = no) (fst (assemble p m')) = fst (assemble p m')"
  by (auto simp: assemble_def split: PacketType.splits option.splits)

lemma assemble_all_project:
  "m no = m' no \<Longrightarrow>
     filter (\<lambda>d. fst d = no) (fst (assemble_all ps m)) = fst (assemble_all (filter (\<lambda>p. msgNo p = no) ps) m')
     \<and> snd (assemble_all ps m) no = snd (assemble_all (filter (\<lambda>p. msgNo p = no) ps) m') no"
proof (induction ps arbitrary: m m')
  case (Cons p ps)
  show ?case
  proof (cases "msgNo p = no")
    case True
    with Cons.IH [of "snd (assemble p m)" "snd (assemble p m')"] assemble_same [OF True, of m m'] Cons.prems
    show ?thesis by (simp add: case_prod_beta)
  next
    case False
    with Cons.IH [of "snd (assemble p m)" m'] assemble_other [OF False, of m] Cons.prems
    show ?thesis by (simp add: case_prod_beta)
  qed
qed simp

subsection \<open>Acknowledgements\<close>

fun acks :: "uint64 \<Rightarrow> uint64 \<Rightarrow> Packet list \<Rightarrow> Packet list" where
  "acks no k [] = []"
| "acks no k (p # ps) = ack_packet no (k + of_nat (length (body p))) # acks no (k + of_nat (length (body p))) ps"

lemma ack_frame: "\<exists>f. packet_frame (ack_packet no k) = Inr f"
  by (simp add: packet_frame_def ack_packet_def packet_body_eq)

lemma ackBytes_healthy:
  assumes "bw_healthy (conn_writer c)" and "bw_buf (conn_writer c) = []"
  shows "\<exists>w. ackBytes no k c = (None, c\<lparr>conn_writer := w\<rparr>) \<and> bw_healthy w \<and> bw_buf w = []
    \<and> nc_sent (bw_conn w) = sent c @ frames [ack_packet no k]"
proof -
  obtain f where f: "packet_frame (ack_packet no k) = Inr f" using ack_frame by blast
  from Packet_Write_healthy [OF assms(1) f] obtain w where
    w: "Packet_Write bw_Write (ack_packet no k) (conn_writer c) = ((length f, None), w)" "bw_healthy w"
       "bw_contents w = bw_contents (conn_writer c) @ f" by blast
  from bw_Flush_healthy [OF w(2)] obtain w' where "bw_Flush w = (None, w')" "bw_healthy w'" "bw_buf w' = []"
    "nc_sent (bw_conn w') = bw_contents w" by blast
  with w f assms(2) show ?thesis by (intro exI [of _ w']) (simp add: ackBytes_def bw_contents_def)
qed

lemma route_data_acks:
  assumes "list_all (\<lambda>p. packetType p = DATA \<and> msgNo p = no) ps" and "pktToMsg c no = Some m"
    and "bw_healthy (conn_writer c)" and "bw_buf (conn_writer c) = []"
  shows "\<exists>c'. route_packets ps c = (None, c') \<and> bw_healthy (conn_writer c') \<and> bw_buf (conn_writer c') = []
    \<and> sent c' = sent c @ frames (acks no (bytesWritten m) ps)"
  using assms
proof (induction ps arbitrary: c m)
  case (Cons p ps)
  let ?m = "snd (Message_Write (body p) m)"
  define c0 where "c0 = c\<lparr>pktToMsg := (pktToMsg c)(no \<mapsto> ?m)\<rparr>"
  from ackBytes_healthy [of c0 no "BytesWritten ?m"] Cons.prems obtain w where
    w: "ackBytes no (BytesWritten ?m) c0 = (None, c0\<lparr>conn_writer := w\<rparr>)" "bw_healthy w" "bw_buf w = []"
       "nc_sent (bw_conn w) = sent c @ frames [ack_packet no (BytesWritten ?m)]"
    by (auto simp: c0_def)
  define c1 where "c1 = c0\<lparr>conn_writer := w\<rparr>"
  have 1: "routePacket p c = (None, c1)"
    using Cons.prems w(1) by (simp add: routePacket_def route_data_def c0_def c1_def)
  have "pktToMsg c1 no = Some ?m" "conn_writer c1 = w" by (simp_all add: c1_def c0_def)
  with Cons.IH [of c1 ?m] Cons.prems(1) w obtain c' where
    "route_packets ps c1 = (None, c')" "bw_healthy (conn_writer c')" "bw_buf (conn_writer c') = []"
    "sent c' = nc_sent (bw_conn w) @ frames (acks no (bytesWritten ?m) ps)" by auto
  then show ?case using w(4)
    by (intro exI [of _ c']) (simp add: 1 frames_def Message_Write_def BytesWritten_def)
qed simp

subsection \<open>The invariant of a connection\<close>

text \<open>
  Tracked and delivered messages satisfy the message invariant, and every tracked number is below the
  next expected one, as long as fewer than \<open>2 ^ 64\<close> packets were routed.
\<close>

definition conn_inv :: "nat \<Rightarrow> Connection \<Rightarrow> bool" where
  "conn_inv n c \<longleftrightarrow> (\<forall>no m. pktToMsg c no = Some m \<longrightarrow> message_ok m) \<and> list_all message_ok (msgs c)
     \<and> (n < 2 ^ 64 \<longrightarrow> unat (incomingmsgno c) \<le> n \<and> (\<forall>no. pktToMsg c no \<noteq> None \<longrightarrow> no < incomingmsgno c))"

text \<open>The steps of a connection, and the connections they reach, with the number of packets routed so far.\<close>

inductive conn_step :: "nat \<times> Connection \<Rightarrow> nat \<times> Connection \<Rightarrow> bool" where
  route: "routePacket p c = (e, c') \<Longrightarrow> conn_step (n, c) (Suc n, c')"
| arrive: "conn_step (n, c) (n, c\<lparr>conn_reader := rd\<rparr>)"
| send: "Connection_Send (Some c) msg = (e, Some c', msg') \<Longrightarrow> conn_step (n, c) (n, c')"
| shut: "conn_step (n, c) (n, Connection_Close k c)"

definition conn_start :: "nat \<times> Connection \<Rightarrow> bool" where
  "conn_start s \<longleftrightarrow> fst s = 0 \<and> (\<exists>fp certs rd nc. snd s = NewConnection fp certs rd nc)"

definition conn_reach :: "nat \<Rightarrow> Connection \<Rightarrow> bool" where
  "conn_reach n c \<longleftrightarrow> (\<exists>s. conn_start s \<and> conn_step\<^sup>*\<^sup>* s (n, c))"

text \<open>What is delivered stays delivered, in the same order, and a closed connection stays closed.\<close>

definition conn_le :: "nat \<times> Connection \<Rightarrow> nat \<times> Connection \<Rightarrow> bool" where
  "conn_le s t \<longleftrightarrow> fst s \<le> fst t \<and> prefix (msgs (snd s)) (msgs (snd t)) \<and> (isClosed (snd s) \<longrightarrow> isClosed (snd t))"

lemma message_ok_of_header [simp]: "message_ok (message_of_header h)"
  by (simp add: message_of_header_def)

lemma assemble_ok:
  assumes "\<forall>no m. t no = Some m \<longrightarrow> message_ok m"
  shows "(\<forall>no m. snd (assemble p t) no = Some m \<longrightarrow> message_ok m) \<and> list_all message_ok (map snd (fst (assemble p t)))"
  using assms by (auto simp: assemble_def message_ok_Write split: PacketType.splits option.splits if_splits)

lemma routePacket_numbers:
  assumes "routePacket p c = (e, c')"
  shows "(incomingmsgno c' = incomingmsgno c \<and> (\<forall>no. pktToMsg c' no \<noteq> None \<longrightarrow> pktToMsg c no \<noteq> None))
    \<or> (incomingmsgno c' = incomingmsgno c + 1 \<and> (\<forall>no. pktToMsg c' no \<noteq> None \<longrightarrow> pktToMsg c no \<noteq> None \<or> no = incomingmsgno c))"
  using assms
  by (cases "packetType p"; cases "pktToMsg c (msgNo p)")
     (auto simp: routePacket_def route_header_def route_data_def route_eof_def route_txerr_def Let_def
        split: if_splits)

lemma routePacket_error_unchanged: "routePacket p c = (Some e, c') \<Longrightarrow> c' = c"
  by (cases "packetType p"; cases "pktToMsg c (msgNo p)")
     (auto simp: routePacket_def route_header_def route_data_def route_eof_def route_txerr_def Let_def
        split: if_splits)

lemma conn_inv_route:
  assumes "conn_inv n c" and "routePacket p c = (e, c')"
  shows "conn_inv (Suc n) c'"
proof -
  have ok: "(\<forall>no m. pktToMsg c' no = Some m \<longrightarrow> message_ok m) \<and> list_all message_ok (msgs c')"
  proof (cases e)
    case None
    then show ?thesis using routePacket_assemble [of p c c'] assms assemble_ok [of "pktToMsg c" p]
      by (simp add: conn_inv_def)
  next
    case (Some x)
    then show ?thesis using routePacket_error_unchanged [of p c x c'] assms by (simp add: conn_inv_def)
  qed
  moreover have "unat (incomingmsgno c') \<le> Suc n \<and> (\<forall>no. pktToMsg c' no \<noteq> None \<longrightarrow> no < incomingmsgno c')"
    if n: "Suc n < 2 ^ 64"
  proof -
    have le: "unat (incomingmsgno c) \<le> n" and lt: "\<forall>no. pktToMsg c no \<noteq> None \<longrightarrow> no < incomingmsgno c"
      using assms(1) n by (auto simp: conn_inv_def)
    have "unat (incomingmsgno c) + 1 < 2 ^ 64" using le n by linarith
    then have suc: "unat (incomingmsgno c + 1) = unat (incomingmsgno c) + 1"
      by (subst unat_add_lem [THEN iffD1]) auto
    then have less: "no < incomingmsgno c \<or> no = incomingmsgno c \<Longrightarrow> no < incomingmsgno c + 1" for no
      by (auto simp: word_less_nat_alt)
    from routePacket_numbers [OF assms(2)] show ?thesis using le lt suc less by (metis Suc_eq_plus1 Suc_leI le_SucI le_imp_less_Suc)
  qed
  ultimately show ?thesis by (simp add: conn_inv_def)
qed

lemma Send_frame:
  assumes "Connection_Send (Some c) msg = (e, Some c', msg')"
  shows "pktToMsg c' = pktToMsg c \<and> msgs c' = msgs c \<and> incomingmsgno c' = incomingmsgno c \<and> isClosed c' = isClosed c"
  using assms by (auto simp: Connection_Send_def Let_def split: if_splits prod.splits option.splits)

lemma routePacket_keeps:
  assumes "routePacket p c = (e, c')"
  shows "prefix (msgs c) (msgs c') \<and> isClosed c' = isClosed c"
proof
  show "prefix (msgs c) (msgs c')"
    using routePacket_assemble [of p c c'] routePacket_error_unchanged [of p c _ c'] assms by (cases e) auto
  show "isClosed c' = isClosed c" using assms
    by (cases "packetType p"; cases "pktToMsg c (msgNo p)")
       (auto simp: routePacket_def route_header_def route_data_def route_eof_def route_txerr_def Let_def split: if_splits)
qed

lemma conn_inv_step:
  assumes "conn_step s t" and "conn_inv (fst s) (snd s)"
  shows "conn_inv (fst t) (snd t)"
  using assms
proof (induction rule: conn_step.induct)
  case (route p c e c' n)
  then show ?case by (auto intro: conn_inv_route)
next
  case (send c msg e c' msg' n)
  then show ?case using Send_frame [OF send(1)] by (simp add: conn_inv_def)
qed (simp_all add: conn_inv_def Connection_Close_def)

lemma conn_le_step: "conn_step s t \<Longrightarrow> conn_le s t"
  by (induction rule: conn_step.induct) (auto simp: conn_le_def Connection_Close_def dest: routePacket_keeps Send_frame)

interpretation conns: monotone_system conn_start conn_step "\<lambda>s. conn_inv (fst s) (snd s)" conn_le
proof unfold_locales
  show "conn_start s \<Longrightarrow> conn_inv (fst s) (snd s)" for s by (auto simp: conn_start_def conn_inv_def NewConnection_def)
qed (auto intro: conn_inv_step conn_le_step, auto simp: conn_le_def dest: prefix_order.trans)

lemma conn_reach_inv: "conn_reach n c \<Longrightarrow> conn_inv n c"
  unfolding conn_reach_def using conns.reach_inv by fastforce

lemma conn_reach_fresh: "conn_reach 0 (NewConnection fp certs rd nc)"
  unfolding conn_reach_def conn_start_def by (intro exI [of _ "(0, NewConnection fp certs rd nc)"]) auto

lemma conn_reach_step: "conn_reach n c \<Longrightarrow> conn_step (n, c) (n', c') \<Longrightarrow> conn_reach n' c'"
  unfolding conn_reach_def by (meson rtranclp.rtrancl_into_rtrancl)

subsection \<open>Properties\<close>

text \<open>
  C1. What is sent is what arrives. Messages sent one after the other on a healthy connection are all
  accepted, and a peer that expects the number of the first one and reads the bytes that were
  sent delivers exactly these messages, in order and each once, with their payload in the same
  pieces (\<open>received_message\<close>: header texts with invalid UTF-8 replaced, the identifying token dropped),
  then closes its channel, expects the next number and tracks no message.
\<close>

theorem send_receive:
  assumes "conn_healthy conn" and "list_all message_fits ms" and "send_all ms conn = (es, conn')"
    and "pktToMsg peer = (\<lambda>_. None)" and "incomingmsgno peer = outgoingmsgno conn"
    and "sent conn' = sent conn @ rd_data (conn_reader peer)"
  shows "es = replicate (length ms) None
    \<and> (\<exists>peer' seen'. packetReader (Some peer) seen =
         Ret (Some (ReadFailed (ReadlineError (rd_err (conn_reader peer)))), Some peer', seen')
       \<and> msgs peer' = msgs peer @ map received_message ms \<and> msgs_closed peer'
       \<and> incomingmsgno peer' = outgoingmsgno conn' \<and> pktToMsg peer' = (\<lambda>_. None))"
proof -
  from send_all_healthy [OF assms(1,2)] assms(3) have es: "es = replicate (length ms) None"
    and no: "outgoingmsgno conn' = outgoingmsgno conn + of_nat (length ms)"
    and "sent conn' = sent conn @ frames (numbered_packets (outgoingmsgno conn) ms)" by auto
  with assms(5,6) have "conn_reader peer = \<lparr>rd_data = frames (numbered_packets (incomingmsgno peer) ms),
      rd_err = rd_err (conn_reader peer)\<rparr>" by simp
  from deliver_frames [OF assms(2,4) this, of seen] obtain w where "packetReader (Some peer) seen =
      Ret (Some (ReadFailed (ReadlineError (rd_err (conn_reader peer)))),
        Some (peer\<lparr>conn_reader := \<lparr>rd_data = [], rd_err = rd_err (conn_reader peer)\<rparr>, conn_writer := w,
             incomingmsgno := incomingmsgno peer + of_nat (length ms),
             msgs := msgs peer @ map received_message ms, msgs_closed := True\<rparr>),
        seen + of_nat (length (numbered_packets (incomingmsgno peer) ms)))" by blast
  with es no assms(4,5) show ?thesis by auto
qed

text \<open>A connection and a message for the examples.\<close>

definition demo_conn :: Connection where
  "demo_conn = NewConnection (\<lambda>_. []) [] \<lparr>rd_data = [], rd_err = ''EOF''\<rparr> \<lparr>nc_sent = [], nc_fail = None\<rparr>"

definition demo_msg :: Message where
  "demo_msg = snd (Message_Write ''hi'' (SetRequestID 5 (SetAction ''ping'' NewRequestMessage)))"

lemma demo_ok: "message_ok demo_msg"
  unfolding demo_msg_def by (intro message_ok_Write) (simp add: NewRequestMessage_def)

lemma demo_conn_healthy: "conn_healthy demo_conn"
  by (simp add: demo_conn_def NewConnection_def conn_healthy_def bw_healthy_def)

lemma dec_uint_length: "length (dec_uint w) \<le> 20"
  using unsigned_less [of w, where 'a = nat] unfolding dec_uint_def by (intro dec_nat_length) auto

lemma dec_nat_small: "n < 10000 \<Longrightarrow> length (dec_nat n) \<le> 4"
  using dec_nat_length [of n 4] by simp

lemma dec_int_length: "length (dec_int w) \<le> 21"
proof -
  have "nat (- sint w) < 10 ^ 20" "nat (sint w) < 10 ^ 20"
    using sint_bounds64 [of w] by (auto simp: nat_less_iff)
  then have "length (dec_nat (nat (- sint w))) \<le> 20" "length (dec_nat (nat (sint w))) \<le> 20"
    by (intro dec_nat_length; simp)+
  then show ?thesis by (simp add: dec_int_def)
qed

text \<open>Messages with a short header and short packets fit.\<close>

lemma short_packet_fits:
  assumes "packetTypeBytes (packetType p) = Inr tb" and "packet_body p = (None, b)" and "length b < 2000"
  shows "packet_fits p"
  using packetTypeBytes_inverse [OF assms(1)] dec_uint_length [of "msgNo p"] dec_nat_small [of "length b"] assms
  by (simp add: packet_fits_def packet_frame_def header_line_def packet_names maxAlloc_def)

lemma small_message_fits:
  assumes "mRequestID msg \<noteq> 0" and "message_ok msg" and "list_all (\<lambda>p. length (body p) < 2000) (packets msg)"
    and "\<And>j. header_json (header_of msg) = Inr j \<Longrightarrow> length (print_json j) < 1000"
    and "\<exists>j. header_json (header_of msg) = Inr j"
  shows "message_fits msg"
proof -
  obtain j where j: "header_json (header_of msg) = Inr j" using assms(5) by blast
  have "packet_fits (header_packet no msg)" for no
    using assms(4) [OF j] j
    by (intro short_packet_fits [where b = "print_json j @ [LF]"]) (auto simp: header_packet_def packet_body_eq)
  moreover have "packet_fits (p\<lparr>msgNo := no\<rparr>)" if "p \<in> set (packets msg)" for p no
    using that assms(2,3)
    by (intro short_packet_fits [where b = "body p"]) (auto simp: packet_body_eq message_ok_def list_all_iff)
  moreover have "packet_fits (eof_packet no)" for no
    by (intro short_packet_fits [where b = "[]"]) (auto simp: packet_body_eq eof_packet_def)
  ultimately show ?thesis using assms(1,2) by (auto simp: message_fits_def toPackets_def Let_def list_all_iff)
qed

lemma demo_header_length:
  "header_json (header_of (demo_msg\<lparr>mRequestID := r\<rparr>)) = Inr j \<Longrightarrow> length (print_json j) < 1000"
  using dec_int_length [of r]
  by (auto simp: header_json_def header_of_def demo_msg_def NewRequestMessage_def NewMessage_def message_setters
      message_getters Message_Write_def header_members_def omitempty_def print_json_def json_string_def enc_string_plain
      plain_def html_safe_def json_int_def json_literal_def quoted_def dec_int_def [of 0] dec_nat.simps)

lemma demo_fits_any: "r \<noteq> 0 \<Longrightarrow> message_fits (demo_msg\<lparr>mRequestID := r\<rparr>)"
proof (rule small_message_fits)
  show "message_ok (demo_msg\<lparr>mRequestID := r\<rparr>)" using demo_ok by (simp add: message_ok_def Message_Bytes_eq)
  show "\<exists>j. header_json (header_of (demo_msg\<lparr>mRequestID := r\<rparr>)) = Inr j"
    by (simp add: header_json_Inr_iff header_of_def demo_msg_def NewRequestMessage_def NewMessage_def message_setters
        Message_Write_def)
qed (auto simp: demo_header_length demo_msg_def Message_Write_def NewRequestMessage_def NewMessage_def message_setters)

lemma demo_fits: "message_fits demo_msg"
proof -
  have "demo_msg\<lparr>mRequestID := 5\<rparr> = demo_msg" by (simp add: demo_msg_def Message_Write_def message_setters)
  with demo_fits_any [of 5] show ?thesis by simp
qed

theorem send_receive_witness:
  "\<exists>conn' peer' seen'. send_all [demo_msg, demo_msg] demo_conn = ([None, None], conn')
    \<and> packetReader (Some (demo_conn\<lparr>conn_reader := \<lparr>rd_data = sent conn', rd_err = ''EOF''\<rparr>\<rparr>)) 0
        = Ret (Some (ReadFailed (ReadlineError ''EOF'')), Some peer', seen')
    \<and> msgs peer' = [received_message demo_msg, received_message demo_msg]"
proof -
  obtain es conn' where send: "send_all [demo_msg, demo_msg] demo_conn = (es, conn')" by (metis prod.exhaust)
  define peer where "peer = demo_conn\<lparr>conn_reader := \<lparr>rd_data = sent conn', rd_err = ''EOF''\<rparr>\<rparr>"
  have fits: "list_all message_fits [demo_msg, demo_msg]" by (simp add: demo_fits)
  have "pktToMsg peer = (\<lambda>_. None)" "incomingmsgno peer = outgoingmsgno demo_conn" "msgs peer = []"
    "rd_err (conn_reader peer) = ''EOF''" "sent conn' = sent demo_conn @ rd_data (conn_reader peer)"
    by (simp_all add: peer_def demo_conn_def NewConnection_def)
  with send_receive [OF demo_conn_healthy fits send, of peer 0] obtain peer' seen' where
    "es = [None, None]" "packetReader (Some peer) 0 = Ret (Some (ReadFailed (ReadlineError ''EOF'')), Some peer', seen')"
    "msgs peer' = [received_message demo_msg, received_message demo_msg]" by (auto simp: numeral_2_eq_2)
  with send show ?thesis unfolding peer_def by blast
qed

text \<open>
  \<^verbatim>\<open>Send\<close> on a nil connection, and \<^verbatim>\<open>Send\<close> of a message without a request id, return an error and
  change nothing.
\<close>

lemma send_refused:
  "Connection_Send None msg = (Some ''cannot send on nil connection'', None, msg)
   \<and> Connection_Send (Some conn) (msg\<lparr>mRequestID := 0\<rparr>)
       = (Some ''must specify `ReqestId` on msg before sending'', Some conn, msg\<lparr>mRequestID := 0\<rparr>)"
  by (simp add: Connection_Send_def)

text \<open>
  C27. Once the writer of a connection has failed, nothing more of any message is written, and \<^verbatim>\<open>Send\<close>
  retries until its limit and reports that; but when the error text names a broken pipe, the error is
  lost in an inner variable and \<^verbatim>\<open>Send\<close> returns without an error (with the error of the closed flag, if
  it is set).
\<close>

theorem send_after_failure:
  assumes "bw_err (conn_writer conn) = Some e" and "message_fits msg"
  shows "Connection_Send (Some conn) msg =
    ((if gone (header_err e) then (if isClosed conn then Some ''connection already closed'' else None)
      else Some (retried (header_err e))),
     Some (conn\<lparr>outgoingmsgno := outgoingmsgno conn + 1\<rparr>), snd (toPackets (outgoingmsgno conn) msg))"
  by (rule Send_failed [OF assms])

theorem send_after_failure_witness:
  "fst (Connection_Send (Some (demo_conn\<lparr>conn_writer := (conn_writer demo_conn)\<lparr>bw_err := Some ''write: broken pipe''\<rparr>\<rparr>)) demo_msg)
     = None"
proof -
  have "gone (header_err ''write: broken pipe'')" by (simp add: gone_def header_err_def)
  then show ?thesis
    using send_after_failure [of "demo_conn\<lparr>conn_writer := (conn_writer demo_conn)\<lparr>bw_err := Some ''write: broken pipe''\<rparr>\<rparr>"
        "''write: broken pipe''" demo_msg] demo_fits
    by (simp add: demo_conn_def NewConnection_def)
qed

text \<open>
  C28. A message whose header cannot be marshalled is reported as an error and nothing of it is written,
  but it uses up a message number: a peer that had received everything so far then refuses the header
  of the next message as out of sequence.
\<close>

theorem send_unmarshallable_desync:
  assumes "header_json (header_of msg) = Inl e" and "mRequestID msg \<noteq> 0"
    and "incomingmsgno peer = outgoingmsgno conn"
  shows "\<exists>conn' msg'. Connection_Send (Some conn) msg = (Some (retried (header_err e)), Some conn', msg')
    \<and> conn_writer conn' = conn_writer conn
    \<and> (\<exists>t. routePacket (header_packet (outgoingmsgno conn') next) peer = (Some t, peer))"
proof -
  have "outgoingmsgno conn + 1 \<noteq> outgoingmsgno conn" by simp
  then show ?thesis using Send_unmarshallable [OF assms(1,2), of conn] assms(3)
    by (simp add: routePacket_def route_header_def header_packet_def)
qed

theorem send_unmarshallable_desync_witness:
  "\<exists>t. fst (routePacket (header_packet 1 demo_msg) demo_conn) = Some t"
proof -
  let ?m = "SetRequestID 5 NewMessage"
  have e: "\<exists>e. header_json (header_of ?m) = Inl e"
    by (simp add: header_json_def header_of_def message_setters message_getters NewMessage_def)
  then obtain e where e: "header_json (header_of ?m) = Inl e" ..
  have "mRequestID ?m \<noteq> 0" by (simp add: message_setters)
  from send_unmarshallable_desync [OF e this, of demo_conn demo_conn demo_msg] Send_unmarshallable [OF e this, of demo_conn]
  show ?thesis by (auto simp: demo_conn_def NewConnection_def)
qed

text \<open>
  C9. Interleaving: whatever the order in which the packets of several messages arrive, when they are all
  routed without an error, what is delivered and what is still tracked under a message number is
  what the abstract reassembler makes of the packets with that number alone.
\<close>

theorem interleaved_messages_independent:
  assumes "route_packets ps c = (None, c')"
  shows "\<exists>ds. msgs c' = msgs c @ map snd ds
    \<and> (\<forall>no. filter (\<lambda>d. fst d = no) ds = fst (assemble_all (filter (\<lambda>p. msgNo p = no) ps) (pktToMsg c))
          \<and> pktToMsg c' no = snd (assemble_all (filter (\<lambda>p. msgNo p = no) ps) (pktToMsg c)) no)"
  using route_packets_assemble [OF assms] assemble_all_project [of "pktToMsg c" _ "pktToMsg c" ps]
  by (intro exI [of _ "fst (assemble_all ps (pktToMsg c))"]) auto

theorem interleaved_messages_independent_witness:
  "msgs (snd (route_packets [header_packet 0 demo_msg, header_packet 1 NewMessage, eof_packet 1, eof_packet 0] demo_conn))
     = [message_of_header (header_of NewMessage), message_of_header (header_of demo_msg)]"
proof -
  let ?ps = "[header_packet 0 demo_msg, header_packet 1 NewMessage, eof_packet 1, eof_packet 0]"
  have r: "route_packets ?ps demo_conn = (None, snd (route_packets ?ps demo_conn))"
    by (simp add: routePacket_def route_header_def route_eof_def header_packet_def eof_packet_def demo_conn_def NewConnection_def)
  from interleaved_messages_independent [OF r] show ?thesis
    by (simp add: routePacket_def route_header_def route_eof_def header_packet_def eof_packet_def demo_conn_def NewConnection_def)
qed

text \<open>
  Every \<^verbatim>\<open>DATA\<close> packet of a tracked message is acknowledged on the wire with the number of bytes
  received so far (modulo 64 bits), in order, when the writer is healthy.
\<close>

lemma data_acknowledged:
  assumes "list_all (\<lambda>p. packetType p = DATA \<and> msgNo p = no) ps" and "pktToMsg c no = Some m"
    and "bw_healthy (conn_writer c)" and "bw_buf (conn_writer c) = []"
  shows "\<exists>c'. route_packets ps c = (None, c') \<and> sent c' = sent c @ frames (acks no (bytesWritten m) ps)"
  using route_data_acks [OF assms] by blast

text \<open>
  C10. In every reachable connection the tracked and the delivered messages satisfy the message
  invariant, and (before \<open>2 ^ 64\<close> packets) a header packet with the expected number is always
  accepted: the branch that finds the number already tracked is dead. Whatever happens afterwards,
  what was delivered stays delivered in the same order, and a closed connection is not reopened.
\<close>

theorem connection_invariant:
  assumes "conn_reach n c" and "conn_step\<^sup>*\<^sup>* (n, c) (n', c')"
  shows "(\<forall>no m. pktToMsg c no = Some m \<longrightarrow> message_ok m) \<and> list_all message_ok (msgs c)
    \<and> (n < 2 ^ 64 \<longrightarrow> packetType p = HEADER \<longrightarrow> msgNo p = incomingmsgno c \<longrightarrow> fst (routePacket p c) = None)
    \<and> prefix (msgs c) (msgs c') \<and> (isClosed c \<longrightarrow> isClosed c')"
proof -
  have inv: "conn_inv n c" by (rule conn_reach_inv [OF assms(1)])
  have "conn_le (n, c) (n', c')" using conns.steps_le [OF assms(2)] inv by simp
  have "pktToMsg c (incomingmsgno c) = None" if "n < 2 ^ 64"
    using inv that unfolding conn_inv_def by (metis less_irrefl not_None_eq)
  with inv \<open>conn_le (n, c) (n', c')\<close> show ?thesis by (simp add: conn_inv_def conn_le_def routePacket_def route_header_def)
qed

theorem connection_invariant_witness:
  "fst (routePacket (header_packet 1 demo_msg) (snd (routePacket (header_packet 0 demo_msg) demo_conn))) = None"
proof -
  let ?c = "snd (routePacket (header_packet 0 demo_msg) demo_conn)"
  have "conn_reach 0 demo_conn" unfolding demo_conn_def by (rule conn_reach_fresh)
  then have "conn_reach (Suc 0) ?c" by (rule conn_reach_step) (rule conn_step.route, rule prod.collapse [symmetric])
  from connection_invariant [OF this rtranclp.rtrancl_refl, of "header_packet 1 demo_msg"] show ?thesis
    by (simp add: header_packet_def routePacket_def route_header_def demo_conn_def NewConnection_def)
qed

text \<open>Closing is idempotent and delivers nothing.\<close>

lemma connection_close_idempotent:
  "Connection_Close j (Connection_Close k c) = Connection_Close k c \<and> isClosed (Connection_Close k c)
   \<and> msgs (Connection_Close k c) = msgs c"
  by (simp add: Connection_Close_def)

subsection \<open>The reader loop as a whole\<close>










end
