(* ===== verification/Client.thy ===== *)
theory Client
  imports Connection_Laws "HOL-Library.AList"
begin

text \<open>
  Clients (\<^verbatim>\<open>scamp/client.go\<close>): sending with a request id and registering the channel of the reply,
  splitting the messages of the connection into requests and replies, and closing.

  A channel is the list of the messages that were sent on it and whether it is closed. The channels
  of replies are numbered in the order of their creation; \<^verbatim>\<open>openReplies\<close> maps a request id to one of
  them. What the other components provide to \<^verbatim>\<open>Close\<close> are arguments: the client slots of the service
  proxies in the default cache, and the service's \<^verbatim>\<open>RemoveClient\<close>. The lock \<open>closedM\<close> is a field, because \<^verbatim>\<open>RemoveClient\<close> may call
  \<^verbatim>\<open>Close\<close> again while it is held.
\<close>

record chan =
  ch_msgs :: "Message list"
  ch_closed :: bool

definition new_chan :: chan where "new_chan = \<lparr>ch_msgs = [], ch_closed = False\<rparr>"

record Client =
  cl_conn :: "Connection option"
  cl_serv :: bool
  requests :: chan
  reply_chans :: "chan list"
  openReplies :: "(goint \<times> nat) list"
  cl_isClosed :: bool
  closedM :: bool
  nextRequestID :: goint
  spIdent :: bytes

definition NewClient :: "Connection \<Rightarrow> Client" where
  "NewClient conn = \<lparr>cl_conn = Some conn, cl_serv = False, requests = new_chan, reply_chans = [],
     openReplies = [], cl_isClosed = False, closedM = False, nextRequestID = 0, spIdent = []\<rparr>"

definition SetService :: "Client \<Rightarrow> Client" where "SetService client = client\<lparr>cl_serv := True\<rparr>"

subsection \<open>Sending\<close>

text \<open>
  \<^verbatim>\<open>Send\<close> in its two parts, because replies may arrive between them: the message goes out with
  the next request id, and (for a request) a channel for its reply is registered.
\<close>

definition send_out :: "Message \<Rightarrow> Client \<Rightarrow> gerror option \<times> Client \<times> Message" where
  "send_out msg client =
     (let rid = nextRequestID client + 1;
          msg1 = msg\<lparr>mRequestID := rid\<rparr>
      in case Connection_Send (cl_conn client) msg1 of
           (err, conn', msg2) \<Rightarrow> (err, client\<lparr>nextRequestID := rid, cl_conn := conn'\<rparr>, msg2))"

definition register_reply :: "Message \<Rightarrow> Client \<Rightarrow> nat option \<times> Client" where
  "register_reply msg client =
     (if mMessageType msg = MessageTypeRequest then
        (Some (length (reply_chans client)),
         client\<lparr>reply_chans := reply_chans client @ [new_chan],
                openReplies := AList.update (mRequestID msg) (length (reply_chans client)) (openReplies client)\<rparr>)
      else (None, client))"

definition Client_Send :: "Message \<Rightarrow> Client \<Rightarrow> (nat option \<times> gerror option) \<times> Client \<times> Message" where
  "Client_Send msg client = (case send_out msg client of
     (Some e, client1, msg1) \<Rightarrow> ((None, Some e), client1, msg1)
   | (None, client1, msg1) \<Rightarrow> (case register_reply msg1 client1 of
       (responseChan, client2) \<Rightarrow> ((responseChan, None), client2, msg1)))"

subsection \<open>Closing\<close>

definition nil_deref :: string where "nil_deref = ''invalid memory address or nil pointer dereference''"

text \<open>The connection is shut and forgotten; it is returned because its reader goes on with it.\<close>

definition closeConnection :: "nat \<Rightarrow> Client \<Rightarrow> (Connection \<times> Client) go" where
  "closeConnection k client = (case cl_conn client of
     None \<Rightarrow> Panic nil_deref
   | Some conn \<Rightarrow> Ret (if \<not> isClosed conn then Connection_Close k conn else conn, client\<lparr>cl_conn := None\<rparr>))"

text \<open>
  The proxies of the default cache by ident, each with the number of its client, if it has one. The
  cache is \<open>None\<close> before the package is initialised.
\<close>

type_synonym proxy_slots = "bytes \<Rightarrow> nat option option"

text \<open>The proxy that the client was dialed for forgets it.\<close>

definition forget_slot :: "proxy_slots option \<Rightarrow> Client \<Rightarrow> proxy_slots option go" where
  "forget_slot cache client =
     (if length (spIdent client) > 0 then
        (case cache of
           None \<Rightarrow> Panic nil_deref
         | Some slots \<Rightarrow> Ret (Some (case slots (spIdent client) of
             None \<Rightarrow> slots
           | Some _ \<Rightarrow> slots(spIdent client \<mapsto> None))))
      else Ret cache)"

text \<open>
  \<^verbatim>\<open>Close\<close> up to the call of \<^verbatim>\<open>RemoveClient\<close>, and after it. The first part locks \<open>closedM\<close>, for which it waits for ever when the
  lock is held by the same goroutine; it gives the connection it has shut, or none, with the lock released, when the client was closed before.
\<close>

definition close_begin :: "proxy_slots option \<Rightarrow> nat \<Rightarrow> Client \<Rightarrow> (proxy_slots option \<times> Connection option \<times> Client) go" where
  "close_begin cache k client = go_bind (forget_slot cache client) (\<lambda>cache1.
     if closedM client then Deadlock
     else
       (let client1 = client\<lparr>closedM := True\<rparr> in
        if cl_isClosed client1 then Ret (cache1, None, client1\<lparr>closedM := False\<rparr>)
        else go_bind (closeConnection k client1) (\<lambda>(conn, client2). Ret (cache1, Some conn, client2))))"

definition close_finish :: "Client \<Rightarrow> Client" where
  "close_finish client = client\<lparr>cl_isClosed := True, closedM := False\<rparr>"

text \<open>
  The whole of it. \<open>removeClient\<close> is \<^verbatim>\<open>RemoveClient\<close> of the client's service, called with the client as it is then: it returns or
  not, and it changes nothing of the client when it returns (\<open>RemoveClient_locked\<close> in \<open>ServiceRun\<close> shows this of the service's own).
\<close>

definition Client_Close ::
  "(Client \<Rightarrow> unit go) \<Rightarrow> proxy_slots option \<Rightarrow> nat \<Rightarrow> Client \<Rightarrow> (proxy_slots option \<times> Connection option \<times> Client) go" where
  "Client_Close removeClient cache k client = go_bind (close_begin cache k client) (\<lambda>(cache1, conn, client1).
     case conn of
       None \<Rightarrow> Ret (cache1, None, client1)
     | Some _ \<Rightarrow> go_bind (if cl_serv client1 then removeClient client1 else Ret ()) (\<lambda>_. Ret (cache1, conn, close_finish client1)))"

subsection \<open>Splitting requests and replies\<close>

definition chan_send :: "Message \<Rightarrow> chan \<Rightarrow> chan" where
  "chan_send msg c = c\<lparr>ch_msgs := ch_msgs c @ [msg]\<rparr>"

definition split_message :: "Message \<Rightarrow> Client \<Rightarrow> Client" where
  "split_message message client =
     (if mMessageType message = MessageTypeRequest then
        client\<lparr>requests := chan_send message (requests client)\<rparr>
      else if mMessageType message = MessageTypeReply then
        (case map_of (openReplies client) (mRequestID message) of
           None \<Rightarrow> client
         | Some c \<Rightarrow> client\<lparr>openReplies := AList.delete (mRequestID message) (openReplies client),
                            reply_chans := (reply_chans client)[c := chan_send message (reply_chans client ! c)]\<rparr>)
      else client)"

text \<open>After the loop: all channels are closed, and the client too if it is not closed yet.\<close>

definition close_chan :: "chan \<Rightarrow> chan" where "close_chan c = c\<lparr>ch_closed := True\<rparr>"

definition split_end :: "(Client \<Rightarrow> unit go) \<Rightarrow> proxy_slots option \<Rightarrow> nat \<Rightarrow> Client \<Rightarrow> (proxy_slots option \<times> Connection option \<times> Client) go" where
  "split_end removeClient cache k client =
     (let client1 = client\<lparr>requests := close_chan (requests client),
            reply_chans := foldl (\<lambda>cs (rid, i). cs[i := close_chan (cs ! i)]) (reply_chans client) (openReplies client)\<rparr>
      in if cl_isClosed client1 then Ret (cache, None, client1) else Client_Close removeClient cache k client1)"

definition Incoming :: "Client \<Rightarrow> chan" where "Incoming client = requests client"

subsection \<open>The table of open replies\<close>

text \<open>Every open request has a channel of its own.\<close>

definition client_inv :: "Client \<Rightarrow> bool" where
  "client_inv c \<longleftrightarrow> distinct (map fst (openReplies c))
     \<and> (\<forall>r i. map_of (openReplies c) r = Some i \<longrightarrow> i < length (reply_chans c))
     \<and> (\<forall>r r' i. map_of (openReplies c) r = Some i \<longrightarrow> map_of (openReplies c) r' = Some i \<longrightarrow> r = r')"

lemma send_out_fields:
  assumes "send_out msg c = (e, c1, msg1)"
  shows "openReplies c1 = openReplies c \<and> reply_chans c1 = reply_chans c \<and> requests c1 = requests c
    \<and> nextRequestID c1 = nextRequestID c + 1 \<and> mRequestID msg1 = nextRequestID c + 1 \<and> mMessageType msg1 = mMessageType msg
    \<and> cl_isClosed c1 = cl_isClosed c"
proof -
  have "mRequestID m2 = mRequestID m \<and> mMessageType m2 = mMessageType m"
    if "Connection_Send cp m = (e, cp', m2)" for cp m e cp' m2
    using that by (auto simp: Connection_Send_def toPackets_def Let_def split: option.splits if_splits prod.splits)
  then show ?thesis using assms by (fastforce simp: send_out_def Let_def split: prod.splits)
qed

lemma Client_Send_cases:
  assumes "Client_Send msg c = ((ch, err), c', msg')"
  obtains (failed) e where "err = Some e" "ch = None" "send_out msg c = (Some e, c', msg')"
  | (request) c1 where "err = None" "ch = Some (length (reply_chans c))" "send_out msg c = (None, c1, msg')"
      "mMessageType msg = MessageTypeRequest"
      "c' = c1\<lparr>reply_chans := reply_chans c @ [new_chan],
        openReplies := AList.update (nextRequestID c + 1) (length (reply_chans c)) (openReplies c)\<rparr>"
  | (other) "err = None" "ch = None" "send_out msg c = (None, c', msg')" "mMessageType msg \<noteq> MessageTypeRequest"
proof -
  obtain e c1 msg1 where s: "send_out msg c = (e, c1, msg1)" by (metis prod.exhaust)
  note f = send_out_fields [OF s]
  show thesis
  proof (cases e)
    case None
    then show ?thesis using assms s f request other
      by (auto simp: Client_Send_def register_reply_def split: if_splits)
  next
    case (Some x)
    then show ?thesis using assms s by (intro failed [of x]) (auto simp: Client_Send_def)
  qed
qed

lemma client_inv_Send:
  assumes "client_inv c" and "Client_Send msg c = (r, c', msg')"
  shows "client_inv c'"
proof -
  obtain ch err where "Client_Send msg c = ((ch, err), c', msg')" using assms(2) by (metis prod.exhaust)
  then show ?thesis
  proof (cases rule: Client_Send_cases)
    case (failed e)
    then show ?thesis using send_out_fields [OF failed(3)] assms(1) by (simp add: client_inv_def)
  next
    case (request c1)
    then show ?thesis using assms(1)
      by (auto simp: client_inv_def update_conv' less_Suc_eq distinct_update split: if_splits) blast+
  next
    case other
    then show ?thesis using send_out_fields [OF other(3)] assms(1) by (simp add: client_inv_def)
  qed
qed

lemma split_reply:
  assumes "mMessageType m = MessageTypeReply" and "map_of (openReplies c) (mRequestID m) = Some i"
  shows "split_message m c = c\<lparr>openReplies := AList.delete (mRequestID m) (openReplies c),
    reply_chans := (reply_chans c)[i := chan_send m (reply_chans c ! i)]\<rparr>"
  using assms by (simp add: split_message_def)

lemma split_other:
  assumes "\<not> (mMessageType m = MessageTypeReply \<and> (\<exists>i. map_of (openReplies c) (mRequestID m) = Some i))"
  shows "openReplies (split_message m c) = openReplies c \<and> reply_chans (split_message m c) = reply_chans c
    \<and> nextRequestID (split_message m c) = nextRequestID c"
  using assms by (auto simp: split_message_def split: option.splits)

lemma client_inv_split: "client_inv c \<Longrightarrow> client_inv (split_message m c)"
proof (cases "mMessageType m = MessageTypeReply \<and> (\<exists>i. map_of (openReplies c) (mRequestID m) = Some i)")
  case True
  then obtain i where "mMessageType m = MessageTypeReply" "map_of (openReplies c) (mRequestID m) = Some i" by blast
  then show "client_inv c \<Longrightarrow> ?thesis"
    by (auto simp: split_reply client_inv_def delete_conv' distinct_delete split: if_splits)
next
  case False
  from split_other [OF False] show "client_inv c \<Longrightarrow> ?thesis" by (simp add: client_inv_def)
qed

subsection \<open>The life of one request\<close>

text \<open>What happens at a client after a request was sent: further sends, and messages that arrive.\<close>

datatype client_event = Sent Message | Got Message

primrec client_run :: "client_event \<Rightarrow> Client \<Rightarrow> Client" where
  "client_run (Sent msg) c = fst (snd (Client_Send msg c))"
| "client_run (Got m) c = split_message m c"

primrec replies_to :: "goint \<Rightarrow> client_event \<Rightarrow> Message list" where
  "replies_to r (Sent _) = []"
| "replies_to r (Got m) = (if mMessageType m = MessageTypeReply \<and> mRequestID m = r then [m] else [])"

definition is_sent :: "client_event \<Rightarrow> bool" where
  "is_sent ev = (case ev of Sent _ \<Rightarrow> True | Got _ \<Rightarrow> False)"

definition waiting :: "goint \<Rightarrow> nat \<Rightarrow> Client \<Rightarrow> bool" where
  "waiting r i c \<longleftrightarrow> client_inv c \<and> map_of (openReplies c) r = Some i \<and> ch_msgs (reply_chans c ! i) = []"

definition answered :: "nat \<Rightarrow> Message \<Rightarrow> Client \<Rightarrow> bool" where
  "answered i m c \<longleftrightarrow> client_inv c \<and> i < length (reply_chans c)
     \<and> (\<forall>r. map_of (openReplies c) r \<noteq> Some i) \<and> ch_msgs (reply_chans c ! i) = [m]"

lemma client_inv_run: "client_inv c \<Longrightarrow> client_inv (client_run ev c)"
proof (cases ev)
  case (Sent msg)
  then show "client_inv c \<Longrightarrow> ?thesis" using client_inv_Send [of c msg] by (metis client_run.simps(1) prod.collapse)
next
  case (Got m)
  then show "client_inv c \<Longrightarrow> ?thesis" by (simp add: client_inv_split)
qed

lemma nextRequestID_run: "nextRequestID (client_run ev c) = nextRequestID c + (if is_sent ev then 1 else 0)"
proof (cases ev)
  case (Sent msg)
  obtain ch err c' msg' where s: "Client_Send msg c = ((ch, err), c', msg')" by (metis prod.exhaust)
  then have "nextRequestID c' = nextRequestID c + 1"
    by (cases rule: Client_Send_cases) (use send_out_fields in fastforce)+
  with Sent s show ?thesis by (simp add: is_sent_def)
next
  case (Got m)
  then show ?thesis by (auto simp: is_sent_def split_message_def split: option.splits)
qed

text \<open>A send only adds an entry for the next request id, with a channel that is new.\<close>

lemma Client_Send_table:
  assumes "Client_Send msg c = ((ch, err), c', msg')"
  shows "(\<exists>cs. reply_chans c' = reply_chans c @ cs)
    \<and> (\<forall>r. r \<noteq> nextRequestID c + 1 \<longrightarrow> map_of (openReplies c') r = map_of (openReplies c) r)
    \<and> (\<forall>r i. map_of (openReplies c') r = Some i \<longrightarrow> map_of (openReplies c) r = Some i \<or> i = length (reply_chans c))"
  using assms
proof (cases rule: Client_Send_cases)
  case (failed e)
  then show ?thesis using send_out_fields [OF failed(3)] by simp
next
  case (request c1)
  then show ?thesis by (simp add: update_conv')
next
  case other
  then show ?thesis using send_out_fields [OF other(3)] by simp
qed

lemma waiting_run:
  assumes "waiting r i c" and "is_sent ev \<longrightarrow> nextRequestID c + 1 \<noteq> r"
  shows "case replies_to r ev of [] \<Rightarrow> waiting r i (client_run ev c) | m # _ \<Rightarrow> answered i m (client_run ev c)"
proof (cases ev)
  case (Sent msg)
  obtain ch err c' msg' where s: "Client_Send msg c = ((ch, err), c', msg')" by (metis prod.exhaust)
  have "i < length (reply_chans c)" using assms(1) unfolding waiting_def client_inv_def by blast
  with Client_Send_table [OF s] assms Sent client_inv_run [of c ev] s show ?thesis
    by (auto simp: waiting_def is_sent_def nth_append)
next
  case (Got m)
  note inv = client_inv_run [of c ev]
  have i: "i < length (reply_chans c)" using assms(1) unfolding waiting_def client_inv_def by blast
  show ?thesis
  proof (cases "mMessageType m = MessageTypeReply \<and> (\<exists>j. map_of (openReplies c) (mRequestID m) = Some j)")
    case True
    then obtain j where j: "mMessageType m = MessageTypeReply" "map_of (openReplies c) (mRequestID m) = Some j" by blast
    have inv': "client_inv (split_message m c)" using inv assms(1) Got by (simp add: waiting_def)
    show ?thesis
    proof (cases "mRequestID m = r")
      case True
      then have "j = i" using assms(1) j(2) by (simp add: waiting_def)
      moreover have "map_of (openReplies c) r' \<noteq> Some i" if "r' \<noteq> r" for r'
        using assms(1) that unfolding waiting_def client_inv_def by blast
      ultimately have "answered i m (split_message m c)"
        using inv' True i assms(1) by (simp add: answered_def split_reply [OF j] delete_conv' chan_send_def waiting_def)
      then show ?thesis using True j(1) Got by simp
    next
      case False
      then have "j \<noteq> i" using assms(1) j(2) unfolding waiting_def client_inv_def by blast
      then have "waiting r i (split_message m c)"
        using inv' False assms(1) by (simp add: waiting_def split_reply [OF j] delete_conv')
      then show ?thesis using False Got by simp
    qed
  next
    case False
    then have "\<not> (mMessageType m = MessageTypeReply \<and> mRequestID m = r)" using assms(1) by (auto simp: waiting_def)
    then show ?thesis using assms(1) split_other [OF False] inv Got by (auto simp: waiting_def)
  qed
qed

lemma answered_run:
  assumes "answered i m c"
  shows "answered i m (client_run ev c)"
proof (cases ev)
  case (Sent msg)
  obtain ch err c' msg' where s: "Client_Send msg c = ((ch, err), c', msg')" by (metis prod.exhaust)
  have "i \<noteq> length (reply_chans c)" using assms by (auto simp: answered_def)
  with Client_Send_table [OF s] assms Sent client_inv_run [of c ev] s show ?thesis
    by (fastforce simp: answered_def nth_append)
next
  case (Got m')
  note inv = client_inv_run [of c ev]
  show ?thesis
  proof (cases "mMessageType m' = MessageTypeReply \<and> (\<exists>j. map_of (openReplies c) (mRequestID m') = Some j)")
    case True
    then obtain j where j: "mMessageType m' = MessageTypeReply" "map_of (openReplies c) (mRequestID m') = Some j" by blast
    then have "j \<noteq> i" using assms by (auto simp: answered_def)
    then show ?thesis using assms j inv Got by (auto simp: answered_def split_reply delete_conv' split: if_splits)
  next
    case False
    then show ?thesis using assms split_other [OF False] inv Got by (auto simp: answered_def)
  qed
qed

lemma answered_runs: "answered i m c \<Longrightarrow> answered i m (fold client_run evs c)"
  by (induction evs arbitrary: c) (auto simp: answered_run)

text \<open>
  The request id does not come round again within \<open>2 ^ 64 - 1\<close> sends. \<open>d\<close> counts the sends since the
  request was sent.
\<close>

lemma waiting_runs:
  assumes "waiting r i c" and "nextRequestID c = r + of_nat d" and "d + length (filter is_sent evs) < 2 ^ 64 - 1"
  shows "case concat (map (replies_to r) evs) of
     [] \<Rightarrow> waiting r i (fold client_run evs c) | m # _ \<Rightarrow> answered i m (fold client_run evs c)"
  using assms
proof (induction evs arbitrary: c d)
  case (Cons ev evs)
  have d: "Suc d < 2 ^ 64" using Cons.prems(3) by simp
  have "nextRequestID c + 1 \<noteq> r"
  proof
    assume "nextRequestID c + 1 = r"
    then have "(of_nat (Suc d) :: goint) = 0" using Cons.prems(2) by (simp add: algebra_simps)
    then have "(2 :: nat) ^ 64 dvd Suc d" by (subst (asm) word_of_nat_eq_0_iff) simp
    then show False using d by (auto dest: dvd_imp_le)
  qed
  then have step: "case replies_to r ev of [] \<Rightarrow> waiting r i (client_run ev c) | m # _ \<Rightarrow> answered i m (client_run ev c)"
    using waiting_run [OF Cons.prems(1)] by blast
  show ?case
  proof (cases "replies_to r ev")
    case Nil
    let ?d = "d + (if is_sent ev then 1 else 0)"
    have "waiting r i (client_run ev c)" using step Nil by simp
    moreover have "nextRequestID (client_run ev c) = r + of_nat ?d" using Cons.prems(2) by (simp add: nextRequestID_run)
    moreover have "?d + length (filter is_sent evs) < 2 ^ 64 - 1" using Cons.prems(3) by (simp split: if_splits)
    ultimately show ?thesis using Cons.IH [of "client_run ev c" ?d] Nil
      by (cases "concat (map (replies_to r) evs)") (simp_all del: concat_eq_Nil_conv)
  next
    case (Cons m ms)
    then show ?thesis using step answered_runs by simp
  qed
qed (simp)

lemma Client_Send_waiting:
  assumes "client_inv c" and "Client_Send msg c = ((Some ch, None), c', msg')"
  shows "waiting (nextRequestID c + 1) ch c' \<and> nextRequestID c' = nextRequestID c + 1 \<and> mRequestID msg' = nextRequestID c + 1"
  using assms(2)
proof (cases rule: Client_Send_cases)
  case (request c1)
  then show ?thesis using client_inv_Send [OF assms] send_out_fields [OF request(3)]
    by (simp add: waiting_def update_conv' new_chan_def nth_append)
qed simp_all

lemma Client_Send_id:
  assumes "Client_Send msg c = (r, c', msg')"
  shows "mRequestID msg' = nextRequestID c + 1"
proof -
  obtain ch err where "Client_Send msg c = ((ch, err), c', msg')" using assms by (metis prod.exhaust)
  then show ?thesis by (cases rule: Client_Send_cases) (auto dest: send_out_fields)
qed

subsection \<open>The steps of a client\<close>

text \<open>
  A client gets messages as long as its splitting loop runs, that is until \<open>split_end\<close> has closed the channel of requests;
  sending and closing are possible at any time.
\<close>

inductive client_step :: "Client \<Rightarrow> Client \<Rightarrow> bool" where
  serve: "client_step c (SetService c)"
| sends: "client_step c (client_run (Sent msg) c)"
| gets: "\<not> ch_closed (requests c) \<Longrightarrow> client_step c (client_run (Got m) c)"
| shut: "Client_Close removeClient cache k c = Ret (cache', conn, c') \<Longrightarrow> client_step c c'"
| ends: "split_end removeClient cache k c = Ret (cache', conn, c') \<Longrightarrow> client_step c c'"

definition client_start :: "Client \<Rightarrow> bool" where "client_start c \<longleftrightarrow> (\<exists>conn. c = NewClient conn)"

definition client_reach :: "Client \<Rightarrow> bool" where
  "client_reach c \<longleftrightarrow> (\<exists>c0. client_start c0 \<and> client_step\<^sup>*\<^sup>* c0 c)"

definition life_inv :: "Client \<Rightarrow> bool" where
  "life_inv c \<longleftrightarrow> client_inv c \<and> (cl_isClosed c \<longleftrightarrow> cl_conn c = None) \<and> \<not> closedM c
     \<and> (\<forall>ch\<in>set (reply_chans c). ch_closed ch \<longrightarrow> ch_closed (requests c))"

text \<open>Messages are only appended to a channel, and nothing changes in a closed one (Go panics on a send to it).\<close>

definition chan_le :: "chan \<Rightarrow> chan \<Rightarrow> bool" where
  "chan_le a b \<longleftrightarrow> prefix (ch_msgs a) (ch_msgs b) \<and> (ch_closed a \<longrightarrow> b = a)"

definition client_le :: "Client \<Rightarrow> Client \<Rightarrow> bool" where
  "client_le c c' \<longleftrightarrow> (cl_isClosed c \<longrightarrow> cl_isClosed c') \<and> chan_le (requests c) (requests c')
     \<and> length (reply_chans c) \<le> length (reply_chans c')
     \<and> (\<forall>i < length (reply_chans c). chan_le (reply_chans c ! i) (reply_chans c' ! i))"

lemma chan_le_refl [simp]: "chan_le a a" by (simp add: chan_le_def)

lemma chan_le_trans: "chan_le a b \<Longrightarrow> chan_le b c \<Longrightarrow> chan_le a c"
  by (auto simp: chan_le_def dest: prefix_order.trans)

lemma client_le_trans: "client_le c d \<Longrightarrow> client_le d e \<Longrightarrow> client_le c e"
  by (auto simp: client_le_def intro: chan_le_trans)

lemma closedM_unlocked: "\<not> closedM c \<Longrightarrow> c\<lparr>closedM := False\<rparr> = c" by (cases c) simp

lemma close_begin_Ret:
  "close_begin cache k c = Ret (cache', conn, c') \<longleftrightarrow> forget_slot cache c = Ret cache' \<and> \<not> closedM c
     \<and> (if cl_isClosed c then conn = None \<and> c' = c
        else \<exists>conn0. cl_conn c = Some conn0 \<and> conn = Some (if \<not> isClosed conn0 then Connection_Close k conn0 else conn0)
          \<and> c' = c\<lparr>closedM := True, cl_conn := None\<rparr>)"
  by (auto simp: close_begin_def closeConnection_def go_bind_Ret_conv closedM_unlocked Let_def split: option.splits)

lemma Client_Close_Ret:
  assumes "Client_Close removeClient cache k c = Ret (cache', conn, c')"
  shows "cl_isClosed c' \<and> \<not> closedM c' \<and> openReplies c' = openReplies c \<and> reply_chans c' = reply_chans c \<and> requests c' = requests c
    \<and> (if cl_isClosed c then c' = c \<and> conn = None else cl_conn c' = None \<and> conn \<noteq> None)"
  using assms
  by (auto simp: Client_Close_def close_begin_Ret close_finish_def go_bind_Ret_conv split: if_splits option.splits)

lemma ch_closed_close [simp]: "ch_closed (close_chan c)" by (simp add: close_chan_def)

lemma close_chan_idem [simp]: "close_chan (close_chan c) = close_chan c"
  by (simp add: close_chan_def)

lemma close_all:
  "i < length cs \<Longrightarrow> foldl (\<lambda>cs (rid, i). cs[i := close_chan (cs ! i)]) cs ps ! i =
     (if \<exists>r. (r, i) \<in> set ps then close_chan (cs ! i) else cs ! i)"
proof (induction ps arbitrary: cs)
  case (Cons p ps)
  then show ?case by (cases p; cases "snd p = i") auto
qed simp

lemma close_all_length: "length (foldl (\<lambda>cs (rid, i). cs[i := close_chan (cs ! i)]) cs ps) = length cs"
  by (induction ps arbitrary: cs) (auto split: prod.splits)

lemma split_end_Ret:
  assumes "split_end removeClient cache k c = Ret (cache', conn, c')"
  shows "cl_isClosed c' \<and> (\<not> closedM c \<longrightarrow> \<not> closedM c') \<and> requests c' = close_chan (requests c) \<and> openReplies c' = openReplies c
    \<and> reply_chans c' = foldl (\<lambda>cs (rid, i). cs[i := close_chan (cs ! i)]) (reply_chans c) (openReplies c)
    \<and> (if cl_isClosed c then cl_conn c' = cl_conn c else cl_conn c' = None)"
  using assms by (auto simp: split_end_def Let_def dest!: Client_Close_Ret split: if_splits)

lemma client_run_closed:
  "cl_isClosed (client_run ev c) = cl_isClosed c \<and> closedM (client_run ev c) = closedM c \<and> (cl_conn (client_run ev c) = None \<longleftrightarrow> cl_conn c = None)"
  by (cases ev)
     (auto simp: Client_Send_def send_out_def register_reply_def split_message_def Connection_Send_def Let_def
        split: option.splits prod.splits if_splits)

lemma Client_Send_chans:
  assumes "Client_Send msg c = (r, c', msg')"
  shows "requests c' = requests c \<and> (\<exists>n. reply_chans c' = reply_chans c @ replicate n new_chan)"
proof -
  obtain ch err where "Client_Send msg c = ((ch, err), c', msg')" using assms by (metis prod.exhaust)
  then show ?thesis
  proof (cases rule: Client_Send_cases)
    case (request c1)
    then show ?thesis using send_out_fields [OF request(3)] by (auto intro: exI [of _ 1])
  qed (use send_out_fields in \<open>fastforce intro: exI [of _ 0]\<close>)+
qed

lemma sent_chans: "requests (client_run (Sent msg) c) = requests c \<and> (\<exists>n. reply_chans (client_run (Sent msg) c) = reply_chans c @ replicate n new_chan)"
  using Client_Send_chans [of msg c] by (metis client_run.simps(1) prod.collapse)

lemma life_inv_step:
  assumes "client_step c c'" and "life_inv c"
  shows "life_inv c'"
  using assms
proof (induction rule: client_step.induct)
  case (serve c)
  then show ?case by (simp add: SetService_def life_inv_def client_inv_def)
next
  case (sends c msg)
  obtain n where "requests (client_run (Sent msg) c) = requests c" "reply_chans (client_run (Sent msg) c) = reply_chans c @ replicate n new_chan"
    using sent_chans by blast
  with sends client_run_closed [of "Sent msg" c] client_inv_run [of c "Sent msg"] show ?case
    by (auto simp: life_inv_def new_chan_def simp del: client_run.simps)
next
  case (gets c m)
  then have "\<forall>ch\<in>set (reply_chans c). \<not> ch_closed ch" by (auto simp: life_inv_def)
  then have "\<forall>ch\<in>set (reply_chans (split_message m c)). \<not> ch_closed ch"
    using gets(2) unfolding life_inv_def client_inv_def
    by (auto simp: split_message_def chan_send_def dest!: set_update_subset_insert [THEN subsetD] split: option.splits)
  with gets client_run_closed [of "Got m" c] client_inv_run [of c "Got m"] show ?case by (auto simp: life_inv_def)
next
  case (shut removeClient cache k c cache' conn c')
  then show ?case using Client_Close_Ret [OF shut(1)] by (auto simp: life_inv_def client_inv_def split: if_splits)
next
  case (ends removeClient cache k c cache' conn c')
  then show ?case using split_end_Ret [OF ends(1)] by (auto simp: life_inv_def client_inv_def close_all_length split: if_splits)
qed

lemma client_le_step:
  assumes "client_step c c'" and "life_inv c"
  shows "client_le c c'"
  using assms
proof (induction rule: client_step.induct)
  case (serve c)
  then show ?case by (simp add: SetService_def client_le_def)
next
  case (sends c msg)
  obtain n where "requests (client_run (Sent msg) c) = requests c" "reply_chans (client_run (Sent msg) c) = reply_chans c @ replicate n new_chan"
    using sent_chans by blast
  then show ?case using client_run_closed [of "Sent msg" c] by (simp add: client_le_def nth_append del: client_run.simps)
next
  case (gets c m)
  then have "chan_le ch (chan_send m ch)" if "ch \<in> set (reply_chans c) \<union> {requests c}" for ch
    using that by (auto simp: chan_le_def chan_send_def life_inv_def)
  then have "chan_le (reply_chans c ! i) ((reply_chans c)[j := chan_send m (reply_chans c ! j)] ! i)" "chan_le (requests c) (chan_send m (requests c))"
    if "i < length (reply_chans c)" for i j using that by (cases "i = j"; simp)+
  with \<open>\<And>ch. ch \<in> _ \<Longrightarrow> chan_le ch _\<close> show ?case using client_run_closed [of "Got m" c]
    by (auto simp: client_le_def split_message_def split: option.splits)
next
  case (shut removeClient cache k c cache' conn c')
  then show ?case using Client_Close_Ret [OF shut(1)] by (simp add: client_le_def)
next
  case (ends removeClient cache k c cache' conn c')
  have "chan_le ch (close_chan ch)" for ch by (cases ch) (simp add: chan_le_def close_chan_def)
  then show ?case using split_end_Ret [OF ends(1)] by (auto simp: client_le_def close_all_length close_all)
qed

interpretation clients: monotone_system client_start client_step life_inv client_le
proof unfold_locales
  show "client_start c \<Longrightarrow> life_inv c" for c by (auto simp: client_start_def NewClient_def life_inv_def client_inv_def)
  show "client_le c c" for c by (simp add: client_le_def)
qed (auto intro: life_inv_step client_le_step client_le_trans)

lemma client_reach_life: "client_reach c \<Longrightarrow> life_inv c"
  unfolding client_reach_def using clients.reach_inv by blast

lemma client_reach_inv: "client_reach c \<Longrightarrow> client_inv c \<and> (cl_isClosed c \<longleftrightarrow> cl_conn c = None) \<and> \<not> closedM c"
  using client_reach_life by (simp add: life_inv_def)

lemma client_reach_fresh: "client_reach (NewClient conn)"
  unfolding client_reach_def client_start_def by blast

lemma client_reach_step: "client_reach c \<Longrightarrow> client_step c c' \<Longrightarrow> client_reach c'"
  unfolding client_reach_def by (meson rtranclp.rtrancl_into_rtrancl)

subsection \<open>Properties\<close>

text \<open>
  C6. A request gets exactly its reply: after a client has sent a request, whatever it sends and
  receives afterwards (fewer than \<open>2 ^ 64 - 1\<close> sends), the channel it was given holds the first reply
  with the id of the request, once, and nothing else; it is empty as long as there is none.
\<close>

theorem reply_delivered_once:
  assumes "client_reach c" and "Client_Send msg c = ((Some ch, None), c', msg')"
    and "length (filter is_sent evs) < 2 ^ 64 - 1"
  shows "ch_msgs (reply_chans (fold client_run evs c') ! ch) = take 1 (concat (map (replies_to (mRequestID msg')) evs))"
proof -
  have inv: "client_inv c" using client_reach_inv [OF assms(1)] by simp
  note w = Client_Send_waiting [OF inv assms(2)]
  have "case concat (map (replies_to (mRequestID msg')) evs) of
     [] \<Rightarrow> waiting (mRequestID msg') ch (fold client_run evs c') | m # _ \<Rightarrow> answered ch m (fold client_run evs c')"
    using w assms(3) by (intro waiting_runs [where d = 0]) auto
  then show ?thesis by (auto simp: waiting_def answered_def split: list.splits)
qed

definition demo_reply :: Message where
  "demo_reply = SetRequestID 1 NewResponseMessage"

lemma demo_client_send:
  "\<exists>c' msg'. Client_Send demo_msg (NewClient demo_conn) = ((Some 0, None), c', msg') \<and> mRequestID msg' = 1
     \<and> openReplies c' = [(1, 0)] \<and> reply_chans c' = [new_chan] \<and> mMessageType msg' = MessageTypeRequest"
proof -
  have "message_fits (demo_msg\<lparr>mRequestID := 1\<rparr>)" by (simp add: demo_fits_any)
  from Send_healthy [OF demo_conn_healthy this] obtain conn' where
    s: "Connection_Send (Some demo_conn) (demo_msg\<lparr>mRequestID := 1\<rparr>)
      = (None, Some conn', snd (toPackets (outgoingmsgno demo_conn) (demo_msg\<lparr>mRequestID := 1\<rparr>)))" by blast
  have "mMessageType demo_msg = MessageTypeRequest"
    by (simp add: demo_msg_def Message_Write_def message_setters NewRequestMessage_def)
  then show ?thesis
    by (simp add: Client_Send_def send_out_def NewClient_def s register_reply_def toPackets_def Let_def)
qed

theorem reply_delivered_once_witness:
  "\<exists>c' msg'. Client_Send demo_msg (NewClient demo_conn) = ((Some 0, None), c', msg')
     \<and> ch_msgs (reply_chans (fold client_run [Got demo_msg, Got demo_reply, Got demo_reply] c') ! 0) = [demo_reply]"
proof -
  obtain c' msg' where s: "Client_Send demo_msg (NewClient demo_conn) = ((Some 0, None), c', msg')" "mRequestID msg' = 1"
    using demo_client_send by blast
  have "mMessageType demo_msg = MessageTypeRequest"
    by (simp add: demo_msg_def Message_Write_def message_setters NewRequestMessage_def)
  moreover have "mMessageType demo_reply = MessageTypeReply" "mRequestID demo_reply = 1"
    by (simp_all add: demo_reply_def NewResponseMessage_def message_setters)
  ultimately show ?thesis
    using reply_delivered_once [OF client_reach_fresh s(1), of "[Got demo_msg, Got demo_reply, Got demo_reply]"] s
    by (simp add: is_sent_def)
qed

text \<open>
  C29. \<^verbatim>\<open>Send\<close> gives every message, also a reply, the next id of the sending client, whatever id the
  caller had set: the \<open>n\<close>-th message of a client carries the id \<open>n\<close>. A reply therefore reaches the request
  with its own position, not the request it answers.
\<close>

theorem request_ids_by_position:
  assumes "Client_Send msg (fold client_run (map Sent ms) (NewClient conn)) = (r, c', msg')"
  shows "mRequestID msg' = of_nat (length ms + 1)"
proof -
  have "nextRequestID (fold client_run (map Sent ms) c) = nextRequestID c + of_nat (length ms)" for c
  proof (induction ms arbitrary: c)
    case (Cons m ms)
    show ?case
      using Cons [of "client_run (Sent m) c"] nextRequestID_run [of "Sent m" c]
      by (simp add: is_sent_def algebra_simps del: client_run.simps)
  qed simp
  then have "nextRequestID (fold client_run (map Sent ms) (NewClient conn)) = of_nat (length ms)"
    by (simp add: NewClient_def)
  then show ?thesis using Client_Send_id [OF assms] by simp
qed

theorem request_ids_by_position_witness:
  "mRequestID (snd (snd (Client_Send (SetRequestID 77 NewResponseMessage) (NewClient demo_conn)))) = 1"
  using request_ids_by_position [of "SetRequestID 77 NewResponseMessage" "[]" demo_conn] by (metis One_nat_def add_0
    fold_simps(1) list.map(1) list.size(3) of_nat_1 prod.collapse)

text \<open>
  C30. The channel of a reply is registered only after the request is on the wire: a reply that is split
  before that is dropped, and the channel stays empty until another reply with that id arrives.
\<close>

theorem early_reply_lost:
  assumes "send_out msg c = (None, c1, msg1)" and "mMessageType msg = MessageTypeRequest"
    and "mMessageType reply = MessageTypeReply" and "mRequestID reply = mRequestID msg1"
    and "map_of (openReplies c) (mRequestID msg1) = None"
  shows "split_message reply c1 = c1
    \<and> (\<exists>c2. register_reply msg1 (split_message reply c1) = (Some (length (reply_chans c)), c2)
          \<and> ch_msgs (reply_chans c2 ! length (reply_chans c)) = [])"
proof -
  have "split_message reply c1 = c1" using assms send_out_fields [OF assms(1)] by (simp add: split_message_def)
  then show ?thesis using send_out_fields [OF assms(1)] assms(2) by (simp add: register_reply_def new_chan_def nth_append)
qed

theorem early_reply_lost_witness:
  "\<exists>c1 msg1. send_out demo_msg (NewClient demo_conn) = (None, c1, msg1) \<and> split_message demo_reply c1 = c1"
proof -
  obtain c' msg' where cs: "Client_Send demo_msg (NewClient demo_conn) = ((Some 0, None), c', msg')" using demo_client_send by blast
  then obtain c1 where s: "send_out demo_msg (NewClient demo_conn) = (None, c1, msg')" "mMessageType demo_msg = MessageTypeRequest"
    by (cases rule: Client_Send_cases) auto
  have "mMessageType demo_reply = MessageTypeReply" "mRequestID demo_reply = mRequestID msg'"
    using send_out_fields [OF s(1)] by (simp_all add: demo_reply_def NewResponseMessage_def message_setters NewClient_def)
  with early_reply_lost [OF s] s(1) show ?thesis by (auto simp: NewClient_def)
qed

text \<open>
  C32. When the connection's channel is closed, the client closes the channel of incoming requests and the
  channel of every request that is still waiting, so no receiver blocks for ever, and channels that
  have their reply are left alone. Nothing is sent on the closed channels afterwards (a send would panic),
  whatever is still done to the client.
\<close>

theorem split_end_closes:
  assumes "client_reach c" and "split_end removeClient cache k c = Ret (cache', conn, c')" and "client_step\<^sup>*\<^sup>* c' c''"
  shows "cl_isClosed c' \<and> ch_closed (requests c')
    \<and> (\<forall>i < length (reply_chans c). reply_chans c' ! i =
         (if \<exists>r. map_of (openReplies c) r = Some i then close_chan (reply_chans c ! i) else reply_chans c ! i))
    \<and> cl_isClosed c'' \<and> requests c'' = requests c'
    \<and> (\<forall>i < length (reply_chans c'). ch_closed (reply_chans c' ! i) \<longrightarrow> reply_chans c'' ! i = reply_chans c' ! i)"
proof -
  have inv: "client_inv c" using client_reach_inv [OF assms(1)] by simp
  have "life_inv c'" using client_reach_life [OF assms(1)] client_step.ends [OF assms(2)] by (rule life_inv_step [rotated])
  then have le: "client_le c' c''" by (rule clients.steps_le [OF assms(3)])
  have "(\<exists>r. (r, i) \<in> set (openReplies c)) \<longleftrightarrow> (\<exists>r. map_of (openReplies c) r = Some i)" for i
    using inv unfolding client_inv_def by (metis map_of_SomeD map_of_is_SomeI)
  then show ?thesis using split_end_Ret [OF assms(2)] le close_all [where ps = "openReplies c" and cs = "reply_chans c"]
    by (simp add: close_chan_def client_le_def chan_le_def)
qed

theorem split_end_closes_witness:
  "\<exists>c'. split_end (\<lambda>_. Deadlock) None 0 (NewClient demo_conn) = Ret (None, Some (Connection_Close 0 demo_conn), c') \<and> ch_closed (requests c')"
proof -
  have "\<exists>c'. split_end (\<lambda>_. Deadlock) None 0 (NewClient demo_conn) = Ret (None, Some (Connection_Close 0 demo_conn), c')"
    by (simp add: split_end_def NewClient_def Client_Close_def close_begin_def forget_slot_def closeConnection_def Connection_Close_def
        demo_conn_def NewConnection_def Let_def)
  then show ?thesis using split_end_closes [OF client_reach_fresh _ rtranclp.rtrancl_refl] by blast
qed

end
