(* ===== verification/ActionOptions.thy ===== *)
theory ActionOptions
  imports Ticket Client
begin

text \<open>
  Action options (\<^verbatim>\<open>scamp/action_options.go\<close>): the call of a registered action, which first checks the
  ticket of the message when the action asks for it, and the reply with an error.

  A callback is user code: it is a function from the message and the client to the client it leaves
  behind. What a call reads from its surroundings is the record \<open>env\<close>: the RSA library, quoting, the
  file system and the clock.
\<close>

record ActionOptions =
  ao_Verify :: bool
  Privs :: "goint list"
  TicketVerifyPublicKey :: bytes

definition DefaultActionOptions :: ActionOptions where
  "DefaultActionOptions = \<lparr>ao_Verify = False, Privs = [], TicketVerifyPublicKey = []\<rparr>"

declare DefaultActionOptions_def [zero_values]

type_synonym callback = "Message \<Rightarrow> Client \<Rightarrow> Client go"

record ServiceOptionsFunc =
  sf_callback :: callback
  sf_options :: ActionOptions

record ('pub, 'priv) env =
  env_crypto :: "('pub, 'priv) crypto"
  env_quote :: "bytes \<Rightarrow> bytes"
  env_readFile :: "bytes \<Rightarrow> gerror + bytes"
  env_now :: goint

subsection \<open>Replying with an error\<close>

definition error_reply :: "Message \<Rightarrow> bytes \<Rightarrow> gerror \<Rightarrow> Message" where
  "error_reply message errorCode err =
     (SetError err \<circ> SetErrorCode errorCode \<circ> SetRequestID (mRequestID message)) NewResponseMessage"

text \<open>The pointers may be nil. An error of sending is only logged.\<close>

definition ReplyOnError :: "Message option \<Rightarrow> Client option \<Rightarrow> bytes \<Rightarrow> gerror option \<Rightarrow> Client option" where
  "ReplyOnError message client errorCode err = (case client of
     None \<Rightarrow> None
   | Some cl \<Rightarrow> (case message of
       None \<Rightarrow> client
     | Some m \<Rightarrow> (case err of
         None \<Rightarrow> client
       | Some e \<Rightarrow> Some (fst (snd (Client_Send (error_reply m errorCode e) cl))))))"

subsection \<open>Calling an action\<close>

definition needs_ticket :: "ActionOptions \<Rightarrow> bool" where
  "needs_ticket opts \<longleftrightarrow> ao_Verify opts \<or> length (Privs opts) > 0"

text \<open>\<^verbatim>\<open>ReplyOnError(message, client, "verification", err)\<close>, for the client of a running handler.\<close>

definition refuse :: "Message \<Rightarrow> Client \<Rightarrow> gerror \<Rightarrow> Client" where
  "refuse message client err = the (ReplyOnError (Some message) (Some client) ''verification'' (Some err))"

definition verify_message :: "('pub, 'priv) env \<Rightarrow> ActionOptions \<Rightarrow> Message \<Rightarrow> 'pub key_state \<Rightarrow> 'pub key_state \<times> (gerror + Ticket) go" where
  "verify_message env opts message ks =
     VerifyTicket (env_crypto env) (env_quote env) (env_readFile env) (env_now env) (mTicket message) (TicketVerifyPublicKey opts) ks"

definition Call :: "('pub, 'priv) env \<Rightarrow> ServiceOptionsFunc \<Rightarrow> Message \<Rightarrow> Client \<Rightarrow> 'pub key_state \<Rightarrow> 'pub key_state \<times> Client go" where
  "Call env function message client ks =
     (if ao_Verify (sf_options function) \<or> length (Privs (sf_options function)) > 0 then
        (case verify_message env (sf_options function) message ks of
           (ks1, Panic m) \<Rightarrow> (ks1, Panic m)
         | (ks1, Deadlock) \<Rightarrow> (ks1, Deadlock)
         | (ks1, Ret (Inl err)) \<Rightarrow> (ks1, Ret (refuse message client err))
         | (ks1, Ret (Inr ticket)) \<Rightarrow> (case CheckPrivs (Privs (sf_options function)) ticket of
             Some err \<Rightarrow> (ks1, Ret (refuse message client err))
           | None \<Rightarrow> (ks1, sf_callback function message client)))
      else (ks, sf_callback function message client))"

subsection \<open>Laws\<close>

lemma refuse_eq: "refuse message client err = fst (snd (Client_Send (error_reply message ''verification'' err) client))"
  by (simp add: refuse_def ReplyOnError_def)

text \<open>
  The key tickets are checked with: the one an earlier call has loaded, and for the first call the one in the file that the options name.
\<close>

definition ticket_key :: "('pub, 'priv) env \<Rightarrow> ActionOptions \<Rightarrow> 'pub key_state \<Rightarrow> 'pub option" where
  "ticket_key env opts ks =
     (if once_done ks then verifyKey ks
      else (case read_verify_key (env_crypto env) (env_readFile env) (effective_path (TicketVerifyPublicKey opts)) of
          Ret key \<Rightarrow> Some key
        | _ \<Rightarrow> None))"

text \<open>
  The signed parts of a ticket that grants privileges at a time: the version is 1 and the other parts are numbers, the clock has not
  passed the end of the time to live, and every privilege asked for is a number of the sixth part.
\<close>

definition grants :: "goint \<Rightarrow> goint list \<Rightarrow> bytes list \<Rightarrow> bool" where
  "grants now privs parts \<longleftrightarrow>
     (\<exists>uid cid ts ttl. parts ! 0 = ''1'' \<and> parse_int (parts ! 1) = Some uid \<and> parse_int (parts ! 2) = Some cid
      \<and> parse_int (parts ! 3) = Some ts \<and> parse_int (parts ! 4) = Some ttl \<and> sint now \<le> sint (ts + ttl)
      \<and> (5 < length parts \<longrightarrow> (\<forall>p\<in>set (split_on (CHR ''+'') (parts ! 5)). parse_int p \<noteq> None))
      \<and> (\<forall>v\<in>set privs. 5 < length parts \<and> (\<exists>p\<in>set (split_on (CHR ''+'') (parts ! 5)). parse_int p = Some v)))"

text \<open>
  A message that may call an action with these options, said of the text of its ticket alone: it has five signed parts or more, and a
  signature that the key verifies over them, and they grant what the options ask for.
\<close>

definition authorised :: "('pub, 'priv) env \<Rightarrow> ActionOptions \<Rightarrow> Message \<Rightarrow> 'pub key_state \<Rightarrow> bool" where
  "authorised env opts message ks \<longleftrightarrow>
     (\<exists>key parts sig s. ticket_key env opts ks = Some key
      \<and> split_on (CHR '','') (TrimSpace (mTicket message)) = parts @ [sig] \<and> 5 \<le> length parts
      \<and> RawURLEncoding_DecodeString sig = Inr s
      \<and> VerifyPKCS1v15 (env_crypto env) key (sha256_Sum (join_with '','' parts)) s = None
      \<and> grants (env_now env) (Privs opts) parts)"

text \<open>The check of a ticket against that description.\<close>

lemma parse_ticket_grants:
  "(\<exists>tk. parse_ticket quote parts = Inr tk \<and> \<not> Expired now tk \<and> set privs \<subseteq> set (Privileges tk)) \<longleftrightarrow> grants now privs parts"
    (is "?L \<longleftrightarrow> ?R")
proof
  let ?ws = "split_on (CHR ''+'') (parts ! 5)"
  assume ?L
  then obtain tk where tk: "parse_ticket quote parts = Inr tk" "\<not> Expired now tk" "set privs \<subseteq> set (Privileges tk)" by blast
  moreover have "\<forall>p\<in>set ?ws. parse_int p \<noteq> None" if "5 < length parts"
    using tk(1) that ticket_privs_total [of quote ?ws "[]"] by (auto simp: parse_ticket_Inr)
  moreover have "set (Privileges tk) = (if 5 < length parts then {v. \<exists>p\<in>set ?ws. parse_int p = Some v} else {})"
    using tk(1) ticket_privs_sound [of quote ?ws "[]"] by (auto simp: parse_ticket_Inr)
  ultimately show ?R by (auto simp: grants_def parse_ticket_Inr Expired_def split: if_splits)
next
  let ?ws = "split_on (CHR ''+'') (parts ! 5)"
  assume ?R
  then obtain uid cid ts ttl where r: "parts ! 0 = ''1''" "parse_int (parts ! 1) = Some uid" "parse_int (parts ! 2) = Some cid"
    "parse_int (parts ! 3) = Some ts" "parse_int (parts ! 4) = Some ttl" "sint now \<le> sint (ts + ttl)"
    "5 < length parts \<longrightarrow> (\<forall>p\<in>set ?ws. parse_int p \<noteq> None)"
    "\<forall>v\<in>set privs. 5 < length parts \<and> (\<exists>p\<in>set ?ws. parse_int p = Some v)" unfolding grants_def by blast
  obtain ps where ps: "if 5 < length parts then ticket_privs quote ?ws [] = Inr ps else ps = []"
    using r(7) ticket_privs_total [of quote ?ws "[]"] by (cases "5 < length parts") auto
  then have "set privs \<subseteq> set ps" using r(8) ticket_privs_sound [of quote ?ws "[]" ps] by (auto split: if_splits)
  moreover have "parse_ticket quote parts = Inr \<lparr>tk_Version = 1, UserID = uid, ClientID = cid, Timestamp = ts, TTL = ttl, Privileges = ps\<rparr>"
    using r ps by (simp add: parse_ticket_Inr)
  ultimately show ?L using r(6) by (auto simp: Expired_def)
qed

text \<open>What verifying a message gives: nothing is verified without the key, and only loading it panics.\<close>

lemma verify_message_key:
  assumes "ticket_parts (mTicket message) parts sig"
  shows "case ticket_key env opts ks of
      Some key \<Rightarrow> snd (verify_message env opts message ks)
        = Ret (check_ticket (env_crypto env) (env_quote env) (env_now env) key parts sig)
    | None \<Rightarrow> (\<exists>err. snd (verify_message env opts message ks) = Ret (Inl err))
        \<or> (\<exists>m. snd (verify_message env opts message ks) = Panic m \<and> \<not> once_done ks
            \<and> read_verify_key (env_crypto env) (env_readFile env) (effective_path (TicketVerifyPublicKey opts)) = Panic m)"
proof -
  have "read_verify_key (env_crypto env) (env_readFile env) k \<noteq> Deadlock" for k
    by (auto simp: read_verify_key_def split: sum.splits option.splits)
  then show ?thesis using assms
    by (auto simp: verify_message_def VerifyTicket_def ticket_parts_def ticket_key_def once_key_def effective_path_def Let_def
        split: option.splits go.splits)
qed

lemma verify_message_few:
  assumes "\<not> (\<exists>parts sig. ticket_parts (mTicket message) parts sig)"
  shows "\<exists>err. snd (verify_message env opts message ks) = Ret (Inl err)"
proof -
  let ?ps = "split_on (CHR '','') (TrimSpace (mTicket message))"
  have "length ?ps < 6"
  proof (rule ccontr)
    assume "\<not> length ?ps < 6"
    then have "ticket_parts (mTicket message) (butlast ?ps) (last ?ps)" by (simp add: ticket_parts_def)
    with assms show False by blast
  qed
  then show ?thesis by (simp add: verify_message_def VerifyTicket_def Let_def)
qed

lemma authorised_iff:
  "authorised env opts message ks \<longleftrightarrow>
     (\<exists>tk. snd (verify_message env opts message ks) = Ret (Inr tk) \<and> set (Privs opts) \<subseteq> set (Privileges tk))"
proof (cases "\<exists>parts sig. ticket_parts (mTicket message) parts sig")
  case True
  then obtain parts sig where p: "ticket_parts (mTicket message) parts sig" by blast
  then have u: "split_on (CHR '','') (TrimSpace (mTicket message)) = parts @ [sig]" "5 \<le> length parts" by (simp_all add: ticket_parts_def)
  have "authorised env opts message ks \<longleftrightarrow> (\<exists>key. ticket_key env opts ks = Some key
      \<and> (\<exists>tk. check_ticket (env_crypto env) (env_quote env) (env_now env) key parts sig = Inr tk \<and> set (Privs opts) \<subseteq> set (Privileges tk)))"
    unfolding authorised_def check_ticket_Inr parse_ticket_grants [of "env_quote env", symmetric] using u(2) by (auto simp: u(1))
  with verify_message_key [OF p, of env opts ks] show ?thesis by (auto split: option.splits)
next
  case False
  then show ?thesis using verify_message_few [OF False, of env opts ks] by (auto simp: authorised_def ticket_parts_def)
qed

lemma CheckPrivs_cases:
  obtains "CheckPrivs privs tk = None" "set privs \<subseteq> set (Privileges tk)"
  | err where "CheckPrivs privs tk = Some err" "\<not> set privs \<subseteq> set (Privileges tk)"
  using CheckPrivs_iff [of privs tk] by (cases "CheckPrivs privs tk") auto

text \<open>The outcome of a call that needs a ticket.\<close>

lemma Call_refused:
  assumes "needs_ticket (sf_options f)" "snd (verify_message env (sf_options f) message ks) = Ret (Inl err)"
  shows "snd (Call env f message client ks) = Ret (refuse message client err)"
  using assms by (cases "verify_message env (sf_options f) message ks") (auto simp: Call_def needs_ticket_def)

lemma Call_panics:
  assumes "needs_ticket (sf_options f)" "snd (verify_message env (sf_options f) message ks) = Panic m"
  shows "snd (Call env f message client ks) = Panic m"
  using assms by (cases "verify_message env (sf_options f) message ks") (auto simp: Call_def needs_ticket_def)

lemma Call_verified:
  assumes "needs_ticket (sf_options f)" "snd (verify_message env (sf_options f) message ks) = Ret (Inr tk)"
  shows "snd (Call env f message client ks)
    = (case CheckPrivs (Privs (sf_options f)) tk of None \<Rightarrow> sf_callback f message client | Some err \<Rightarrow> Ret (refuse message client err))"
  using assms by (cases "verify_message env (sf_options f) message ks") (auto simp: Call_def needs_ticket_def split: option.splits)

subsection \<open>Properties\<close>

text \<open>
  C7. An action that asks for a ticket runs exactly for the authorised messages, those whose ticket is signed under the loaded key, has
  not expired and grants the privileges asked for: then the call is the call of the callback. For any other message the callback is not
  run at all, whatever it is: the client is sent a reply with the error code \<^verbatim>\<open>verification\<close>; only the first call, which loads
  the key, panics when the key cannot be loaded.
\<close>

theorem action_runs_only_authorised:
  assumes "needs_ticket (sf_options f)"
  shows "if authorised env (sf_options f) message ks
    then (\<forall>cb. snd (Call env (f\<lparr>sf_callback := cb\<rparr>) message client ks) = cb message client)
    else (\<exists>r. (\<forall>cb. snd (Call env (f\<lparr>sf_callback := cb\<rparr>) message client ks) = r)
      \<and> ((\<exists>err. r = Ret (fst (snd (Client_Send (error_reply message ''verification'' err) client))))
         \<or> (\<exists>m. r = Panic m \<and> \<not> once_done ks
              \<and> read_verify_key (env_crypto env) (env_readFile env) (effective_path (TicketVerifyPublicKey (sf_options f))) = Panic m)))"
proof -
  let ?v = "snd (verify_message env (sf_options f) message ks)"
  have n: "needs_ticket (sf_options (f\<lparr>sf_callback := cb\<rparr>))" for cb using assms by simp
  consider (panic) m where "?v = Panic m" | (err) e where "?v = Ret (Inl e)" | (ticket) tk where "?v = Ret (Inr tk)"
    using VerifyTicket_no_deadlock by (metis go.exhaust sum.exhaust verify_message_def)
  then show ?thesis
  proof cases
    case (panic m)
    then obtain parts sig where p: "ticket_parts (mTicket message) parts sig"
      using verify_message_few [of message env "sf_options f" ks] by auto
    from panic have "\<not> once_done ks
        \<and> read_verify_key (env_crypto env) (env_readFile env) (effective_path (TicketVerifyPublicKey (sf_options f))) = Panic m"
      using verify_message_key [OF p, of env "sf_options f" ks] by (auto split: option.splits)
    with panic Call_panics [OF n, of env _ message ks] show ?thesis by (simp add: authorised_iff)
  next
    case (err e)
    with Call_refused [OF n, of env _ message ks] show ?thesis by (auto simp: authorised_iff refuse_eq)
  next
    case (ticket tk)
    with Call_verified [OF n, of env _ message ks] show ?thesis
      by (cases rule: CheckPrivs_cases [of "Privs (sf_options f)" tk]) (auto simp: authorised_iff refuse_eq)
  qed
qed

definition demo_env :: "(unit, unit) env" where
  "demo_env = \<lparr>env_crypto = demo_crypto, env_quote = (\<lambda>s. s), env_readFile = (\<lambda>_. Inl []), env_now = 1060\<rparr>"

definition demo_action :: "goint list \<Rightarrow> ServiceOptionsFunc" where
  "demo_action privs = \<lparr>sf_callback = (\<lambda>m c. Ret c), sf_options = \<lparr>ao_Verify = True, Privs = privs, TicketVerifyPublicKey = []\<rparr>\<rparr>"

lemma demo_authorised:
  "authorised demo_env (sf_options (demo_action privs)) (SetTicket (ticket_text demo_ticket ''QQ'') NewRequestMessage) demo_key
     \<longleftrightarrow> set privs \<subseteq> {3, 5}"
proof -
  obtain ps where "set ps = {3, 5}" "verify_message demo_env (sf_options (demo_action privs))
      (SetTicket (ticket_text demo_ticket ''QQ'') NewRequestMessage) demo_key
    = (demo_key, Ret (Inr (demo_ticket\<lparr>tk_Version := 1, Privileges := ps\<rparr>)))"
    using demo_verifies [of "\<lambda>s. s" "\<lambda>_. Inl []" "[]"]
    by (auto simp: verify_message_def demo_env_def demo_action_def SetTicket_def)
  then show ?thesis by (simp add: authorised_iff demo_action_def)
qed

lemma demo_late:
  "\<not> authorised (demo_env\<lparr>env_now := 1061\<rparr>) opts (SetTicket (ticket_text demo_ticket ''QQ'') NewRequestMessage) demo_key"
proof -
  have "ticket_parts (ticket_text demo_ticket ''QQ'') (ticket_fields demo_ticket) ''QQ''"
    by (rule ticket_text_parts) (simp_all add: graphic_def)
  then have "split_on (CHR '','') (TrimSpace (ticket_text demo_ticket ''QQ'')) = ticket_fields demo_ticket @ [''QQ'']"
    by (simp add: ticket_parts_def)
  then show ?thesis by (auto simp: authorised_def grants_def SetTicket_def demo_env_def ticket_fields_def demo_ticket_def)
qed

text \<open>The demo ticket calls an action that asks for privilege 5, but not one that asks for 4, and neither a second too late.\<close>

theorem action_runs_only_authorised_witness:
  "let m = SetTicket (ticket_text demo_ticket ''QQ'') NewRequestMessage; cl = NewClient demo_conn in
     (\<forall>cb. snd (Call demo_env (demo_action [5]\<lparr>sf_callback := cb\<rparr>) m cl demo_key) = cb m cl)
     \<and> (\<exists>err. \<forall>cb. snd (Call demo_env (demo_action [4]\<lparr>sf_callback := cb\<rparr>) m cl demo_key)
          = Ret (fst (snd (Client_Send (error_reply m ''verification'' err) cl))))
     \<and> (\<exists>err. \<forall>cb. snd (Call (demo_env\<lparr>env_now := 1061\<rparr>) (demo_action [5]\<lparr>sf_callback := cb\<rparr>) m cl demo_key)
          = Ret (fst (snd (Client_Send (error_reply m ''verification'' err) cl))))"
proof -
  let ?m = "SetTicket (ticket_text demo_ticket ''QQ'') NewRequestMessage" and ?cl = "NewClient demo_conn"
  have n: "needs_ticket (sf_options (demo_action privs))" for privs by (simp add: needs_ticket_def demo_action_def)
  have d: "once_done demo_key" by (simp add: demo_key_def)
  from action_runs_only_authorised [OF n, of demo_env "[5]" ?m demo_key ?cl] action_runs_only_authorised [OF n, of demo_env "[4]" ?m demo_key ?cl]
    action_runs_only_authorised [OF n, of "demo_env\<lparr>env_now := 1061\<rparr>" "[5]" ?m demo_key ?cl] d demo_late
    demo_authorised [of "[5]"] demo_authorised [of "[4]"]
  show ?thesis by (simp add: Let_def) metis
qed

end
