(* ===== verification/Timestamp.thy ===== *)
theory Timestamp
  imports Go_Json_Value
begin

text \<open>
  Time stamps (\<^verbatim>\<open>scamp/timestamp.go\<close>). A time stamp is a \<^verbatim>\<open>float64\<close> made by parsing the text
  \<^verbatim>\<open>sec.usec\<close> and printed with \<^verbatim>\<open>%f\<close>, six decimals. A number of seconds below \<open>2 ^ 33\<close> with six
  decimals needs fewer than 53 bits, so the text of such a number survives the conversion, and the time
  stamp is modelled exactly, as a number of microseconds.
\<close>

type_synonym highResTimestamp = nat

definition pad_left :: "nat \<Rightarrow> bytes \<Rightarrow> bytes" where
  "pad_left n s = replicate (n - length s) (CHR ''0'') @ s"

definition timestamp_text :: "highResTimestamp \<Rightarrow> bytes" where
  "timestamp_text ts = dec_nat (ts div 10 ^ 6) @ CHR ''.'' # pad_left 6 (dec_nat (ts mod 10 ^ 6))"

definition timestamp_MarshalJSON :: "highResTimestamp \<Rightarrow> json" where
  "timestamp_MarshalJSON ts = JNum (timestamp_text ts)"

text \<open>
  \<^verbatim>\<open>getTimeOfDay\<close> for the seconds and microseconds of the clock: the digits of the microseconds are the
  decimals, without leading zeros.
\<close>

definition getTimeOfDay :: "nat \<Rightarrow> nat \<Rightarrow> highResTimestamp" where
  "getTimeOfDay sec usec = sec * 10 ^ 6 + usec * 10 ^ (6 - length (dec_nat usec))"

lemma takeWhile_digits: "list_all is_digit ds \<Longrightarrow> takeWhile is_digit ds = ds" "list_all is_digit ds \<Longrightarrow> dropWhile is_digit ds = []"
  by (auto simp: list_all_iff)

lemma scan_int_part_dec_dot: "scan_int_part (dec_nat n @ CHR ''.'' # s) = Some (dec_nat n, CHR ''.'' # s)"
proof (cases "n = 0")
  case True
  then show ?thesis by (simp add: dec_nat.simps scan_int_part_def)
next
  case False
  obtain c cs where dec: "dec_nat n = c # cs" by (cases "dec_nat n") auto
  then have c: "is_digit c" "c \<noteq> CHR ''0''" using dec_nat_hd [of n] dec_nat_no_leading_zero [of n] False by auto
  have stop: "\<not> is_digit (CHR ''.'')" by (simp add: is_digit_def)
  have "\<forall>x\<in>set (dec_nat n). is_digit x" using dec_nat_digits [of n] by (simp add: list_all_iff)
  from takeWhile_append_stop [OF this stop, of s] dropWhile_append_stop [OF this stop, of s] c show ?thesis
    by (simp add: scan_int_part_def dec)
qed

lemma pad_left_digits: "list_all is_digit (pad_left k (dec_nat n))" "pad_left k (dec_nat n) \<noteq> []"
  using dec_nat_digits [of n] by (auto simp: pad_left_def list_all_iff is_digit_def)

lemma timestamp_wf [simp]: "wf_json (timestamp_MarshalJSON ts)"
proof -
  let ?i = "dec_nat (ts div 10 ^ 6)" and ?f = "pad_left 6 (dec_nat (ts mod 10 ^ 6))"
  have "hd ?i \<noteq> CHR ''-''" using dec_nat_hd [of "ts div 10 ^ 6"] by (auto simp: is_digit_def)
  then have "scan_sign (?i @ CHR ''.'' # ?f) = ([], ?i @ CHR ''.'' # ?f)"
    by (cases ?i) (auto simp: scan_sign_def)
  moreover have "scan_frac (CHR ''.'' # ?f) = Some (CHR ''.'' # ?f, [])"
    using pad_left_digits [of 6 "ts mod 10 ^ 6"] by (simp add: scan_frac_def scan_digits_def takeWhile_digits)
  ultimately show ?thesis
    using scan_int_part_dec_dot [of "ts div 10 ^ 6" ?f]
    by (simp add: timestamp_MarshalJSON_def timestamp_text_def scan_number_def scan_exp_def)
qed

lemma json_depth_timestamp [simp]: "json_depth (timestamp_MarshalJSON ts) = 0"
  by (simp add: timestamp_MarshalJSON_def)

lemma dec_nat_length_ge: "10 ^ k \<le> n \<Longrightarrow> k < length (dec_nat n)"
proof (induction k arbitrary: n)
  case (Suc k)
  have "(1 :: nat) \<le> 10 ^ k" by simp
  moreover have "10 * 10 ^ k \<le> n" using Suc.prems by simp
  ultimately have "\<not> n < 10" by linarith
  moreover have "10 ^ k \<le> n div 10" using Suc.prems by (simp add: less_eq_div_iff_mult_less_eq ac_simps)
  ultimately show ?case using Suc.IH [of "n div 10"] by (subst dec_nat.simps) simp
qed simp

text \<open>With six digits the conversion is right.\<close>

lemma getTimeOfDay_six_digits: "length (dec_nat usec) = 6 \<Longrightarrow> getTimeOfDay sec usec = sec * 10 ^ 6 + usec"
  by (simp add: getTimeOfDay_def)

subsection \<open>Properties\<close>

text \<open>
  The microseconds are not padded: below a tenth of a second they are read as a larger fraction, so
  the time stamp of a later moment can be smaller than that of an earlier one; with six digits of
  microseconds the time stamp is the time.
\<close>

lemma timestamp_not_monotone:
  "getTimeOfDay sec 9 > getTimeOfDay sec 10 \<and> getTimeOfDay sec 9 = sec * 10 ^ 6 + 900000
   \<and> (100000 \<le> usec \<and> usec < 1000000 \<longrightarrow> getTimeOfDay sec usec = sec * 10 ^ 6 + usec)"
proof (intro conjI impI)
  show "getTimeOfDay sec 9 > getTimeOfDay sec 10" "getTimeOfDay sec 9 = sec * 10 ^ 6 + 900000"
    by (simp_all add: getTimeOfDay_def dec_nat.simps)
  assume "100000 \<le> usec \<and> usec < 1000000"
  then have "length (dec_nat usec) = 6" using dec_nat_length_ge [of 5 usec] dec_nat_length [of usec 6] by simp
  then show "getTimeOfDay sec usec = sec * 10 ^ 6 + usec" by (rule getTimeOfDay_six_digits)
qed

end
