(* ===== verification/ServiceProxy.thy ===== *)
theory ServiceProxy
  imports PacketHeader Timestamp
begin

text \<open>
  Service proxies (\<^verbatim>\<open>scamp/serviceproxy.go\<close>): the record of an announced service, reading it from the
  class record of an announcement, and writing the class record. The proxy's connection to the
  service (\<^verbatim>\<open>GetClient\<close>) is modelled with the requester.
\<close>

subsection \<open>Data\<close>

text \<open>The discovery extension; the elements of its lists are kept as JSON values.\<close>

record ServiceProxyDiscoveryExtension =
  Vmin :: goint
  Vmaj :: goint
  AcSec :: "json list"
  AcName :: "json list"
  AcVer :: "json list"
  AcEnv :: "json list"
  AcFlag :: "json list"
  AcNs :: "json list"

record actionDescription =
  actionName :: bytes
  crudTags :: bytes
  ad_version :: goint

record serviceProxyClass =
  className :: bytes
  actions :: "actionDescription list"

record serviceProxy =
  sp_version :: goint
  ident :: bytes
  sector :: bytes
  weight :: goint
  announceInterval :: goint
  connspec :: bytes
  protocols :: "bytes list"
  classes :: "serviceProxyClass list"
  extension :: "ServiceProxyDiscoveryExtension option"
  rawClassRecords :: bytes
  rawCert :: bytes
  rawSig :: bytes
  timestamp :: highResTimestamp

definition zeroProxy :: serviceProxy where
  "zeroProxy = \<lparr>sp_version = 0, ident = [], sector = [], weight = 0, announceInterval = 0, connspec = [],
     protocols = [], classes = [], extension = None, rawClassRecords = [], rawCert = [], rawSig = [], timestamp = 0\<rparr>"

definition zeroExtension :: ServiceProxyDiscoveryExtension where
  "zeroExtension = \<lparr>Vmin = 0, Vmaj = 0, AcSec = [], AcName = [], AcVer = [], AcEnv = [], AcFlag = [], AcNs = []\<rparr>"

declare zeroProxy_def [zero_values] zeroExtension_def [zero_values]

definition Ident :: "serviceProxy \<Rightarrow> bytes" where "Ident sp = ident sp"
definition ConnSpec :: "serviceProxy \<Rightarrow> bytes" where "ConnSpec sp = connspec sp"
definition Sector :: "serviceProxy \<Rightarrow> bytes" where "Sector sp = sector sp"
definition Classes :: "serviceProxy \<Rightarrow> serviceProxyClass list" where "Classes sp = classes sp"
definition class_Name :: "serviceProxyClass \<Rightarrow> bytes" where "class_Name spc = className spc"
definition class_Actions :: "serviceProxyClass \<Rightarrow> actionDescription list" where "class_Actions spc = actions spc"
definition action_Name :: "actionDescription \<Rightarrow> bytes" where "action_Name ad = actionName ad"
definition action_Version :: "actionDescription \<Rightarrow> goint" where "action_Version ad = ad_version ad"

text \<open>\<^verbatim>\<open>strings.SplitN(sp.ident, ":", 2)\<close> has two parts exactly when there is a colon.\<close>

definition baseIdent :: "serviceProxy \<Rightarrow> bytes" where
  "baseIdent sp = (if CHR '':'' \<in> set (ident sp) then takeWhile (\<lambda>c. c \<noteq> CHR '':'') (ident sp) else ident sp)"

subsection \<open>Decoding JSON into slices\<close>

text \<open>\<^verbatim>\<open>json.Unmarshal\<close> into \<^verbatim>\<open>[]json.RawMessage\<close>, \<^verbatim>\<open>[][]json.RawMessage\<close> and \<^verbatim>\<open>[]*json.RawMessage\<close>.\<close>

fun raw_list :: "json \<Rightarrow> json list option" where
  "raw_list JNull = Some []"
| "raw_list (JArr js) = Some js"
| "raw_list _ = None"

definition raw_lists :: "json \<Rightarrow> json list list option" where
  "raw_lists j = Option.bind (raw_list j) (\<lambda>js. all_some (map raw_list js))"

definition raw_pointers :: "json \<Rightarrow> json option list option" where
  "raw_pointers j = map_option (map (\<lambda>x. if x = JNull then None else Some x)) (raw_list j)"

text \<open>
  Decoding into \<^verbatim>\<open>interface{}\<close> converts numbers to \<^verbatim>\<open>float64\<close> and fails on one that is out of range,
  that is, from half a unit above the largest finite number on.
\<close>

definition int_of_dec :: "bytes \<Rightarrow> int" where
  "int_of_dec s = (case s of
     c # cs \<Rightarrow> if c = CHR ''-'' then - int (nat_of_dec cs) else int (nat_of_dec (if c = CHR ''+'' then cs else s))
   | [] \<Rightarrow> 0)"

definition float_overflows :: "bytes \<Rightarrow> bool" where
  "float_overflows raw =
     (let s = dropWhile (\<lambda>c. c = CHR ''-'') raw;
          ip = takeWhile is_digit s; r = dropWhile is_digit s;
          fp = (case r of c # cs \<Rightarrow> if c = CHR ''.'' then takeWhile is_digit cs else [] | [] \<Rightarrow> []);
          ex = int_of_dec (drop 1 (dropWhile (\<lambda>c. c \<noteq> CHR ''e'' \<and> c \<noteq> CHR ''E'') r)) - int (length fp)
      in nat_of_dec (ip @ fp) * 10 ^ nat ex \<ge> (2 ^ 1024 - 2 ^ 970) * 10 ^ nat (- ex))"

fun interface_ok :: "json \<Rightarrow> bool" where
  "interface_ok (JNum n) = (\<not> float_overflows n)"
| "interface_ok (JArr js) = list_all interface_ok js"
| "interface_ok (JObj ms) = list_all (\<lambda>(k, j). interface_ok j) ms"
| "interface_ok _ = True"

fun unmarshal_list :: "json \<Rightarrow> json list \<Rightarrow> json list option" where
  "unmarshal_list JNull old = Some []"
| "unmarshal_list (JArr js) old = (if list_all interface_ok js then Some js else None)"
| "unmarshal_list _ old = None"

definition extension_fields :: "bytes list" where
  "extension_fields = [''vmin'', ''vmaj'', ''acsec'', ''acname'', ''acver'', ''acenv'', ''acflag'', ''acns'']"

definition decode_extension_field ::
  "bytes \<Rightarrow> json \<Rightarrow> ServiceProxyDiscoveryExtension \<Rightarrow> ServiceProxyDiscoveryExtension option" where
  "decode_extension_field f j x =
     (if f = ''vmin'' then map_option (\<lambda>v. x\<lparr>Vmin := v\<rparr>) (unmarshal_int j (Vmin x))
      else if f = ''vmaj'' then map_option (\<lambda>v. x\<lparr>Vmaj := v\<rparr>) (unmarshal_int j (Vmaj x))
      else if f = ''acsec'' then map_option (\<lambda>v. x\<lparr>AcSec := v\<rparr>) (unmarshal_list j (AcSec x))
      else if f = ''acname'' then map_option (\<lambda>v. x\<lparr>AcName := v\<rparr>) (unmarshal_list j (AcName x))
      else if f = ''acver'' then map_option (\<lambda>v. x\<lparr>AcVer := v\<rparr>) (unmarshal_list j (AcVer x))
      else if f = ''acenv'' then map_option (\<lambda>v. x\<lparr>AcEnv := v\<rparr>) (unmarshal_list j (AcEnv x))
      else if f = ''acflag'' then map_option (\<lambda>v. x\<lparr>AcFlag := v\<rparr>) (unmarshal_list j (AcFlag x))
      else if f = ''acns'' then map_option (\<lambda>v. x\<lparr>AcNs := v\<rparr>) (unmarshal_list j (AcNs x))
      else Some x)"

fun decode_extension ::
  "(bytes \<times> json) list \<Rightarrow> ServiceProxyDiscoveryExtension \<Rightarrow> ServiceProxyDiscoveryExtension option" where
  "decode_extension [] x = Some x"
| "decode_extension ((k, j) # ms) x = (case unquote k of
     None \<Rightarrow> None
   | Some key \<Rightarrow> (case match_field extension_fields key of
       None \<Rightarrow> decode_extension ms x
     | Some f \<Rightarrow> Option.bind (decode_extension_field f j x) (decode_extension ms)))"

fun unmarshal_extension :: "json \<Rightarrow> ServiceProxyDiscoveryExtension option" where
  "unmarshal_extension (JObj ms) = decode_extension ms zeroExtension"
| "unmarshal_extension JNull = Some zeroExtension"
| "unmarshal_extension _ = None"

subsection \<open>Reading a class record\<close>

datatype proxy_error = JsonError | RawClassTooShort | BadActionVersion

text \<open>One positional entry: the index panics when the entry is missing.\<close>

definition entry :: "json list \<Rightarrow> nat \<Rightarrow> (json \<Rightarrow> 'a option) \<Rightarrow> (proxy_error + 'a) go" where
  "entry js i um = go_bind (go_index js i) (\<lambda>j. Ret (case um j of None \<Rightarrow> Inl JsonError | Some v \<Rightarrow> Inr v))"

text \<open>A \<^verbatim>\<open>null\<close> among the protocols is a nil pointer, which the loop dereferences.\<close>

fun read_protocols ::
  "json option list \<Rightarrow> bytes list \<Rightarrow> ServiceProxyDiscoveryExtension option
    \<Rightarrow> (bytes list \<times> ServiceProxyDiscoveryExtension option) go" where
  "read_protocols [] ps x = Ret (ps, x)"
| "read_protocols (None # rs) ps x = Panic ''invalid memory address or nil pointer dereference''"
| "read_protocols (Some r # rs) ps x = (case unmarshal_string r [] of
     Some tempStr \<Rightarrow> read_protocols rs (ps @ [tempStr]) x
   | None \<Rightarrow> (case unmarshal_extension r of
       None \<Rightarrow> read_protocols rs ps x
     | Some e \<Rightarrow> read_protocols rs ps (Some e)))"

definition read_version :: "json list \<Rightarrow> (proxy_error + goint) go" where
  "read_version spec =
     (if length spec < 3 then Ret (Inr 1)
      else (case unmarshal_int (spec ! 2) 0 of
          Some v \<Rightarrow> Ret (Inr v)
        | None \<Rightarrow> (case unmarshal_string (spec ! 2) [] of
            None \<Rightarrow> Ret (Inl JsonError)
          | Some versionStr \<Rightarrow> (case parse_int versionStr of
              None \<Rightarrow> Ret (Inl BadActionVersion)
            | Some v \<Rightarrow> Ret (Inr v)))))"

text \<open>
  One action. A spec that does not have two or three entries only sets an error that the next
  statement overwrites.
\<close>

definition read_action :: "json \<Rightarrow> (proxy_error + actionDescription) go" where
  "read_action rawActionSpec = (case raw_list rawActionSpec of
     None \<Rightarrow> Ret (Inl JsonError)
   | Some spec \<Rightarrow>
       res_bind (entry spec 0 (\<lambda>j. unmarshal_string j [])) (\<lambda>nm.
       res_bind (entry spec 1 (\<lambda>j. unmarshal_string j [])) (\<lambda>tags.
       res_bind (read_version spec) (\<lambda>v.
         Ret (Inr \<lparr>actionName = nm, crudTags = tags, ad_version = v\<rparr>)))))"

fun read_actions :: "json list \<Rightarrow> (proxy_error + actionDescription list) go" where
  "read_actions [] = Ret (Inr [])"
| "read_actions (r # rs) = res_bind (read_action r) (\<lambda>a. res_bind (read_actions rs) (\<lambda>as. Ret (Inr (a # as))))"

definition read_class :: "json list \<Rightarrow> (proxy_error + serviceProxyClass) go" where
  "read_class rawClass =
     (if length rawClass < 2 then Ret (Inl RawClassTooShort)
      else
        res_bind (entry rawClass 0 (\<lambda>j. unmarshal_string j [])) (\<lambda>nm.
        res_bind (read_actions (tl rawClass)) (\<lambda>as. Ret (Inr \<lparr>className = nm, actions = as\<rparr>))))"

fun read_classes :: "json list list \<Rightarrow> (proxy_error + serviceProxyClass list) go" where
  "read_classes [] = Ret (Inr [])"
| "read_classes (r # rs) = res_bind (read_class r) (\<lambda>c. res_bind (read_classes rs) (\<lambda>cs. Ret (Inr (c # cs))))"

text \<open>
  \<^verbatim>\<open>newServiceProxy\<close>. The check for nine entries only sets an error that the next statement
  overwrites, and the ninth entry (the time stamp) is not read. On an error the partly filled proxy is
  dropped, as by the only caller.
\<close>

definition newServiceProxy :: "bytes \<Rightarrow> bytes \<Rightarrow> bytes \<Rightarrow> (proxy_error + serviceProxy) go" where
  "newServiceProxy classRecordsRaw certRaw sigRaw = (case Option.bind (parse_json classRecordsRaw) raw_list of
     None \<Rightarrow> Ret (Inl JsonError)
   | Some recs \<Rightarrow>
       res_bind (entry recs 0 (\<lambda>j. unmarshal_int j 0)) (\<lambda>ver.
       res_bind (entry recs 1 (\<lambda>j. unmarshal_string j [])) (\<lambda>idn.
       res_bind (entry recs 2 (\<lambda>j. unmarshal_string j [])) (\<lambda>sct.
       res_bind (entry recs 3 (\<lambda>j. unmarshal_int j 0)) (\<lambda>wgt.
       res_bind (entry recs 4 (\<lambda>j. unmarshal_int j 0)) (\<lambda>ivl.
       res_bind (entry recs 5 (\<lambda>j. unmarshal_string j [])) (\<lambda>spc.
       res_bind (entry recs 6 raw_pointers) (\<lambda>rawProtocols.
       go_bind (read_protocols rawProtocols [] None) (\<lambda>(ps, x).
       res_bind (entry recs 7 raw_lists) (\<lambda>rawClasses.
       res_bind (read_classes rawClasses) (\<lambda>cs.
         Ret (Inr \<lparr>sp_version = ver, ident = idn, sector = sct, weight = wgt, announceInterval = ivl,
           connspec = spc, protocols = ps, classes = cs, extension = x, rawClassRecords = classRecordsRaw,
           rawCert = certRaw, rawSig = sigRaw, timestamp = 0\<rparr>))))))))))))"

subsection \<open>Writing a class record\<close>

definition action_json :: "actionDescription \<Rightarrow> json" where
  "action_json a = JArr [json_string (actionName a), json_string (crudTags a), json_int (ad_version a)]"

definition class_json :: "serviceProxyClass \<Rightarrow> json" where
  "class_json c = JArr (json_string (className c) # map action_json (actions c))"

definition proxy_json :: "serviceProxy \<Rightarrow> json" where
  "proxy_json sp = JArr [json_int (sp_version sp), json_string (ident sp), json_string (sector sp), json_int (weight sp),
     json_int (announceInterval sp), json_string (connspec sp), JArr (map json_string (protocols sp)),
     JArr (map class_json (classes sp)), timestamp_MarshalJSON (timestamp sp)]"

definition serviceProxy_MarshalJSON :: "serviceProxy \<Rightarrow> bytes" where
  "serviceProxy_MarshalJSON sp = print_json (proxy_json sp)"

subsection \<open>A written class record is read back\<close>

definition repair_action :: "actionDescription \<Rightarrow> actionDescription" where
  "repair_action a = a\<lparr>actionName := utf8_repair (actionName a), crudTags := utf8_repair (crudTags a)\<rparr>"

definition repair_class :: "serviceProxyClass \<Rightarrow> serviceProxyClass" where
  "repair_class c = \<lparr>className = utf8_repair (className c), actions = map repair_action (actions c)\<rparr>"

text \<open>What an announcement carries over: everything but the extension and the time stamp.\<close>

definition announced :: "serviceProxy \<Rightarrow> bytes \<Rightarrow> bytes \<Rightarrow> bytes \<Rightarrow> serviceProxy" where
  "announced sp record cert sig = sp\<lparr>ident := utf8_repair (ident sp), sector := utf8_repair (sector sp),
     connspec := utf8_repair (connspec sp), protocols := map utf8_repair (protocols sp),
     classes := map repair_class (classes sp), extension := None, rawClassRecords := record, rawCert := cert,
     rawSig := sig, timestamp := 0\<rparr>"

lemma entry_Ret [simp]: "i < length js \<Longrightarrow> entry js i um = Ret (case um (js ! i) of None \<Rightarrow> Inl JsonError | Some v \<Rightarrow> Inr v)"
  by (simp add: entry_def)

lemma entry_Inr: "entry js i um = Ret (Inr v) \<longleftrightarrow> i < length js \<and> um (js ! i) = Some v"
  by (auto simp: entry_def go_index_def split: option.splits)

lemma json_string_not_null [simp]: "json_string s \<noteq> JNull"
  by (simp add: json_string_def)

lemma json_depth_arr: "(\<And>j. j \<in> set js \<Longrightarrow> json_depth j \<le> n) \<Longrightarrow> json_depth (JArr js) \<le> Suc n"
  by simp

lemma wf_depth_arr:
  assumes "\<forall>j\<in>set js. wf_json j \<and> json_depth j \<le> n" and "Suc n \<le> m"
  shows "wf_json (JArr js) \<and> json_depth (JArr js) \<le> m"
proof -
  have "json_depth (JArr js) \<le> Suc n" using assms(1) by (intro json_depth_arr) blast
  then show ?thesis using assms by (simp del: json_depth.simps)
qed

lemma read_action_json: "read_action (action_json a) = Ret (Inr (repair_action a))"
  by (simp add: read_action_def action_json_def read_version_def repair_action_def)

lemma read_actions_json: "read_actions (map action_json as) = Ret (Inr (map repair_action as))"
  by (induction as) (simp_all add: read_action_json)

lemma read_class_json:
  "actions c \<noteq> [] \<Longrightarrow> read_class (json_string (className c) # map action_json (actions c)) = Ret (Inr (repair_class c))"
  by (simp add: read_class_def read_actions_json repair_class_def Suc_le_eq)

lemma read_classes_json:
  "\<forall>c\<in>set cs. actions c \<noteq> [] \<Longrightarrow>
     read_classes (map (\<lambda>c. json_string (className c) # map action_json (actions c)) cs) = Ret (Inr (map repair_class cs))"
  by (induction cs) (simp_all add: read_class_json)

lemma read_protocols_json:
  "read_protocols (map (\<lambda>p. Some (json_string p)) ps) qs x = Ret (qs @ map utf8_repair ps, x)"
  by (induction ps arbitrary: qs) simp_all

lemma proxy_json_wf: "wf_json (proxy_json sp) \<and> json_depth (proxy_json sp) \<le> 4"
proof -
  have a: "wf_json (action_json a)" "json_depth (action_json a) \<le> 1" for a
    by (simp_all add: action_json_def json_string_def json_int_def scan_raw_enc_string [of _ "[]", simplified]
        scan_number_dec_int)
  have c: "wf_json (class_json c)" "json_depth (class_json c) \<le> 2" for c
    using a unfolding class_json_def by (auto intro!: json_depth_arr simp del: json_depth.simps)
       (simp_all add: json_string_def le_SucI)
  have "wf_json (JArr (map class_json (classes sp)))" "json_depth (JArr (map class_json (classes sp))) \<le> 3"
    using c by auto
  moreover have "wf_json (JArr (map json_string (protocols sp)))" by simp
  moreover have "json_depth (JArr (map json_string (protocols sp))) \<le> Suc 0" by (rule json_depth_arr) auto
  ultimately have "\<forall>j\<in>set [json_int (sp_version sp), json_string (ident sp), json_string (sector sp), json_int (weight sp),
     json_int (announceInterval sp), json_string (connspec sp), JArr (map json_string (protocols sp)),
     JArr (map class_json (classes sp)), timestamp_MarshalJSON (timestamp sp)]. wf_json j \<and> json_depth j \<le> 3"
    by (simp del: json_depth.simps wf_json.simps(3))
  then show ?thesis unfolding proxy_json_def by (rule wf_depth_arr) simp
qed

lemma parse_proxy_json: "parse_json (serviceProxy_MarshalJSON sp) = Some (proxy_json sp)"
  using parse_print_json [of "proxy_json sp" "[]"] proxy_json_wf [of sp]
  by (simp add: serviceProxy_MarshalJSON_def maxNestingDepth_def)

lemma raw_lists_classes:
  "raw_lists (JArr (map class_json cs)) = Some (map (\<lambda>c. json_string (className c) # map action_json (actions c)) cs)"
  by (simp add: raw_lists_def class_json_def comp_def)

lemma raw_pointers_strings: "raw_pointers (JArr (map json_string ps)) = Some (map (\<lambda>p. Some (json_string p)) ps)"
  by (simp add: raw_pointers_def)

lemma newServiceProxy_MarshalJSON:
  assumes "\<forall>c\<in>set (classes sp). actions c \<noteq> []"
  shows "newServiceProxy (serviceProxy_MarshalJSON sp) cert sig
    = Ret (Inr (announced sp (serviceProxy_MarshalJSON sp) cert sig))"
  using read_classes_json [OF assms]
  by (simp add: newServiceProxy_def parse_proxy_json proxy_json_def raw_lists_classes raw_pointers_strings
      read_protocols_json announced_def del: map_map)

subsection \<open>What an accepted class record looks like\<close>

lemma read_class_nonempty: "read_class r = Ret (Inr c) \<Longrightarrow> actions c \<noteq> []"
proof -
  assume r: "read_class r = Ret (Inr c)"
  then have "\<not> length r < 2" by (auto simp: read_class_def)
  then obtain x y ys where xy: "r = x # y # ys" by (cases r; cases "tl r") auto
  from r show ?thesis by (auto simp: read_class_def xy res_bind_Ret_Inr simp del: entry_Ret)
qed

lemma read_classes_nonempty: "read_classes rs = Ret (Inr cs) \<Longrightarrow> \<forall>c\<in>set cs. actions c \<noteq> []"
  by (induction rs arbitrary: cs) (auto simp: res_bind_Ret_Inr dest: read_class_nonempty)

lemma newServiceProxy_InrD:
  assumes "newServiceProxy raw cert sig = Ret (Inr sp)"
  shows "\<exists>recs. Option.bind (parse_json raw) raw_list = Some recs \<and> 8 \<le> length recs
    \<and> unmarshal_string (recs ! 1) [] = Some (ident sp) \<and> unmarshal_string (recs ! 2) [] = Some (sector sp)
    \<and> unmarshal_string (recs ! 5) [] = Some (connspec sp)
    \<and> (\<forall>c\<in>set (classes sp). actions c \<noteq> []) \<and> rawClassRecords sp = raw \<and> rawCert sp = cert \<and> rawSig sp = sig"
proof -
  obtain recs where recs: "Option.bind (parse_json raw) raw_list = Some recs"
    using assms by (auto simp: newServiceProxy_def split: option.splits)
  show ?thesis using assms unfolding newServiceProxy_def recs
    by (auto simp: res_bind_Ret_Inr go_bind_Ret_conv entry_Inr dest: read_classes_nonempty simp del: entry_Ret
        intro!: exI [of _ recs])
qed

lemma entry_append: "i < length js \<Longrightarrow> entry (js @ extra) i um = entry js i um"
  by (simp add: nth_append)

lemma newServiceProxy_extra:
  assumes "parse_json raw = Some (JArr recs)" and "parse_json raw' = Some (JArr (recs @ extra))" and "8 \<le> length recs"
    and "newServiceProxy raw cert sig = Ret (Inr sp)"
  shows "newServiceProxy raw' cert sig = Ret (Inr (sp\<lparr>rawClassRecords := raw'\<rparr>))"
proof -
  have l: "recs \<noteq> []" "Suc 0 < length recs" "2 < length recs" "3 < length recs" "4 < length recs" "5 < length recs" "6 < length recs"
    "7 < length recs" using assms(3) by auto
  show ?thesis using assms(4) unfolding newServiceProxy_def assms(1,2)
    by (auto simp: entry_append l res_bind_Ret_Inr go_bind_Ret_conv simp del: entry_Ret)
qed

subsection \<open>Properties\<close>

text \<open>
  C34. The class record that a proxy writes is read back by \<^verbatim>\<open>newServiceProxy\<close> into the same proxy (invalid
  UTF-8 replaced; the extension and the time stamp do not travel), when each of its classes has an action.
\<close>

theorem class_record_roundtrip:
  assumes "\<forall>c\<in>set (classes sp). actions c \<noteq> []"
  shows "newServiceProxy (serviceProxy_MarshalJSON sp) cert sig
    = Ret (Inr (announced sp (serviceProxy_MarshalJSON sp) cert sig))"
  by (rule newServiceProxy_MarshalJSON [OF assms])

definition demo_proxy :: serviceProxy where
  "demo_proxy = zeroProxy\<lparr>sp_version := 3, ident := ''logger:abc'', sector := ''main'', weight := 1,
     connspec := ''beepish+tls://10.0.0.1:30100'', protocols := [''json''],
     classes := [\<lparr>className = ''Logger'', actions = [\<lparr>actionName = ''info'', crudTags = [], ad_version = 1\<rparr>]\<rparr>]\<rparr>"

theorem class_record_roundtrip_witness:
  "\<exists>sp. newServiceProxy (serviceProxy_MarshalJSON demo_proxy) ''cert'' ''sig'' = Ret (Inr sp)
     \<and> ad_version (hd (actions (hd (classes sp)))) = 1"
  using class_record_roundtrip [of demo_proxy "''cert''" "''sig''"]
  by (simp add: demo_proxy_def announced_def repair_class_def repair_action_def)

text \<open>
  A class record that is accepted is a JSON array of at least eight entries, its ident, sector and
  address are the strings at their positions, every class has an action, and the raw texts are kept
  as they were given, for the check of the signature.
\<close>

lemma class_record_accepted:
  assumes "newServiceProxy raw cert sig = Ret (Inr sp)"
  shows "\<exists>recs. Option.bind (parse_json raw) raw_list = Some recs \<and> 8 \<le> length recs
    \<and> unmarshal_string (recs ! 1) [] = Some (ident sp) \<and> unmarshal_string (recs ! 2) [] = Some (sector sp)
    \<and> unmarshal_string (recs ! 5) [] = Some (connspec sp)
    \<and> (\<forall>c\<in>set (classes sp). actions c \<noteq> []) \<and> rawClassRecords sp = raw \<and> rawCert sp = cert \<and> rawSig sp = sig"
  by (rule newServiceProxy_InrD [OF assms])

text \<open>
  The number of entries is not checked: a record of nine entries with anything appended is accepted
  as well, and a record without entries panics instead of being refused.
\<close>

lemma class_record_length_unchecked:
  assumes "parse_json raw = Some (JArr recs)" and "parse_json raw' = Some (JArr (recs @ extra))" and "8 \<le> length recs"
    and "newServiceProxy raw cert sig = Ret (Inr sp)"
  shows "newServiceProxy raw' cert sig = Ret (Inr (sp\<lparr>rawClassRecords := raw'\<rparr>))
    \<and> newServiceProxy (print_json (JArr [])) cert sig = Panic ''index out of range''"
proof -
  have "parse_json (print_json (JArr [])) = Some (JArr [])"
    using parse_print_json [of "JArr []" "[]"] by (simp add: maxNestingDepth_def)
  then show ?thesis using newServiceProxy_extra [OF assms]
    by (simp add: newServiceProxy_def entry_def go_index_def del: entry_Ret)
qed

end
