(* ===== verification/Go_Scanner.thy ===== *)
theory Go_Scanner
  imports Go_Strconv
begin

text \<open>
  \<^verbatim>\<open>bufio.Scanner\<close> over a text, splitting lines, and \<^verbatim>\<open>strings.ToLower\<close>.

  The scanner keeps at most 65536 bytes. When no line ends within them it stops with an error; the
  next call then treats what it holds as the last line.
\<close>

subsection \<open>Scanning lines\<close>

definition maxTokenSize :: nat where "maxTokenSize = 65536"

record scanner =
  sc_data :: bytes
  sc_failed :: bool

definition new_scanner :: "bytes \<Rightarrow> scanner" where
  "new_scanner s = \<lparr>sc_data = s, sc_failed = False\<rparr>"

definition drop_cr :: "bytes \<Rightarrow> bytes" where
  "drop_cr l = (if l \<noteq> [] \<and> last l = CR then butlast l else l)"

text \<open>\<^verbatim>\<open>Scan\<close>, with what \<^verbatim>\<open>Bytes\<close> returns after it.\<close>

definition Scan :: "scanner \<Rightarrow> (bool \<times> bytes) \<times> scanner" where
  "Scan s =
     (let d = sc_data s; line = takeWhile (\<lambda>c. c \<noteq> LF) d in
      if d = [] then ((False, []), s)
      else if length line < length d \<and> length line < maxTokenSize then
        ((True, drop_cr line), s\<lparr>sc_data := drop (Suc (length line)) d\<rparr>)
      else if length d < maxTokenSize \<or> sc_failed s then ((True, drop_cr d), s\<lparr>sc_data := []\<rparr>)
      else ((False, []), \<lparr>sc_data = take maxTokenSize d, sc_failed = True\<rparr>))"

lemma Scan_True_decreases: "Scan s = ((True, l), s') \<Longrightarrow> length (sc_data s') < length (sc_data s)"
  by (auto simp: Scan_def Let_def split: if_splits)

lemma Scan_le: "Scan s = (r, s') \<Longrightarrow> length (sc_data s') \<le> length (sc_data s)"
  by (auto simp: Scan_def Let_def split: if_splits)

definition scan_line :: "bytes \<Rightarrow> bool" where
  "scan_line l \<longleftrightarrow> LF \<notin> set l \<and> (l = [] \<or> last l \<noteq> CR) \<and> length l < maxTokenSize"

lemma Scan_line:
  assumes "scan_line l"
  shows "Scan \<lparr>sc_data = l @ LF # t, sc_failed = b\<rparr> = ((True, l), \<lparr>sc_data = t, sc_failed = b\<rparr>)"
proof -
  have "takeWhile (\<lambda>c. c \<noteq> LF) (l @ LF # t) = l"
    using assms by (intro takeWhile_append_stop) (auto simp: scan_line_def)
  then show ?thesis using assms by (auto simp: Scan_def Let_def scan_line_def drop_cr_def)
qed

lemma Scan_Nil [simp]: "Scan \<lparr>sc_data = [], sc_failed = b\<rparr> = ((False, []), \<lparr>sc_data = [], sc_failed = b\<rparr>)"
  by (simp add: Scan_def)

text \<open>The text of some lines.\<close>

definition lines_text :: "bytes list \<Rightarrow> bytes" where
  "lines_text ls = concat (map (\<lambda>l. l @ [LF]) ls)"

lemma lines_text_simps [simp]: "lines_text [] = []" "lines_text (l # ls) = l @ LF # lines_text ls"
  by (simp_all add: lines_text_def)

subsection \<open>Lower case\<close>

text \<open>
  \<^verbatim>\<open>strings.ToLower\<close>, for the rune mapping \<^verbatim>\<open>unicode.ToLower\<close> of the library's tables: an ASCII text is
  mapped byte by byte, any other text rune by rune (an invalid byte becomes U+FFFD).
\<close>

definition lower_ascii :: "char \<Rightarrow> char" where
  "lower_ascii c = (if 65 \<le> code c \<and> code c \<le> 90 then char_of (code c + 32) else c)"

function lower_runes :: "(nat \<Rightarrow> nat) \<Rightarrow> bytes \<Rightarrow> bytes" where
  "lower_runes lower s =
     (if s = [] then []
      else encode_rune (lower (fst (decode_rune s))) @ lower_runes lower (drop (snd (decode_rune s)) s))"
  by pat_completeness auto
termination
  by (relation "measure (\<lambda>(lower, s). length s)") (auto dest: drop_rune_less)

declare lower_runes.simps [simp del]

definition ToLower :: "(nat \<Rightarrow> nat) \<Rightarrow> bytes \<Rightarrow> bytes" where
  "ToLower lower s = (if list_all (\<lambda>c. code c < 0x80) s then map lower_ascii s else lower_runes lower s)"

lemma lower_ascii_idem [simp]: "lower_ascii (lower_ascii c) = lower_ascii c"
  by (simp add: lower_ascii_def)

lemma lower_ascii_ascii: "code c < 0x80 \<Longrightarrow> code (lower_ascii c) < 0x80"
  by (auto simp: lower_ascii_def)

end
