(* ===== verification/Go_Json_Text.thy ===== *)
theory Go_Json_Text
  imports Go_Json_Value
begin

text \<open>A JSON text that the encoder prints is one line: it contains no line feed and no other control byte.\<close>

definition printable :: "bytes \<Rightarrow> bool" where
  "printable s \<longleftrightarrow> (\<forall>c\<in>set s. 0x20 \<le> code c)"

lemma printable_append [simp]: "printable (s @ t) \<longleftrightarrow> printable s \<and> printable t"
  by (auto simp: printable_def)

lemma printable_Cons [simp]: "printable (c # s) \<longleftrightarrow> 0x20 \<le> code c \<and> printable s"
  by (auto simp: printable_def)

lemma printable_Nil [simp]: "printable []"
  by (simp add: printable_def)

lemma printable_no_LF: "printable s \<Longrightarrow> LF \<notin> set s" "printable s \<Longrightarrow> CR \<notin> set s"
  by (auto simp: printable_def)

lemma printable_digits: "list_all is_digit s \<Longrightarrow> printable s"
  by (auto simp: printable_def list_all_iff is_digit_def)

lemma hex_val_printable: "hex_val c = Some v \<Longrightarrow> 0x20 \<le> code c"
  by (auto simp: hex_val_def Let_def split: if_splits)

lemma hex4_printable: "hex4 a b x y = Some v \<Longrightarrow> printable [a, b, x, y]"
  by (auto simp: hex4.simps split: option.splits dest: hex_val_printable)

lemma raw_unit_printable: "raw_unit s = Some n \<Longrightarrow> printable (take n s)"
proof (cases s)
  case (Cons c cs)
  assume r: "raw_unit s = Some n"
  show ?thesis
  proof (cases "c = BACKSLASH")
    case True
    with r Cons obtain e es where cs: "cs = e # es" by (cases cs) (auto simp: raw_unit_def)
    show ?thesis
    proof (cases "simple_escape e")
      case None
      with r Cons True cs have g: "getu4 s \<noteq> None" and n: "n = 6" by (auto simp: raw_unit_def split: if_splits)
      from g Cons True cs obtain a b x y zs where "es = a # b # x # y # zs" "e = CHR ''u''" "hex4 a b x y \<noteq> None"
        by (auto simp: getu4_def split: list.splits if_splits)
      then show ?thesis using hex4_printable [of a b x y] Cons True cs n by auto
    next
      case (Some d)
      with r Cons True cs have "n = 2" by (auto simp: raw_unit_def)
      moreover have "0x20 \<le> code e" using Some unfolding simple_escape_def by (simp split: if_splits) (elim disjE; simp)
      ultimately show ?thesis using Cons True cs by simp
    qed
  next
    case False
    with r Cons show ?thesis by (auto simp: raw_unit_def split: if_splits)
  qed
qed (simp)

lemma scan_raw_printable: "scan_raw s = Some (r, u) \<Longrightarrow> printable r"
  by (induction rule: scan_raw_induct) (auto dest: raw_unit_printable)

lemma scan_number_printable: "scan_number s = Some (l, r) \<Longrightarrow> printable l"
proof -
  assume a: "scan_number s = Some (l, r)"
  obtain g s0 where g: "scan_sign s = (g, s0)" by (cases "scan_sign s")
  have t: "printable (takeWhile is_digit u)" for u
    by (rule printable_digits) (auto simp: list_all_iff dest: set_takeWhileD)
  have d: "scan_digits u = Some (d, v) \<Longrightarrow> printable d" for u d v
    using t [of u] by (auto simp: scan_digits_def split: if_splits)
  from a g obtain i s1 f s2 x where
    n: "scan_int_part s0 = Some (i, s1)" "scan_frac s1 = Some (f, s2)" "scan_exp s2 = Some (x, r)" "l = g @ i @ f @ x"
    by (auto simp: scan_number_def split: option.splits)
  have "printable g" using g by (auto simp: scan_sign_def split: list.splits if_splits)
  moreover have "printable i" using n(1) t by (auto simp: scan_int_part_def is_digit_def split: list.splits if_splits)
  moreover have "printable f" using n(2) by (auto simp: scan_frac_def split: list.splits if_splits dest: d)
  moreover have "printable x" using n(3) by (auto simp: scan_exp_def split: list.splits if_splits dest: d)
  ultimately show ?thesis using n(4) by simp
qed

lemma set_commas: "set (commas xss) \<subseteq> insert TComma (\<Union> (set ` set xss))"
  by (cases xss) auto

lemma texts_printable: "(\<forall>t\<in>set ts. printable (text_of t)) \<Longrightarrow> printable (texts ts)"
  by (induction ts) (auto simp: texts_def)

lemma toks_printable: "wf_json j \<Longrightarrow> \<forall>t\<in>set (toks j). printable (text_of t)"
proof (induction j rule: toks.induct)
  case (3 n)
  then show ?case using scan_number_printable [of n n "[]"] by simp
next
  case (4 r)
  then show ?case using scan_raw_printable by auto
next
  case (5 js)
  then show ?case using set_commas [of "map toks js"] by fastforce
next
  case (6 ms)
  have k: "\<forall>t\<in>set (TStr k # TColon # toks x). printable (text_of t)" if m: "(k, x) \<in> set ms" for k x
  proof -
    have "scan_raw (k @ [DQUOTE]) = Some (k, [])" "wf_json x" using m "6.prems" by auto
    then show ?thesis using "6.IH" [OF m] scan_raw_printable by auto
  qed
  then show ?case using set_commas [of "map (\<lambda>(k, j). TStr k # TColon # toks j) ms"] by fastforce
qed auto

lemma print_json_printable: "wf_json j \<Longrightarrow> printable (print_json j)"
  unfolding print_json_def by (intro texts_printable toks_printable)

end
