(* ===== verification/ServiceCache.thy ===== *)
theory ServiceCache
  imports ServiceProxy Go_Scanner Go_Json_Text "HOL-Library.AList"
begin

text \<open>
  The service cache (\<^verbatim>\<open>scamp/servicecache.go\<close>): its two indexes, storing, removing and searching, and
  the scan of the cache file.

  Both Go maps are association lists with one entry per key; their order stands for the order in which Go
  iterates over the map. The read-write lock is held by every operation for its whole duration, so an
  operation is one step. The rune table of \<^verbatim>\<open>unicode.ToLower\<close> is the argument \<open>lower\<close>.
\<close>

record ServiceCache =
  path :: bytes
  identIndex :: "(bytes \<times> serviceProxy) list"
  actionIndex :: "(bytes \<times> serviceProxy list) list"
  verifyRecords :: bool

definition emptyCache :: "bytes \<Rightarrow> ServiceCache" where
  "emptyCache p = \<lparr>path = p, identIndex = [], actionIndex = [], verifyRecords = True\<rparr>"

definition DisableRecordVerification :: "ServiceCache \<Rightarrow> ServiceCache" where
  "DisableRecordVerification cache = cache\<lparr>verifyRecords := True\<rparr>"

definition EnableRecordVerification :: "ServiceCache \<Rightarrow> ServiceCache" where
  "EnableRecordVerification cache = cache\<lparr>verifyRecords := False\<rparr>"

subsection \<open>The index of actions\<close>

text \<open>
  The interface: a table of lists, in which an entry is appended under a key.
\<close>

locale multi_index =
  fixes lookup :: "'i \<Rightarrow> 'k \<Rightarrow> 'v list" and add :: "'k \<Rightarrow> 'v \<Rightarrow> 'i \<Rightarrow> 'i"
  assumes lookup_add: "lookup (add k v i) k' = (if k = k' then lookup i k @ [v] else lookup i k')"
begin

definition add_all :: "('k \<times> 'v) list \<Rightarrow> 'i \<Rightarrow> 'i" where
  "add_all kvs i = fold (\<lambda>(k, v). add k v) kvs i"

lemma lookup_add_all: "lookup (add_all kvs i) k = lookup i k @ map snd (filter (\<lambda>kv. fst kv = k) kvs)"
  unfolding add_all_def by (induction kvs arbitrary: i) (auto simp: lookup_add)

end

definition index_lookup :: "(bytes \<times> 'v list) list \<Rightarrow> bytes \<Rightarrow> 'v list" where
  "index_lookup idx k = (case map_of idx k of None \<Rightarrow> [] | Some vs \<Rightarrow> vs)"

definition index_add :: "bytes \<Rightarrow> 'v \<Rightarrow> (bytes \<times> 'v list) list \<Rightarrow> (bytes \<times> 'v list) list" where
  "index_add k v idx = (case map_of idx k of
     Some vs \<Rightarrow> AList.update k (vs @ [v]) idx
   | None \<Rightarrow> AList.update k [v] idx)"

interpretation action_index: multi_index "index_lookup :: (bytes \<times> serviceProxy list) list \<Rightarrow> _" index_add
  by unfold_locales (auto simp: index_lookup_def index_add_def update_conv' split: option.split)

subsection \<open>Operations\<close>

text \<open>\<^verbatim>\<open>"%s:%s.%s~%d#%s"\<close> in lower case.\<close>

definition munged_action :: "(nat \<Rightarrow> nat) \<Rightarrow> bytes \<Rightarrow> bytes \<Rightarrow> bytes \<Rightarrow> goint \<Rightarrow> bytes \<Rightarrow> bytes" where
  "munged_action lower sct cls act ver proto =
     ToLower lower (sct @ '':'' @ cls @ ''.'' @ act @ ''~'' @ dec_int ver @ ''#'' @ proto)"

text \<open>The names under which the three nested loops enter a proxy, in their order.\<close>

definition store_names :: "(nat \<Rightarrow> nat) \<Rightarrow> serviceProxy \<Rightarrow> bytes list" where
  "store_names lower sp =
     concat (map (\<lambda>c. concat (map (\<lambda>a. map (\<lambda>p. munged_action lower (sector sp) (className c) (actionName a) (ad_version a) p)
       (protocols sp)) (actions c))) (classes sp))"

definition storeNoLock :: "(nat \<Rightarrow> nat) \<Rightarrow> serviceProxy \<Rightarrow> ServiceCache \<Rightarrow> ServiceCache" where
  "storeNoLock lower sp cache = cache\<lparr>
     identIndex := AList.update (ident sp) sp (identIndex cache),
     actionIndex := fold (\<lambda>nm idx. index_add nm sp idx) (store_names lower sp) (actionIndex cache)\<rparr>"

definition Store :: "(nat \<Rightarrow> nat) \<Rightarrow> serviceProxy \<Rightarrow> ServiceCache \<Rightarrow> ServiceCache" where
  "Store lower sp cache = storeNoLock lower sp cache"

definition ActionList :: "ServiceCache \<Rightarrow> bytes list" where
  "ActionList cache = map fst (actionIndex cache)"

definition removeNoLock :: "serviceProxy \<Rightarrow> ServiceCache \<Rightarrow> gerror option \<times> ServiceCache" where
  "removeNoLock sp cache = (case map_of (identIndex cache) (ident sp) of
     None \<Rightarrow> (Some (''tried removing an ident which was not being tracked: '' @ ident sp), cache)
   | Some _ \<Rightarrow> (None, cache\<lparr>identIndex := AList.delete (ident sp) (identIndex cache)\<rparr>))"

definition clearNoLock :: "ServiceCache \<Rightarrow> ServiceCache" where
  "clearNoLock cache = cache\<lparr>identIndex := [], actionIndex := []\<rparr>"

definition Retrieve :: "bytes \<Rightarrow> ServiceCache \<Rightarrow> serviceProxy option" where
  "Retrieve idn cache = map_of (identIndex cache) idn"

definition SearchByAction ::
  "(nat \<Rightarrow> nat) \<Rightarrow> bytes \<Rightarrow> bytes \<Rightarrow> goint \<Rightarrow> bytes \<Rightarrow> ServiceCache \<Rightarrow> serviceProxy list \<times> gerror option" where
  "SearchByAction lower sct action ver envelope cache =
     (let mungedName = ToLower lower (sct @ '':'' @ action @ ''~'' @ dec_int ver @ ''#'' @ envelope);
          instances = index_lookup (actionIndex cache) mungedName
      in if instances = [] then ([], Some (''no instances found of '' @ mungedName)) else (instances, None))"

definition Size :: "ServiceCache \<Rightarrow> nat" where "Size cache = length (identIndex cache)"

definition All_cache :: "ServiceCache \<Rightarrow> serviceProxy list" where "All_cache cache = map snd (identIndex cache)"

subsection \<open>Scanning the cache file\<close>

definition sep :: bytes where "sep = ''%%%''"

text \<open>The inner loop that looks for a separator: whether one was found.\<close>

function skip_to_sep :: "scanner \<Rightarrow> bool \<times> scanner" where
  "skip_to_sep s = (case Scan s of ((didScan, l), s') \<Rightarrow>
     if \<not> didScan then (False, s') else if l = sep then (True, s') else skip_to_sep s')"
  by pat_completeness auto
termination
  by (relation "measure (\<lambda>s. length (sc_data s))") (auto dest: Scan_True_decreases [OF sym])

text \<open>The loops that collect the lines of the certificate (\<open>stop = []\<close>) and of the signature (\<open>stop = [sep]\<close>).\<close>

function read_block :: "bytes list \<Rightarrow> bytes \<Rightarrow> scanner \<Rightarrow> bytes \<times> scanner" where
  "read_block stop buf s = (case Scan s of ((didScan, l), s') \<Rightarrow>
     if \<not> didScan then (buf, s')
     else if l = [] \<or> l \<in> set stop then (buf, s')
     else read_block stop (buf @ l @ [LF]) s')"
  by pat_completeness auto
termination
  by (relation "measure (\<lambda>(stop, buf, s). length (sc_data s))") (auto dest: Scan_True_decreases [OF sym])

declare skip_to_sep.simps [simp del] read_block.simps [simp del]

lemma skip_to_sep_le: "skip_to_sep s = (b, s') \<Longrightarrow> length (sc_data s') \<le> length (sc_data s) \<and> (b \<longrightarrow> length (sc_data s') < length (sc_data s))"
proof (induction s rule: skip_to_sep.induct)
  case (1 s)
  obtain d l s1 where s: "Scan s = ((d, l), s1)" by (metis prod.exhaust)
  with 1 Scan_le [OF s] Scan_True_decreases [of s l s1] show ?case
    by (subst (asm) (2) skip_to_sep.simps) (fastforce split: if_splits)
qed

lemma read_block_le: "read_block stop buf s = (b, s') \<Longrightarrow> length (sc_data s') \<le> length (sc_data s)"
proof (induction stop buf s rule: read_block.induct)
  case (1 stop buf s)
  obtain d l s1 where s: "Scan s = ((d, l), s1)" by (metis prod.exhaust)
  with 1 Scan_le [OF s] show ?case
    by (subst (asm) (2) read_block.simps) (fastforce split: if_splits)
qed

datatype scan_error = ExpectedNewline | NewServiceProxyError proxy_error

text \<open>
  The outer loop; \<open>validate\<close> is whether \<^verbatim>\<open>Validate\<close> accepts a proxy. Every turn that goes on has consumed a
  separator.
\<close>

function scan_loop ::
  "(nat \<Rightarrow> nat) \<Rightarrow> (serviceProxy \<Rightarrow> bool) \<Rightarrow> scanner \<Rightarrow> ServiceCache \<Rightarrow> (scan_error option \<times> ServiceCache) go" where
  "scan_loop lower validate s cache = (case skip_to_sep s of
     (False, s1) \<Rightarrow> Ret (None, cache)
   | (True, s1) \<Rightarrow> (case Scan s1 of ((_, classRecordsRaw), s2) \<Rightarrow>
       if classRecordsRaw = [] then Ret (None, cache)
       else (case Scan s2 of ((_, blank), s3) \<Rightarrow>
         if blank \<noteq> [] then Ret (Some ExpectedNewline, cache)
         else (case read_block [] [] s3 of (certBytes, s4) \<Rightarrow>
           if certBytes = [] then scan_loop lower validate s4 cache
           else (case read_block [sep] [] s4 of (sigBytes, s5) \<Rightarrow>
             if sigBytes = [] then scan_loop lower validate s5 cache
             else (case newServiceProxy classRecordsRaw (butlast certBytes) (butlast sigBytes) of
                 Panic m \<Rightarrow> Panic m
               | Deadlock \<Rightarrow> Deadlock
               | Ret (Inl e) \<Rightarrow> Ret (Some (NewServiceProxyError e), cache)
               | Ret (Inr sp) \<Rightarrow>
                   if verifyRecords cache \<and> \<not> validate sp then
                     scan_loop lower validate s5 (snd (removeNoLock sp cache))
                   else scan_loop lower validate s5 (storeNoLock lower sp cache)))))))"
  by pat_completeness auto
termination
  by (relation "measure (\<lambda>(_, _, s, _). length (sc_data s))")
     (auto dest!: skip_to_sep_le [OF sym] Scan_le [OF sym] read_block_le [OF sym])

declare scan_loop.simps [simp del]

definition DoScan ::
  "(nat \<Rightarrow> nat) \<Rightarrow> (serviceProxy \<Rightarrow> bool) \<Rightarrow> scanner \<Rightarrow> ServiceCache \<Rightarrow> (scan_error option \<times> ServiceCache) go" where
  "DoScan lower validate s cache = scan_loop lower validate s (clearNoLock cache)"

text \<open>What \<^verbatim>\<open>os.Stat\<close> and \<^verbatim>\<open>os.Open\<close> find at the path of the cache.\<close>

datatype cache_file = NoFile gerror | Directory | Unreadable gerror | Regular bytes

datatype refresh_error = FileError gerror | IsDirectory | ScanFailed scan_error

definition Refresh ::
  "(nat \<Rightarrow> nat) \<Rightarrow> (serviceProxy \<Rightarrow> bool) \<Rightarrow> (bytes \<Rightarrow> cache_file) \<Rightarrow> ServiceCache \<Rightarrow> (refresh_error option \<times> ServiceCache) go" where
  "Refresh lower validate fs cache = (case fs (path cache) of
     NoFile e \<Rightarrow> Ret (Some (FileError e), cache)
   | Directory \<Rightarrow> Ret (Some IsDirectory, cache)
   | Unreadable e \<Rightarrow> Ret (Some (FileError e), cache)
   | Regular text \<Rightarrow> go_bind (DoScan lower validate (new_scanner text) cache)
       (\<lambda>(e, cache1). Ret (map_option ScanFailed e, cache1)))"

definition NewServiceCache ::
  "(nat \<Rightarrow> nat) \<Rightarrow> (serviceProxy \<Rightarrow> bool) \<Rightarrow> (bytes \<Rightarrow> cache_file) \<Rightarrow> bytes \<Rightarrow> (refresh_error option \<times> ServiceCache) go" where
  "NewServiceCache lower validate fs p = Refresh lower validate fs (emptyCache p)"

subsection \<open>Splitting certificates\<close>

definition startCert :: bytes where "startCert = ''-----BEGIN CERTIFICATE-----''"
definition endCert :: bytes where "endCert = ''-----END CERTIFICATE-----''"

text \<open>The bytes to advance and the token, if any.\<close>

definition scanCertficates :: "bytes \<Rightarrow> bool \<Rightarrow> nat \<times> bytes option" where
  "scanCertficates data atEOF =
     (if atEOF \<and> data = [] then (0, None)
      else (case index_of startCert data of
          None \<Rightarrow> (0, None)
        | Some _ \<Rightarrow> (case index_of endCert data of
            Some i \<Rightarrow> (i + length endCert, Some (take (i + length endCert) data))
          | None \<Rightarrow> (0, None))))"

subsection \<open>Retrying\<close>

definition MaxRetries :: nat where "MaxRetries = 10"

datatype do_error = MaxRetriesReached | FnError gerror

text \<open>\<^verbatim>\<open>Do\<close> of a function that keeps its own state.\<close>

function do_loop :: "(nat \<Rightarrow> 's \<Rightarrow> (bool \<times> gerror option) \<times> 's) \<Rightarrow> nat \<Rightarrow> 's \<Rightarrow> do_error option \<times> 's" where
  "do_loop fn attempt st = (case fn attempt st of
     ((cont, err), st1) \<Rightarrow>
       if \<not> cont \<or> err = None then (map_option FnError err, st1)
       else if attempt + 1 > MaxRetries then (Some MaxRetriesReached, st1)
       else do_loop fn (attempt + 1) st1)"
  by pat_completeness auto
termination
  by (relation "measure (\<lambda>(fn, attempt, st). MaxRetries - attempt)") auto

declare do_loop.simps [simp del]

definition Do :: "(nat \<Rightarrow> 's \<Rightarrow> (bool \<times> gerror option) \<times> 's) \<Rightarrow> 's \<Rightarrow> do_error option \<times> 's" where
  "Do fn st = do_loop fn 1 st"

definition IsMaxRetries :: "do_error option \<Rightarrow> bool" where
  "IsMaxRetries e \<longleftrightarrow> e = Some MaxRetriesReached"

subsection \<open>What the indexes hold\<close>

lemma fold_index_add:
  "fold (\<lambda>nm idx. index_add nm sp idx) nms idx = action_index.add_all (map (\<lambda>nm. (nm, sp)) nms) idx"
  unfolding action_index.add_all_def by (induction nms arbitrary: idx) auto

lemma lookup_store:
  "index_lookup (actionIndex (storeNoLock lower sp c)) k
     = index_lookup (actionIndex c) k @ map (\<lambda>_. sp) (filter (\<lambda>nm. nm = k) (store_names lower sp))"
  by (simp add: storeNoLock_def fold_index_add action_index.lookup_add_all filter_map comp_def)

text \<open>The abstract content of the cache: the proxies that were stored, in order.\<close>

definition entries :: "(nat \<Rightarrow> nat) \<Rightarrow> serviceProxy list \<Rightarrow> bytes \<Rightarrow> serviceProxy list" where
  "entries lower sps k = concat (map (\<lambda>sp. map (\<lambda>_. sp) (filter (\<lambda>nm. nm = k) (store_names lower sp))) sps)"

definition store_all :: "(nat \<Rightarrow> nat) \<Rightarrow> serviceProxy list \<Rightarrow> ServiceCache \<Rightarrow> ServiceCache" where
  "store_all lower sps c = fold (storeNoLock lower) sps c"

lemma lookup_store_all: "index_lookup (actionIndex (store_all lower sps c)) k = index_lookup (actionIndex c) k @ entries lower sps k"
  unfolding store_all_def entries_def by (induction sps arbitrary: c) (simp_all add: lookup_store)

lemma retrieve_store: "map_of (identIndex (storeNoLock lower sp c)) = (map_of (identIndex c))(ident sp \<mapsto> sp)"
  by (simp add: storeNoLock_def update_conv')

lemma retrieve_store_all:
  "map_of (identIndex (store_all lower sps c)) i
     = (case find (\<lambda>sp. ident sp = i) (rev sps) of Some sp \<Rightarrow> Some sp | None \<Rightarrow> map_of (identIndex c) i)"
proof (induction sps arbitrary: c)
  case (Cons sp sps)
  have "find P (xs @ ys) = (case find P xs of None \<Rightarrow> find P ys | Some x \<Rightarrow> Some x)" for P and xs ys :: "serviceProxy list"
    by (induction xs) auto
  then show ?case using Cons [of "storeNoLock lower sp c"]
    by (auto simp: store_all_def retrieve_store split: option.splits)
qed (simp add: store_all_def)

lemma store_verify [simp]: "verifyRecords (storeNoLock lower sp c) = verifyRecords c"
  by (simp add: storeNoLock_def)

subsection \<open>Reading announcements\<close>

definition announcement :: "bytes \<Rightarrow> bytes list \<Rightarrow> bytes list \<Rightarrow> bytes" where
  "announcement record cert sig = lines_text [sep, record, []] @ lines_text cert @ lines_text [[]] @ lines_text sig @ lines_text [[]]"

definition block_lines :: "bytes list \<Rightarrow> bool" where
  "block_lines ls \<longleftrightarrow> ls \<noteq> [] \<and> (\<forall>l\<in>set ls. scan_line l \<and> l \<noteq> [] \<and> l \<noteq> sep)"

abbreviation at :: "bytes \<Rightarrow> scanner" where "at t \<equiv> \<lparr>sc_data = t, sc_failed = False\<rparr>"

lemma Scan_at: "scan_line l \<Longrightarrow> Scan (at (l @ LF # t)) = ((True, l), at t)"
  by (rule Scan_line)

lemma scan_line_Nil [simp]: "scan_line []" "scan_line sep"
  by (simp_all add: scan_line_def maxTokenSize_def sep_def)

lemma sep_not_Nil [simp]: "sep \<noteq> []"
  by (simp add: sep_def)

lemma skip_to_sep_at: "skip_to_sep (at (sep @ LF # t)) = (True, at t)"
  by (subst skip_to_sep.simps) (simp add: Scan_at)

lemma read_block_at:
  "\<forall>l\<in>set ls. scan_line l \<and> l \<noteq> [] \<and> l \<notin> set stop \<Longrightarrow>
     read_block stop buf (at (lines_text ls @ LF # t)) = (buf @ lines_text ls, at t)"
proof (induction ls arbitrary: buf)
  case Nil
  show ?case using Scan_at [of "[]" t] by (subst read_block.simps) simp
next
  case (Cons l ls)
  then show ?case using Scan_at [of l "lines_text ls @ LF # t"] by (subst read_block.simps) simp
qed

lemma butlast_lines: "ls \<noteq> [] \<Longrightarrow> butlast (lines_text ls) = join_with [LF] ls \<and> lines_text ls \<noteq> []"
  by (induction "[LF]" ls rule: join_with.induct) (auto simp: butlast_append)

lemma scan_loop_announcement:
  assumes "scan_line record" "record \<noteq> []" "block_lines cert" "block_lines sig"
    and "newServiceProxy record (join_with [LF] cert) (join_with [LF] sig) = Ret (Inr sp)"
  shows "scan_loop lower validate (at (announcement record cert sig @ t)) c
    = scan_loop lower validate (at t)
        (if verifyRecords c \<and> \<not> validate sp then snd (removeNoLock sp c) else storeNoLock lower sp c)"
proof -
  have "skip_to_sep (at (announcement record cert sig @ t))
      = (True, at (record @ LF # [] @ LF # lines_text cert @ LF # lines_text sig @ LF # t))"
    using skip_to_sep_at by (simp add: announcement_def)
  moreover note Scan_at [OF assms(1), of "[] @ LF # lines_text cert @ LF # lines_text sig @ LF # t"]
  moreover note Scan_at [OF scan_line_Nil(1), of "lines_text cert @ LF # lines_text sig @ LF # t"]
  moreover have "read_block [] [] (at (lines_text cert @ LF # lines_text sig @ LF # t)) = ([] @ lines_text cert, at (lines_text sig @ LF # t))"
    using assms(3) by (intro read_block_at) (auto simp: block_lines_def)
  moreover have "read_block [sep] [] (at (lines_text sig @ LF # t)) = ([] @ lines_text sig, at t)"
    using assms(4) by (intro read_block_at) (auto simp: block_lines_def)
  moreover have "cert \<noteq> []" "sig \<noteq> []" using assms(3,4) by (auto simp: block_lines_def)
  ultimately show ?thesis using assms(2,5) butlast_lines [of cert] butlast_lines [of sig]
    by (subst scan_loop.simps) simp
qed

lemma scan_loop_end: "scan_loop lower validate (at []) c = Ret (None, c)"
  by (subst scan_loop.simps) (simp add: skip_to_sep.simps)

text \<open>A proxy with the lines of its certificate and of its signature.\<close>

type_synonym announced_proxy = "serviceProxy \<times> bytes list \<times> bytes list"

fun announcement_of :: "announced_proxy \<Rightarrow> bytes" where
  "announcement_of (sp, cert, sig) = announcement (serviceProxy_MarshalJSON sp) cert sig"

fun loaded :: "announced_proxy \<Rightarrow> serviceProxy" where
  "loaded (sp, cert, sig) = announced sp (serviceProxy_MarshalJSON sp) (join_with [LF] cert) (join_with [LF] sig)"

fun announceable :: "announced_proxy \<Rightarrow> bool" where
  "announceable (sp, cert, sig) \<longleftrightarrow> length (serviceProxy_MarshalJSON sp) < maxTokenSize
     \<and> (\<forall>c\<in>set (classes sp). actions c \<noteq> []) \<and> block_lines cert \<and> block_lines sig"

lemma MarshalJSON_line:
  "length (serviceProxy_MarshalJSON sp) < maxTokenSize \<Longrightarrow> scan_line (serviceProxy_MarshalJSON sp) \<and> serviceProxy_MarshalJSON sp \<noteq> []"
proof -
  assume l: "length (serviceProxy_MarshalJSON sp) < maxTokenSize"
  have p: "printable (serviceProxy_MarshalJSON sp)"
    using print_json_printable proxy_json_wf by (auto simp: serviceProxy_MarshalJSON_def)
  have "serviceProxy_MarshalJSON sp \<noteq> []"
    using parse_proxy_json [of sp] by (auto simp: parse_json_def)
  then show ?thesis using l printable_no_LF [OF p] by (auto simp: scan_line_def dest: last_in_set)
qed

lemma scan_loop_step:
  assumes "announceable a"
  shows "scan_loop lower validate (at (announcement_of a @ t)) c = scan_loop lower validate (at t)
    (if verifyRecords c \<and> \<not> validate (loaded a) then snd (removeNoLock (loaded a) c) else storeNoLock lower (loaded a) c)"
proof -
  obtain sp cert sig where a: "a = (sp, cert, sig)" by (metis prod.exhaust)
  have "newServiceProxy (serviceProxy_MarshalJSON sp) (join_with [LF] cert) (join_with [LF] sig) = Ret (Inr (loaded a))"
    using assms newServiceProxy_MarshalJSON [of sp] by (simp add: a)
  then show ?thesis using assms MarshalJSON_line [of sp] by (simp add: a scan_loop_announcement)
qed

lemma scan_loop_loads:
  assumes "list_all announceable as" and "list_all validate (map loaded as)"
  shows "scan_loop lower validate (at (concat (map announcement_of as))) c = Ret (None, store_all lower (map loaded as) c)"
  using assms
proof (induction as arbitrary: c)
  case (Cons a as)
  then show ?case
    using scan_loop_step [of a lower validate "concat (map announcement_of as)" c] by (simp add: store_all_def)
qed (simp add: scan_loop_end store_all_def)

subsection \<open>Only valid records\<close>

definition all_valid :: "(serviceProxy \<Rightarrow> bool) \<Rightarrow> ServiceCache \<Rightarrow> bool" where
  "all_valid validate c \<longleftrightarrow> verifyRecords c \<and> (\<forall>sp\<in>set (All_cache c). validate sp)
     \<and> (\<forall>k. \<forall>sp\<in>set (index_lookup (actionIndex c) k). validate sp)"

lemma all_valid_store:
  assumes "all_valid validate c" and "validate sp"
  shows "all_valid validate (storeNoLock lower sp c)"
proof -
  have "snd ` set (AList.update k v xs) \<subseteq> insert v (snd ` set xs)" for k v and xs :: "(bytes \<times> serviceProxy) list"
    by (induction xs) auto
  then have "set (All_cache (storeNoLock lower sp c)) \<subseteq> insert sp (set (All_cache c))"
    by (simp add: All_cache_def storeNoLock_def)
  then show ?thesis using assms by (auto simp: all_valid_def lookup_store)
qed

lemma all_valid_remove: "all_valid validate c \<Longrightarrow> all_valid validate (snd (removeNoLock sp c))"
  by (auto simp: all_valid_def removeNoLock_def All_cache_def AList.delete_eq split: option.splits)

lemma scan_loop_invariant:
  assumes "scan_loop lower validate s c = Ret (e, c')" and "P c"
    and remove: "\<And>sp c. P c \<Longrightarrow> verifyRecords c \<Longrightarrow> \<not> validate sp \<Longrightarrow> P (snd (removeNoLock sp c))"
    and store: "\<And>sp c. P c \<Longrightarrow> verifyRecords c \<longrightarrow> validate sp \<Longrightarrow> P (storeNoLock lower sp c)"
  shows "P c'"
  using assms(1,2) remove store
proof (induction lower validate s c rule: scan_loop.induct)
  case (1 lower validate s c)
  obtain b s1 where s1: "skip_to_sep s = (b, s1)" by (metis prod.exhaust)
  obtain d2 cr s2 where s2: "Scan s1 = ((d2, cr), s2)" by (metis prod.exhaust)
  obtain d3 blank s3 where s3: "Scan s2 = ((d3, blank), s3)" by (metis prod.exhaust)
  obtain cert s4 where s4: "read_block [] [] s3 = (cert, s4)" by (metis prod.exhaust)
  obtain sig s5 where s5: "read_block [sep] [] s4 = (sig, s5)" by (metis prod.exhaust)
  note eqs = s1 s2 s3 s4 s5
  consider (stop) "\<not> b \<or> cr = [] \<or> blank \<noteq> []" | (nocert) "b" "cr \<noteq> []" "blank = []" "cert = []"
    | (nosig) "b" "cr \<noteq> []" "blank = []" "cert \<noteq> []" "sig = []"
    | (all) "b" "cr \<noteq> []" "blank = []" "cert \<noteq> []" "sig \<noteq> []" by blast
  then show ?case
  proof cases
    case stop
    with "1.prems"(1,2) eqs show ?thesis by (subst (asm) scan_loop.simps) (cases b; auto split: if_splits)
  next
    case nocert
    with "1.prems"(1) eqs have "scan_loop lower validate s4 c = Ret (e, c')" by (subst (asm) scan_loop.simps) simp
    with "1.IH"(1) [OF s1 [symmetric] _ s2 [symmetric] refl _ s3 [symmetric] refl _ s4 [symmetric]] nocert "1.prems"(2-)
    show ?thesis by simp
  next
    case nosig
    with "1.prems"(1) eqs have "scan_loop lower validate s5 c = Ret (e, c')" by (subst (asm) scan_loop.simps) simp
    with "1.IH"(2) [OF s1 [symmetric] _ s2 [symmetric] refl _ s3 [symmetric] refl _ s4 [symmetric] _ s5 [symmetric]]
      nosig "1.prems"(2-)
    show ?thesis by simp
  next
    case all
    note IH = "1.IH"(3,4) [OF s1 [symmetric] _ s2 [symmetric] refl _ s3 [symmetric] refl _ s4 [symmetric] _ s5 [symmetric]]
    from all "1.prems"(1) eqs obtain r where r: "newServiceProxy cr (butlast cert) (butlast sig) = Ret r"
      by (subst (asm) scan_loop.simps) (auto split: go.splits)
    show ?thesis
    proof (cases r)
      case (Inl x)
      with "1.prems"(1,2) eqs all r show ?thesis by (subst (asm) scan_loop.simps) auto
    next
      case (Inr sp)
      show ?thesis
      proof (cases "verifyRecords c \<and> \<not> validate sp")
        case True
        then have "scan_loop lower validate s5 (snd (removeNoLock sp c)) = Ret (e, c')"
          using "1.prems"(1) eqs all r Inr by (subst (asm) scan_loop.simps) simp
        then show ?thesis using IH(1) [OF _ _ _ _ _ r Inr True] True all "1.prems"(2-) by simp
      next
        case False
        then have "scan_loop lower validate s5 (storeNoLock lower sp c) = Ret (e, c')"
          using "1.prems"(1) eqs all r Inr by (subst (asm) scan_loop.simps) (simp split: if_splits)
        then show ?thesis using IH(2) [OF _ _ _ _ _ r Inr False] False all "1.prems"(2-) by simp
      qed
    qed
  qed
qed

lemma scan_loop_valid:
  assumes "scan_loop lower validate s c = Ret (e, c')" and "all_valid validate c"
  shows "all_valid validate c'"
  using assms
proof (rule scan_loop_invariant)
  fix sp and c :: ServiceCache
  assume "all_valid validate c"
  then show "all_valid validate (snd (removeNoLock sp c))" by (rule all_valid_remove)
next
  fix sp c
  assume "all_valid validate c" "verifyRecords c \<longrightarrow> validate sp"
  then show "all_valid validate (storeNoLock lower sp c)" by (intro all_valid_store) (auto simp: all_valid_def)
qed

lemma do_loop_stops:
  assumes "\<And>a st. fn a st = ((cont a, err a), st)" and "\<not> cont k \<or> err k = None" and "a \<le> k" and "k \<le> MaxRetries"
    and "\<forall>j. a \<le> j \<and> j < k \<longrightarrow> cont j \<and> err j \<noteq> None"
  shows "do_loop fn a st = (map_option FnError (err k), st)"
  using assms(3,5)
proof (induction "k - a" arbitrary: a)
  case 0
  then show ?case using assms(1,2) by (subst do_loop.simps) auto
next
  case (Suc x)
  then have "cont a" "err a \<noteq> None" "a + 1 \<le> MaxRetries" using assms(4) by auto
  moreover have "do_loop fn (a + 1) st = (map_option FnError (err k), st)" using Suc by simp
  ultimately show ?case using assms(1) by (subst do_loop.simps) auto
qed

lemma do_loop_gives_up:
  assumes "\<And>a st. fn a st = ((cont a, err a), st)" and "\<forall>j. a \<le> j \<and> j \<le> MaxRetries \<longrightarrow> cont j \<and> err j \<noteq> None"
    and "a \<le> MaxRetries"
  shows "do_loop fn a st = (Some MaxRetriesReached, st)"
  using assms(2,3)
proof (induction "MaxRetries - a" arbitrary: a)
  case 0
  then show ?case using assms(1) by (subst do_loop.simps) auto
next
  case (Suc x)
  then have "cont a" "err a \<noteq> None" "a + 1 \<le> MaxRetries" by auto
  moreover have "do_loop fn (a + 1) st = (Some MaxRetriesReached, st)" using Suc by simp
  ultimately show ?case using assms(1) by (subst do_loop.simps) auto
qed

subsection \<open>Properties\<close>

text \<open>
  C11. Loading a cache file: when the file holds the announcements of some services, each valid and with lines
  that the scanner accepts, \<^verbatim>\<open>DoScan\<close> ends without an error and the cache holds exactly what these services
  announced, stored in the order of the file after clearing what was there.
\<close>

theorem cache_loads_announcements:
  assumes "list_all announceable as" and "list_all validate (map loaded as)"
  shows "DoScan lower validate (new_scanner (concat (map announcement_of as))) c
    = Ret (None, store_all lower (map loaded as) (clearNoLock c))"
  using scan_loop_loads [OF assms] by (simp add: DoScan_def new_scanner_def)

definition demo_announcement :: announced_proxy where
  "demo_announcement = (zeroProxy\<lparr>ident := ''a''\<rparr>, [''CERT''], [''SIG''])"

lemma demo_announceable: "announceable demo_announcement"
  by (simp add: demo_announcement_def block_lines_def scan_line_def maxTokenSize_def sep_def zeroProxy_def
      serviceProxy_MarshalJSON_def proxy_json_def print_json_def texts_def json_string_def json_int_def dec_int_def
      timestamp_MarshalJSON_def timestamp_text_def pad_left_def dec_nat.simps enc_string_plain plain_def html_safe_def)

theorem cache_loads_announcements_witness:
  "\<exists>c. DoScan (\<lambda>r. r) (\<lambda>sp. True) (new_scanner (announcement_of demo_announcement)) (emptyCache []) = Ret (None, c)
     \<and> Retrieve ''a'' c \<noteq> None"
  using cache_loads_announcements [of "[demo_announcement]" "\<lambda>sp. True" "\<lambda>r. r" "emptyCache []"] demo_announceable
  by (simp add: store_all_def Retrieve_def retrieve_store demo_announcement_def announced_def
      utf8_repair_plain plain_def html_safe_def)

text \<open>
  C12. With verification of records on, whatever the file holds, every proxy that is in the cache after a
  scan, found by its ident or by an action, has a valid signature.
\<close>

theorem scan_stores_only_valid:
  assumes "verifyRecords c" and "DoScan lower validate s c = Ret (e, c')"
  shows "(\<forall>sp\<in>set (All_cache c'). validate sp)
    \<and> (\<forall>sct act ver env. \<forall>sp\<in>set (fst (SearchByAction lower sct act ver env c')). validate sp)"
proof -
  have "all_valid validate (clearNoLock c)" using assms(1) by (simp add: all_valid_def clearNoLock_def All_cache_def index_lookup_def)
  from scan_loop_valid [OF assms(2) [unfolded DoScan_def] this] show ?thesis
    by (auto simp: all_valid_def SearchByAction_def Let_def split: if_splits)
qed

theorem scan_stores_only_valid_witness:
  "\<exists>c. DoScan (\<lambda>r. r) (\<lambda>sp. ident sp = ''a'') (new_scanner (announcement_of demo_announcement)) (emptyCache []) = Ret (None, c)
     \<and> (\<forall>sp\<in>set (All_cache c). ident sp = ''a'')"
proof -
  have "loaded demo_announcement = (announced (zeroProxy\<lparr>ident := ''a''\<rparr>)
    (serviceProxy_MarshalJSON (zeroProxy\<lparr>ident := ''a''\<rparr>)) ''CERT'' ''SIG'')" by (simp add: demo_announcement_def)
  then have "ident (loaded demo_announcement) = ''a''" by (simp add: announced_def utf8_repair_plain plain_def html_safe_def)
  then obtain c where c: "DoScan (\<lambda>r. r) (\<lambda>sp. ident sp = ''a'') (new_scanner (announcement_of demo_announcement)) (emptyCache [])
      = Ret (None, c)"
    using scan_loop_loads [of "[demo_announcement]" "\<lambda>sp. ident sp = ''a''" "\<lambda>r. r" "clearNoLock (emptyCache [])"] demo_announceable
    by (simp add: DoScan_def new_scanner_def)
  have "verifyRecords (emptyCache [])" by (simp add: emptyCache_def)
  from scan_stores_only_valid [OF this c] c show ?thesis by blast
qed

text \<open>
  C33. Searching is exact: after storing proxies into an empty cache, a search for an action returns, in the
  order of storing, each proxy once for every class, action and protocol of it with that name
  (ignoring case), and an error when there is none; a proxy is retrieved by its ident, the last one stored.
\<close>

theorem search_exact:
  "index_lookup (actionIndex (store_all lower sps (emptyCache p))) k = entries lower sps k
   \<and> SearchByAction lower sct (cls @ ''.'' @ act) ver env (store_all lower sps (emptyCache p)) =
     (let nm = munged_action lower sct cls act ver env; found = entries lower sps nm in
      if found = [] then ([], Some (''no instances found of '' @ nm)) else (found, None))
   \<and> Retrieve i (store_all lower sps (emptyCache p)) = find (\<lambda>sp. ident sp = i) (rev sps)"
  using lookup_store_all [of lower sps "emptyCache p"] retrieve_store_all [of lower sps "emptyCache p" i]
  by (auto simp: SearchByAction_def munged_action_def Let_def emptyCache_def index_lookup_def Retrieve_def split: option.splits)

text \<open>
  Removing a proxy only removes its ident: its actions stay in the index, so a search still returns a
  proxy that was removed because its signature was not valid.
\<close>

lemma removed_still_found:
  assumes "nm \<in> set (store_names lower sp)"
  shows "\<exists>c'. removeNoLock sp (storeNoLock lower sp c) = (None, c') \<and> Retrieve (ident sp) c' = None
    \<and> sp \<in> set (index_lookup (actionIndex c') nm)"
  using assms lookup_store [of lower sp c nm]
  by (auto simp: removeNoLock_def storeNoLock_def Retrieve_def update_conv' delete_conv')

text \<open>
  The two switches are exchanged: after \<^verbatim>\<open>EnableRecordVerification\<close> an announcement that does not
  validate is stored, and after \<^verbatim>\<open>DisableRecordVerification\<close> it is not.
\<close>

lemma verification_switches_exchanged:
  assumes "announceable a" and "\<not> validate (loaded a)"
  shows "DoScan lower validate (new_scanner (announcement_of a)) (EnableRecordVerification c)
       = Ret (None, storeNoLock lower (loaded a) (clearNoLock (EnableRecordVerification c)))
    \<and> DoScan lower validate (new_scanner (announcement_of a)) (DisableRecordVerification c)
       = Ret (None, clearNoLock (DisableRecordVerification c))"
  using scan_loop_step [OF assms(1), of lower validate "[]"] assms(2)
  by (simp add: DoScan_def new_scanner_def scan_loop_end clearNoLock_def EnableRecordVerification_def
      DisableRecordVerification_def removeNoLock_def)

text \<open>
  \<^verbatim>\<open>Do\<close> calls its function at most \<^verbatim>\<open>MaxRetries\<close> times: it returns the outcome of the first attempt that
  succeeds or asks not to be retried, and the retry-limit error when there is none among the first
  \<^verbatim>\<open>MaxRetries\<close>.
\<close>

lemma do_retries:
  assumes "\<And>a st. fn a st = ((cont a, err a), st)"
  shows "(1 \<le> k \<and> k \<le> MaxRetries \<and> (\<not> cont k \<or> err k = None) \<and> (\<forall>j. 1 \<le> j \<and> j < k \<longrightarrow> cont j \<and> err j \<noteq> None)
      \<longrightarrow> Do fn st = (map_option FnError (err k), st))
    \<and> ((\<forall>j. 1 \<le> j \<and> j \<le> MaxRetries \<longrightarrow> cont j \<and> err j \<noteq> None) \<longrightarrow> IsMaxRetries (fst (Do fn st)))"
  using do_loop_stops [of fn cont err k 1 st, OF assms] do_loop_gives_up [of fn cont err 1 st, OF assms]
  by (auto simp: Do_def IsMaxRetries_def MaxRetries_def)

text \<open>
  A token of the certificate splitter is the prefix of the data that it advances over, it ends with
  the end line, and the data has a start line; without a token nothing is consumed.
\<close>

lemma scan_certificates_token:
  "case scanCertficates data atEOF of
     (n, Some tok) \<Rightarrow> tok = take n data \<and> n = length tok \<and> 0 < n \<and> contains startCert data
        \<and> (\<exists>u. tok = u @ endCert)
   | (n, None) \<Rightarrow> n = 0"
proof (cases "index_of startCert data = None \<or> index_of endCert data = None")
  case True
  then show ?thesis by (auto simp: scanCertficates_def split: option.splits)
next
  case False
  then obtain j i where ji: "index_of startCert data = Some j" "index_of endCert data = Some i" by auto
  have "contains startCert data" using ji(1) index_of_Some_conv by blast
  moreover have le: "i + length endCert \<le> length data" and "take (length endCert) (drop i data) = endCert"
    using index_of_SomeD [OF ji(2)] by auto
  then have "take (i + length endCert) data = take i data @ endCert" by (simp add: take_add)
  moreover have "data \<noteq> []" "0 < length endCert" using le by (auto simp: endCert_def)
  ultimately show ?thesis using ji le by (simp add: scanCertficates_def)
qed

end
