(* ===== verification/Validation.thy ===== *)
theory Validation
  imports ServiceCache Verify
begin

text \<open>
  Validation of announced proxies (\<^verbatim>\<open>Validate\<close> and \<^verbatim>\<open>validateSignature\<close> of \<^verbatim>\<open>scamp/serviceproxy.go\<close>), which
  the scan of the service cache uses.
\<close>

definition validateSignature :: "('pub, 'priv) crypto \<Rightarrow> serviceProxy \<Rightarrow> (gerror + bytes) go" where
  "validateSignature c sp = (case pem_Decode c (rawCert sp) of
     None \<Rightarrow> Ret (Inl (''could not find valid cert in `'' @ rawCert sp @ ''`''))
   | Some decoded \<Rightarrow> (case ParseCertificate c decoded of
       Inl e \<Rightarrow> Ret (Inl (''failed to parse certificate: `'' @ e @ ''`''))
     | Inr cert \<Rightarrow> (case cert_PublicKey cert of
         None \<Rightarrow> Ret (Inl ''could not cast parsed value to rsa.PublicKey'')
       | Some rsaPubKey \<Rightarrow> go_bind (verifySHA256 c (rawClassRecords sp) rsaPubKey (rawSig sp) False) (\<lambda>err. case err of
           Some e \<Rightarrow> Ret (Inl e)
         | None \<Rightarrow> Ret (Inr (sha1FingerPrint cert))))))"

definition Validate :: "('pub, 'priv) crypto \<Rightarrow> serviceProxy \<Rightarrow> gerror option go" where
  "Validate c sp = go_bind (validateSignature c sp) (\<lambda>r. Ret (case r of Inl e \<Rightarrow> Some e | Inr _ \<Rightarrow> None))"

text \<open>The condition under which the scan keeps a proxy.\<close>

definition validates :: "('pub, 'priv) crypto \<Rightarrow> serviceProxy \<Rightarrow> bool" where
  "validates c sp \<longleftrightarrow> (case Validate c sp of Ret None \<Rightarrow> True | _ \<Rightarrow> False)"

subsection \<open>Laws\<close>

text \<open>A proxy is valid iff its class record has a signature by the key of its certificate.\<close>

lemma validates_iff:
  "validates c sp \<longleftrightarrow> (\<exists>blk cert pub sig. pem_Decode c (rawCert sp) = Some blk \<and> ParseCertificate c blk = Inr cert
     \<and> cert_PublicKey cert = Some pub \<and> StdEncoding_DecodeString (rawSig sp) = Inr sig
     \<and> VerifyPKCS1v15 c pub (sha256_Sum (rawClassRecords sp)) sig = None)"
  by (auto simp: validates_def Validate_def validateSignature_def verifySHA256_def decodeUnpaddedBase64_def
      split: option.splits sum.splits)

lemma Validate_returns: "\<exists>e. Validate c sp = Ret e"
  by (auto simp: Validate_def validateSignature_def verifySHA256_def decodeUnpaddedBase64_def split: option.splits sum.splits)

text \<open>Validity depends on the raw texts of a proxy only.\<close>

lemma validates_cong:
  "rawCert sp = rawCert sp' \<Longrightarrow> rawSig sp = rawSig sp' \<Longrightarrow> rawClassRecords sp = rawClassRecords sp' \<Longrightarrow> validates c sp = validates c sp'"
  by (simp add: validates_iff)

end
