(* ===== verification/Go_ScanBuffer.thy ===== *)
theory Go_ScanBuffer
  imports Go_Scanner
begin

text \<open>
  \<^verbatim>\<open>bufio.Scanner\<close> with its buffer. The lines it returns are slices of the buffer, which later calls
  shift and refill, so a caller that keeps such a slice sees what the scanner does to it. Arrays live in a
  heap, the list of all arrays in the order of their allocation; a slice is an array, an offset and a length.

  The reader is a regular file: a read returns as much as there is room for, and the end of the file only when
  nothing is left.
\<close>

type_synonym heap = "bytes list"
type_synonym slice_ref = "nat \<times> nat \<times> nat"

fun read_slice :: "heap \<Rightarrow> slice_ref \<Rightarrow> bytes" where
  "read_slice h (b, off, n) = take n (drop off (h ! b))"

definition startBufSize :: nat where "startBufSize = 4096"

datatype scan_end = AtEOF | TooLong

record bufscan =
  bs_heap :: heap
  bs_buf :: "nat option"
  bs_start :: nat
  bs_end :: nat
  bs_rest :: bytes
  bs_err :: "scan_end option"

definition bs_new :: "bytes \<Rightarrow> heap \<Rightarrow> bufscan" where
  "bs_new f h = \<lparr>bs_heap = h, bs_buf = None, bs_start = 0, bs_end = 0, bs_rest = f, bs_err = None\<rparr>"

definition bs_array :: "bufscan \<Rightarrow> bytes" where
  "bs_array s = (case bs_buf s of None \<Rightarrow> [] | Some b \<Rightarrow> bs_heap s ! b)"

definition bs_window :: "bufscan \<Rightarrow> bytes" where
  "bs_window s = take (bs_end s - bs_start s) (drop (bs_start s) (bs_array s))"

definition set_array :: "bytes \<Rightarrow> bufscan \<Rightarrow> bufscan" where
  "set_array a s = (case bs_buf s of None \<Rightarrow> s | Some b \<Rightarrow> s\<lparr>bs_heap := (bs_heap s)[b := a]\<rparr>)"

text \<open>\<^verbatim>\<open>copy(a[i:], xs)\<close> for an \<open>xs\<close> that fits.\<close>

definition copy_at :: "nat \<Rightarrow> bytes \<Rightarrow> bytes \<Rightarrow> bytes" where
  "copy_at i xs a = take i a @ xs @ drop (i + length xs) a"

text \<open>Shifting the data to the beginning of the buffer.\<close>

definition bs_shift :: "bufscan \<Rightarrow> bufscan" where
  "bs_shift s =
     (if bs_start s > 0 \<and> (bs_end s = length (bs_array s) \<or> bs_start s > length (bs_array s) div 2) then
        (set_array (copy_at 0 (bs_window s) (bs_array s)) s)\<lparr>bs_end := bs_end s - bs_start s, bs_start := 0\<rparr>
      else s)"

text \<open>A new buffer of twice the size.\<close>

definition bs_grow :: "bufscan \<Rightarrow> bufscan" where
  "bs_grow s =
     (let len = length (bs_array s);
          newSize = min (if len = 0 then startBufSize else len * 2) maxTokenSize;
          newBuf = copy_at 0 (bs_window s) (replicate newSize (CHR 0x00))
      in s\<lparr>bs_heap := bs_heap s @ [newBuf], bs_buf := Some (length (bs_heap s)), bs_end := bs_end s - bs_start s,
           bs_start := 0\<rparr>)"

definition bs_fill :: "bufscan \<Rightarrow> bufscan" where
  "bs_fill s =
     (let n = min (length (bs_array s) - bs_end s) (length (bs_rest s)) in
      if n = 0 then s\<lparr>bs_err := Some AtEOF\<rparr>
      else (set_array (copy_at (bs_end s) (take n (bs_rest s)) (bs_array s)) s)
             \<lparr>bs_end := bs_end s + n, bs_rest := drop n (bs_rest s)\<rparr>)"

text \<open>\<^verbatim>\<open>ScanLines\<close>: how far to advance, and the length of the token (which starts the data).\<close>

definition ScanLines :: "bytes \<Rightarrow> bool \<Rightarrow> (nat \<times> nat) option" where
  "ScanLines data atEOF =
     (let line = takeWhile (\<lambda>c. c \<noteq> LF) data in
      if atEOF \<and> data = [] then None
      else if length line < length data then Some (Suc (length line), length (drop_cr line))
      else if atEOF then Some (length data, length (drop_cr data))
      else None)"

text \<open>The token that can be made of what is in the buffer.\<close>

definition bs_token :: "bufscan \<Rightarrow> (nat \<times> nat) option" where
  "bs_token s = (if bs_end s > bs_start s \<or> bs_err s \<noteq> None then ScanLines (bs_window s) (bs_err s \<noteq> None) else None)"

lemma bs_rest_shift [simp]: "bs_rest (bs_shift s) = bs_rest s" "bs_err (bs_shift s) = bs_err s"
  by (simp_all add: bs_shift_def set_array_def split: option.split)

lemma bs_rest_grow [simp]: "bs_rest (bs_grow s) = bs_rest s" "bs_err (bs_grow s) = bs_err s"
  by (simp_all add: bs_grow_def Let_def)

lemma bs_window_err [simp]: "bs_array (s\<lparr>bs_err := e\<rparr>) = bs_array s" "bs_window (s\<lparr>bs_err := e\<rparr>) = bs_window s"
  by (cases "bs_buf s"; simp add: bs_array_def bs_window_def)+

lemma bs_fill_decreases:
  "bs_err s = None \<Longrightarrow>
     length (bs_rest (bs_fill s)) + (if bs_err (bs_fill s) = None then 1 else 0) < length (bs_rest s) + 1"
  by (auto simp: bs_fill_def Let_def set_array_def split: option.split)

function bs_scan :: "bufscan \<Rightarrow> slice_ref option \<times> bufscan" where
  "bs_scan s = (case bs_token s of
     Some (advance, n) \<Rightarrow> (Some (the (bs_buf s), bs_start s, n), s\<lparr>bs_start := bs_start s + advance\<rparr>)
   | None \<Rightarrow>
       if bs_err s \<noteq> None then (None, s\<lparr>bs_start := 0, bs_end := 0\<rparr>)
       else (let s1 = bs_shift s in
         if bs_end s1 = length (bs_array s1) then
           (if length (bs_array s1) \<ge> maxTokenSize then (None, s1\<lparr>bs_err := Some TooLong\<rparr>)
            else bs_scan (bs_fill (bs_grow s1)))
         else bs_scan (bs_fill s1)))"
  by pat_completeness auto
termination
proof (relation "measure (\<lambda>s. length (bs_rest s) + (if bs_err s = None then 1 else 0))")
  fix s s1
  assume "bs_token s = None" "\<not> bs_err s \<noteq> None" "s1 = bs_shift s"
  then show "(bs_fill (bs_grow s1), s) \<in> measure (\<lambda>s. length (bs_rest s) + (if bs_err s = None then 1 else 0))"
    and "(bs_fill s1, s) \<in> measure (\<lambda>s. length (bs_rest s) + (if bs_err s = None then 1 else 0))"
    using bs_fill_decreases [of "bs_grow s1"] bs_fill_decreases [of s1] by simp_all
qed simp

declare bs_scan.simps [simp del]

subsection \<open>Every token consumes input\<close>

definition bs_left :: "bufscan \<Rightarrow> nat" where "bs_left s = length (bs_rest s) + (bs_end s - bs_start s)"

lemma bs_left_steps: "bs_left (bs_shift s) = bs_left s" "bs_left (bs_grow s) = bs_left s" "bs_left (bs_fill s) \<le> bs_left s"
  by (auto simp: bs_left_def bs_shift_def bs_grow_def bs_fill_def set_array_def Let_def split: option.split)

lemma bs_token_Some: "bs_token s = Some (adv, n) \<Longrightarrow> 0 < adv \<and> adv \<le> bs_end s - bs_start s"
proof -
  assume "bs_token s = Some (adv, n)"
  then have "0 < adv \<and> adv \<le> length (bs_window s)"
    by (auto simp: bs_token_def ScanLines_def Let_def split: if_splits)
  then show ?thesis by (auto simp: bs_window_def)
qed

lemma bs_scan_decreases: "bs_scan s = (Some sl, s') \<Longrightarrow> bs_left s' < bs_left s"
proof (induction s rule: bs_scan.induct)
  case (1 s)
  show ?case
  proof (cases "bs_token s")
    case (Some a)
    then obtain adv n where "bs_token s = Some (adv, n)" by (cases a) auto
    with "1.prems" bs_token_Some [OF this] show ?thesis
      by (subst (asm) bs_scan.simps) (auto simp: bs_left_def)
  next
    case None
    define s1 where "s1 = bs_shift s"
    have l: "bs_left s1 = bs_left s" "bs_left (bs_fill (bs_grow s1)) \<le> bs_left s" "bs_left (bs_fill s1) \<le> bs_left s"
      using bs_left_steps [of s] bs_left_steps [of s1] bs_left_steps [of "bs_grow s1"] by (simp_all add: s1_def)
    have err: "bs_err s = None" using None "1.prems" by (subst (asm) bs_scan.simps) (auto split: if_splits)
    show ?thesis
    proof (cases "bs_end s1 = length (bs_array s1)")
      case True
      then have "bs_scan (bs_fill (bs_grow s1)) = (Some sl, s')"
        using None err "1.prems" by (subst (asm) bs_scan.simps) (auto simp: s1_def Let_def split: if_splits)
      with "1.IH"(1) [OF None _ s1_def True] err "1.prems" l True show ?thesis
        using None by (subst (asm) (2) bs_scan.simps) (auto simp: s1_def Let_def split: if_splits)
    next
      case False
      then have "bs_scan (bs_fill s1) = (Some sl, s')"
        using None err "1.prems" by (subst (asm) bs_scan.simps) (auto simp: s1_def Let_def)
      with "1.IH"(2) [OF None _ s1_def False] err l show ?thesis by simp
    qed
  qed
qed

end
