(* ===== verification/Multicast.thy ===== *)
theory Multicast
  imports Go_Strconv
begin

text \<open>
  The address that a service announces (\<^verbatim>\<open>scamp/multicast.go\<close>). A \<^verbatim>\<open>net.IP\<close> is its bytes: none (nil),
  four, or sixteen. The interfaces of the host and \<^verbatim>\<open>net.ParseCIDR\<close> are arguments. The multicast socket
  itself is not modelled.
\<close>

type_synonym net_IP = bytes

definition v4InV6Prefix :: bytes where
  "v4InV6Prefix = replicate 10 (CHR 0x00) @ [CHR 0xFF, CHR 0xFF]"

text \<open>\<^verbatim>\<open>IP.To4\<close>, and \<^verbatim>\<open>IP.String\<close> of what it returns (for nil, the text \<^verbatim>\<open><nil>\<close>).\<close>

definition To4 :: "net_IP \<Rightarrow> net_IP" where
  "To4 ip = (if length ip = 4 then ip
     else if length ip = 16 \<and> take 12 ip = v4InV6Prefix then drop 12 ip else [])"

definition IP4_String :: "net_IP \<Rightarrow> bytes" where
  "IP4_String ip = (if ip = [] then ''<nil>'' else join_with ''.'' (map (\<lambda>b. dec_nat (code b)) ip))"

text \<open>\<^verbatim>\<open>net.IPv4(a, b, c, d)\<close>.\<close>

definition net_IPv4 :: "nat \<Rightarrow> nat \<Rightarrow> nat \<Rightarrow> nat \<Rightarrow> net_IP" where
  "net_IPv4 a b c d = v4InV6Prefix @ map char_of [a, b, c, d]"

record interface =
  if_loopback :: bool
  if_addrs :: "gerror + bytes list"

text \<open>The inner loop: \<open>ip\<close> is the variable of the function, and an address that does not parse resets it.\<close>

fun scan_addrs :: "(bytes \<Rightarrow> gerror + net_IP) \<Rightarrow> bytes list \<Rightarrow> net_IP \<Rightarrow> net_IP" where
  "scan_addrs parseCIDR [] ip = ip"
| "scan_addrs parseCIDR (addr # addrs) ip = (case parseCIDR addr of
     Inl e \<Rightarrow> scan_addrs parseCIDR addrs []
   | Inr ip' \<Rightarrow> if To4 ip' = [] then scan_addrs parseCIDR addrs ip' else ip')"

fun scan_interfaces :: "(bytes \<Rightarrow> gerror + net_IP) \<Rightarrow> interface list \<Rightarrow> net_IP \<Rightarrow> gerror + net_IP" where
  "scan_interfaces parseCIDR [] ip = Inr ip"
| "scan_interfaces parseCIDR (iface # ifaces) ip =
     (if if_loopback iface then scan_interfaces parseCIDR ifaces ip
      else (case if_addrs iface of
          Inl e \<Rightarrow> Inl e
        | Inr addrs \<Rightarrow> (let ip' = scan_addrs parseCIDR addrs ip in
            if ip' \<noteq> [] then Inr ip' else scan_interfaces parseCIDR ifaces ip')))"

definition getIPForAnnouncePacket :: "(bytes \<Rightarrow> gerror + net_IP) \<Rightarrow> gerror + interface list \<Rightarrow> gerror + net_IP" where
  "getIPForAnnouncePacket parseCIDR interfaces = (case interfaces of
     Inl e \<Rightarrow> Inl e
   | Inr ifaces \<Rightarrow> (case scan_interfaces parseCIDR ifaces [] of
       Inl e \<Rightarrow> Inl e
     | Inr ip \<Rightarrow> if ip = [] then Inl ''no suitables IPs found'' else Inr ip))"

subsection \<open>Laws\<close>

text \<open>What is found is the first IPv4 address of an interface, or its last address when it has none.\<close>

lemma scan_addrs_v4:
  "To4 (scan_addrs parseCIDR addrs ip) \<noteq> [] \<longleftrightarrow>
     (\<exists>a\<in>set addrs. \<exists>i. parseCIDR a = Inr i \<and> To4 i \<noteq> []) \<or> addrs = [] \<and> To4 ip \<noteq> []"
proof (induction addrs arbitrary: ip)
  case (Cons a addrs)
  have nil: "To4 [] = []" by (simp add: To4_def)
  show ?case using Cons [of "[]"] Cons [of "case parseCIDR a of Inr i \<Rightarrow> i | Inl _ \<Rightarrow> []"] nil
    by (cases "parseCIDR a"; cases addrs) auto
qed simp

lemma scan_interfaces_v6_only:
  assumes "\<not> if_loopback iface" and "if_addrs iface = Inr (addrs @ [a])" and "parseCIDR a = Inr ip" "ip \<noteq> []"
    and "\<forall>b\<in>set (addrs @ [a]). \<forall>i. parseCIDR b = Inr i \<longrightarrow> To4 i = []"
  shows "scan_interfaces parseCIDR (iface # ifaces) ip0 = Inr ip"
proof -
  have "scan_addrs parseCIDR (as @ [a]) ip1 = ip" if "\<forall>b\<in>set (as @ [a]). \<forall>i. parseCIDR b = Inr i \<longrightarrow> To4 i = []" for as ip1
    using that assms(3) by (induction as arbitrary: ip1) (auto split: sum.splits)
  from this [OF assms(5)] show ?thesis using assms by simp
qed

end
