(* ===== verification/Config.thy ===== *)
theory Config
  imports Go_ScanBuffer Go_Strings Multicast
begin

text \<open>
  The configuration (\<^verbatim>\<open>scamp/config.go\<close>): loading of a file with the pattern
  \<^verbatim>\<open>^\s*([\S^=]+)\s*=\s*([\S]+)\<close>, and the accessors.

  A value is the slice of the line that the pattern matched, that is, of the scanner's buffer; the
  configuration therefore has the heap of arrays of \<open>Go_ScanBuffer\<close>. A nil value is a missing key. The
  package variable \<^verbatim>\<open>defaultConfig\<close> is an argument, \<open>None\<close> before it is set.
\<close>

record Config =
  cfg_heap :: heap
  cfg_values :: "bytes \<rightharpoonup> slice_ref"

definition NewConfig :: Config where "NewConfig = \<lparr>cfg_heap = [], cfg_values = (\<lambda>_. None)\<rparr>"

declare NewConfig_def [zero_values]

definition cfg_value :: "Config \<Rightarrow> bytes \<Rightarrow> bytes option" where
  "cfg_value conf key = map_option (read_slice (cfg_heap conf)) (cfg_values conf key)"

subsection \<open>Matching a line\<close>

text \<open>\<^verbatim>\<open>\s\<close> of the pattern; \<^verbatim>\<open>[\S^=]\<close> is the same class as \<^verbatim>\<open>\S\<close>, because \<^verbatim>\<open>^\<close> and \<^verbatim>\<open>=\<close> are not spaces.\<close>

definition re_space :: "char \<Rightarrow> bool" where
  "re_space c \<longleftrightarrow> c = TAB \<or> c = LF \<or> c = CHR 0x0C \<or> c = CR \<or> c = SP"

text \<open>
  The part \<^verbatim>\<open>\s*=\s*([\S]+)\<close> of the pattern from offset \<open>i\<close> on: the offset and the length of the value. The
  repetitions are greedy, and taking fewer characters cannot help, since the next part of the pattern
  begins with the other class of characters.
\<close>

definition match_value :: "bytes \<Rightarrow> nat \<Rightarrow> (nat \<times> nat) option" where
  "match_value line i =
     (let u = drop i line; a = length (takeWhile re_space u) in
      case drop a u of
        [] \<Rightarrow> None
      | c # v \<Rightarrow>
          if c \<noteq> CHR ''='' then None
          else (let b = length (takeWhile re_space v); n = length (takeWhile (\<lambda>c. \<not> re_space c) (drop b v))
                in if n = 0 then None else Some (i + a + 1 + b, n)))"

text \<open>The key takes as many characters as possible, and fewer when the rest does not match.\<close>

fun match_key :: "bytes \<Rightarrow> nat \<Rightarrow> nat \<Rightarrow> (nat \<times> nat \<times> nat \<times> nat) option" where
  "match_key line lead 0 = None"
| "match_key line lead (Suc k) = (case match_value line (lead + Suc k) of
     Some (vo, vl) \<Rightarrow> Some (lead, Suc k, vo, vl)
   | None \<Rightarrow> match_key line lead k)"

text \<open>\<^verbatim>\<open>configLine.FindSubmatch\<close>: offset and length of both groups.\<close>

definition configLine :: "bytes \<Rightarrow> (nat \<times> nat \<times> nat \<times> nat) option" where
  "configLine line =
     (let lead = length (takeWhile re_space line)
      in match_key line lead (length (takeWhile (\<lambda>c. \<not> re_space c) (drop lead line))))"

subsection \<open>Loading\<close>

definition set_line :: "nat \<Rightarrow> nat \<Rightarrow> bytes \<Rightarrow> (bytes \<rightharpoonup> slice_ref) \<Rightarrow> (bytes \<rightharpoonup> slice_ref)" where
  "set_line b off line vals = (case configLine line of
     None \<Rightarrow> vals
   | Some (ks, kl, vo, vl) \<Rightarrow> vals(take kl (drop ks line) \<mapsto> (b, off + vo, vl)))"

function doLoad :: "bufscan \<Rightarrow> (bytes \<rightharpoonup> slice_ref) \<Rightarrow> Config" where
  "doLoad s vals = (case bs_scan s of
     (None, s') \<Rightarrow> \<lparr>cfg_heap = bs_heap s', cfg_values = vals\<rparr>
   | (Some (b, off, n), s') \<Rightarrow> doLoad s' (set_line b off (read_slice (bs_heap s') (b, off, n)) vals))"
  by pat_completeness auto
termination
  by (relation "measure (\<lambda>(s, vals). bs_left s)") (auto dest: bs_scan_decreases [OF sym])

declare doLoad.simps [simp del]

text \<open>\<^verbatim>\<open>Load\<close>, for what \<^verbatim>\<open>os.Open\<close> finds at the path.\<close>

definition load_failed :: "bytes \<Rightarrow> gerror \<Rightarrow> gerror" where
  "load_failed configPath e = ''couldn't read config from `'' @ configPath @ ''`: '' @ e"

definition Load :: "(bytes \<Rightarrow> gerror + bytes) \<Rightarrow> bytes \<Rightarrow> Config \<Rightarrow> gerror option \<times> Config" where
  "Load openFile configPath conf = (case openFile configPath of
     Inl e \<Rightarrow> (Some (load_failed configPath e), conf)
   | Inr text \<Rightarrow> (None, doLoad (bs_new text (cfg_heap conf)) (cfg_values conf)))"

definition initConfig :: "(bytes \<Rightarrow> gerror + bytes) \<Rightarrow> bytes \<Rightarrow> gerror option \<times> Config" where
  "initConfig openFile configPath = (case Load openFile configPath NewConfig of
     (Some e, conf) \<Rightarrow> (Some (''could not load config: '' @ e), conf)
   | (None, conf) \<Rightarrow> (None, conf))"

subsection \<open>Accessors\<close>

definition uninitialised :: string where
  "uninitialised = ''Global configuration defaultConfig is not initialized! Call scamp.Initialize() before using package functionality.''"

definition DefaultConfig :: "Config option \<Rightarrow> Config go" where
  "DefaultConfig defaultConfig = (case defaultConfig of None \<Rightarrow> Panic uninitialised | Some conf \<Rightarrow> Ret conf)"

definition SetDefaultConfig :: "Config \<Rightarrow> Config option \<Rightarrow> Config option" where
  "SetDefaultConfig conf defaultConfig = Some conf"

definition Get :: "bytes \<Rightarrow> Config \<Rightarrow> bytes \<times> bool" where
  "Get key conf = (case cfg_value conf key of None \<Rightarrow> ([], False) | Some v \<Rightarrow> (v, True))"

definition Set :: "bytes \<Rightarrow> bytes \<Rightarrow> Config \<Rightarrow> Config" where
  "Set key v conf = \<lparr>cfg_heap = cfg_heap conf @ [v],
     cfg_values = (cfg_values conf)(key \<mapsto> (length (cfg_heap conf), 0, length v))\<rparr>"

definition defaultLogLevel :: goint where "defaultLogLevel = 2"

definition LogLevel :: "Config option \<Rightarrow> goint go" where
  "LogLevel defaultConfig = go_bind (DefaultConfig defaultConfig) (\<lambda>conf. case Get ''log.level'' conf of
     (valueString, ok) \<Rightarrow>
       if \<not> ok then Ret defaultLogLevel
       else (case parse_int valueString of None \<Rightarrow> Ret defaultLogLevel | Some v \<Rightarrow> Ret v))"

definition path_or :: "bytes \<Rightarrow> bytes option \<Rightarrow> bytes" where
  "path_or fallback v = (case v of None \<Rightarrow> fallback | Some p \<Rightarrow> p)"

definition ServiceKeyPath :: "bytes \<Rightarrow> Config \<Rightarrow> bytes" where
  "ServiceKeyPath serviceName conf =
     path_or (''/etc/GT_private/services/'' @ serviceName @ ''.key'') (cfg_value conf (serviceName @ ''.soa_key''))"

definition ServiceCertPath :: "bytes \<Rightarrow> Config \<Rightarrow> bytes" where
  "ServiceCertPath serviceName conf =
     path_or (''/etc/GT_private/services/'' @ serviceName @ ''.crt'') (cfg_value conf (serviceName @ ''.soa_cert''))"

definition defaultGroupIP :: net_IP where "defaultGroupIP = net_IPv4 239 63 248 106"
definition defaultGroupPort :: goint where "defaultGroupPort = 5555"

definition config_port :: "bytes option \<Rightarrow> goint" where
  "config_port v = (case v of
     None \<Rightarrow> defaultGroupPort
   | Some s \<Rightarrow> (case parse_int s of None \<Rightarrow> defaultGroupPort | Some port64 \<Rightarrow> port64))"

definition DiscoveryMulticastIP :: "(bytes \<Rightarrow> net_IP) \<Rightarrow> Config \<Rightarrow> net_IP" where
  "DiscoveryMulticastIP parseIP conf = (case cfg_value conf ''discovery.multicast_address'' of
     Some rawAddr \<Rightarrow> parseIP rawAddr
   | None \<Rightarrow> defaultGroupIP)"

definition DiscoveryMulticastPort :: "Config \<Rightarrow> goint" where
  "DiscoveryMulticastPort conf = config_port (cfg_value conf ''discovery.port'')"

definition LocalDiscoveryMulticast :: "Config \<Rightarrow> bool" where
  "LocalDiscoveryMulticast conf = (cfg_value conf ''discovery.local_multicast'' \<noteq> None)"

definition LocalDiscoveryMulticastIP :: "(bytes \<Rightarrow> net_IP) \<Rightarrow> Config \<Rightarrow> net_IP" where
  "LocalDiscoveryMulticastIP parseIP conf = (case cfg_value conf ''discovery.local_multicast_address'' of
     Some rawAddr \<Rightarrow> parseIP rawAddr
   | None \<Rightarrow> defaultGroupIP)"

definition LocalDiscoveryMulticastPort :: "Config \<Rightarrow> goint" where
  "LocalDiscoveryMulticastPort conf = config_port (cfg_value conf ''discovery.local_port'')"

definition RunningServiceFileDirPath :: "Config \<Rightarrow> gerror + bytes" where
  "RunningServiceFileDirPath conf = (case cfg_value conf ''service.running_service_file_dir_path'' of
     None \<Rightarrow> Inl ''Running service file dir path config value not found''
   | Some p \<Rightarrow> Inr p)"

subsection \<open>The groups of a match lie in the line\<close>

lemma match_value_bound: "match_value line i = Some (vo, vl) \<Longrightarrow> vo + vl \<le> length line \<and> 0 < vl"
proof -
  assume m: "match_value line i = Some (vo, vl)"
  define a where "a = length (takeWhile re_space (drop i line))"
  obtain v where v: "drop a (drop i line) = CHR ''='' # v" and n: "vl = length (takeWhile (\<lambda>c. \<not> re_space c) (drop (length (takeWhile re_space v)) v))"
    "vo = i + a + 1 + length (takeWhile re_space v)" "0 < vl"
    using m by (auto simp: match_value_def Let_def a_def split: list.splits if_splits)
  have "vl \<le> length v - length (takeWhile re_space v)" using n(1) length_takeWhile_le by (metis length_drop)
  moreover have "length (takeWhile re_space v) \<le> length v" by (rule length_takeWhile_le)
  moreover have "length line = i + a + 1 + length v"
    using arg_cong [OF v, of length] by simp
  ultimately show ?thesis using n by simp
qed

lemma configLine_bound: "configLine line = Some (ks, kl, vo, vl) \<Longrightarrow> vo + vl \<le> length line \<and> 0 < vl"
proof -
  have "match_key line lead k = Some (ks, kl, vo, vl) \<Longrightarrow> vo + vl \<le> length line \<and> 0 < vl" for lead k
    by (induction line lead k rule: match_key.induct) (auto split: option.splits dest: match_value_bound)
  then show "configLine line = Some (ks, kl, vo, vl) \<Longrightarrow> ?thesis" by (auto simp: configLine_def Let_def)
qed

subsection \<open>A file that fits in the first buffer\<close>

text \<open>The scanner once the whole file is in its buffer.\<close>

definition filled :: "bytes \<Rightarrow> bytes" where
  "filled f = f @ replicate (startBufSize - length f) (CHR 0x00)"

definition scanning :: "bytes \<Rightarrow> heap \<Rightarrow> nat \<Rightarrow> bufscan" where
  "scanning f h st = \<lparr>bs_heap = h @ [filled f], bs_buf = Some (length h), bs_start = st, bs_end = length f,
     bs_rest = [], bs_err = None\<rparr>"

lemma scanning_array [simp]: "bs_array (scanning f h st) = filled f"
  by (simp add: bs_array_def scanning_def)

lemma filled_length: "length f \<le> startBufSize \<Longrightarrow> length (filled f) = startBufSize"
  by (simp add: filled_def)

lemma scanning_window: "st \<le> length f \<Longrightarrow> bs_window (scanning f h st) = drop st f"
  by (simp add: bs_window_def) (simp add: scanning_def filled_def)

lemma bs_scan_new:
  assumes "f \<noteq> []" and "length f \<le> startBufSize"
  shows "bs_scan (bs_new f h) = bs_scan (scanning f h 0)"
proof -
  have g: "bs_grow (bs_new f h) = (bs_new f h)\<lparr>bs_heap := h @ [replicate startBufSize (CHR 0x00)], bs_buf := Some (length h)\<rparr>"
    by (simp add: bs_grow_def bs_new_def bs_array_def bs_window_def copy_at_def startBufSize_def maxTokenSize_def)
  have "bs_fill (bs_grow (bs_new f h)) = scanning f h 0"
    using assms unfolding g
    by (simp add: bs_fill_def bs_new_def bs_array_def set_array_def copy_at_def scanning_def filled_def Let_def min_def)
       (simp add: startBufSize_def)
  moreover have "bs_shift (bs_new f h) = bs_new f h" by (simp add: bs_shift_def bs_new_def)
  moreover have "bs_token (bs_new f h) = None" "bs_err (bs_new f h) = None" by (simp_all add: bs_token_def bs_new_def)
  moreover have "bs_array (bs_new f h) = []" "bs_end (bs_new f h) = 0" by (simp_all add: bs_array_def bs_new_def)
  ultimately show ?thesis by (subst bs_scan.simps) (simp add: maxTokenSize_def)
qed

lemma bs_scan_line:
  assumes "f = p @ l @ LF # q" and "LF \<notin> set l"
  shows "bs_scan (scanning f h (length p)) = (Some (length h, length p, length (drop_cr l)), scanning f h (length p + length l + 1))"
proof -
  have "takeWhile (\<lambda>c. c \<noteq> LF) (l @ LF # q) = l" using assms(2) by (intro takeWhile_append_stop) auto
  then have "bs_token (scanning f h (length p)) = Some (Suc (length l), length (drop_cr l))"
    using assms(1) scanning_window [of "length p" f h]
    by (simp add: bs_token_def ScanLines_def) (simp add: scanning_def)
  then show ?thesis by (subst bs_scan.simps) (simp add: scanning_def)
qed

lemma drop_cr_prefix: "\<exists>r. l = drop_cr l @ r"
  by (auto simp: drop_cr_def) (metis append_butlast_last_id)

lemma take_drop_cr [simp]: "take (length (drop_cr l)) (l @ t) = drop_cr l"
proof -
  obtain r where r: "l = drop_cr l @ r" using drop_cr_prefix by blast
  show ?thesis by (subst (2) r) simp
qed

lemma read_line:
  assumes "f = p @ l @ LF # q"
  shows "read_slice (h @ [filled f]) (length h, length p, length (drop_cr l)) = drop_cr l"
  using assms take_drop_cr [of l "LF # q @ t" for t] by (simp add: filled_def)

text \<open>The values after some lines, the first of which is at offset \<open>off\<close> of array \<open>b\<close>.\<close>

fun load_lines :: "nat \<Rightarrow> nat \<Rightarrow> bytes list \<Rightarrow> (bytes \<rightharpoonup> slice_ref) \<Rightarrow> (bytes \<rightharpoonup> slice_ref)" where
  "load_lines b off [] vals = vals"
| "load_lines b off (l # ls) vals = load_lines b (off + length l + 1) ls (set_line b off (drop_cr l) vals)"

lemma doLoad_lines:
  assumes "f = p @ lines_text ls @ tail" and "\<forall>l\<in>set ls. LF \<notin> set l"
  shows "doLoad (scanning f h (length p)) vals
    = doLoad (scanning f h (length (p @ lines_text ls))) (load_lines (length h) (length p) ls vals)"
  using assms
proof (induction ls arbitrary: p vals)
  case (Cons l ls)
  have f: "f = p @ l @ LF # lines_text ls @ tail" using Cons.prems by simp
  note sc = bs_scan_line [OF f, of h] and rd = read_line [OF f, of h]
  have "doLoad (scanning f h (length p)) vals
      = doLoad (scanning f h (length (p @ l @ [LF]))) (set_line (length h) (length p) (drop_cr l) vals)"
    using sc rd Cons.prems(2) by (subst doLoad.simps) (simp add: scanning_def)
  also have "\<dots> = doLoad (scanning f h (length ((p @ l @ [LF]) @ lines_text ls)))
      (load_lines (length h) (length (p @ l @ [LF])) ls (set_line (length h) (length p) (drop_cr l) vals))"
    using Cons.prems by (intro Cons.IH) auto
  finally show ?case by simp
qed simp

text \<open>
  At the end of the file the scanner asks for more: if it is in the second half of the buffer it first
  shifts what is left, the last line when that has no newline, to the beginning.
\<close>

definition shifted :: "bytes \<Rightarrow> heap \<Rightarrow> nat \<Rightarrow> bufscan" where
  "shifted f h st = \<lparr>bs_heap = h @ [copy_at 0 (drop st f) (filled f)], bs_buf = Some (length h), bs_start = 0,
     bs_end = length f - st, bs_rest = [], bs_err = None\<rparr>"

lemma bs_shift_scanning:
  assumes "st \<le> length f" and "length f \<le> startBufSize"
  shows "bs_shift (scanning f h st)
    = (if st > 0 \<and> (length f = startBufSize \<or> st > startBufSize div 2) then shifted f h st else scanning f h st)"
  using assms scanning_window [OF assms(1), of h]
  by (simp add: bs_shift_def filled_length) (simp add: scanning_def shifted_def set_array_def)

lemma bs_scan_ask:
  assumes "bs_token s = None" "bs_err s = None" "s1 = bs_shift s" "bs_end s1 \<noteq> length (bs_array s1)" "bs_rest s1 = []"
  shows "bs_scan s = bs_scan (s1\<lparr>bs_err := Some AtEOF\<rparr>)"
proof -
  have "bs_fill s1 = s1\<lparr>bs_err := Some AtEOF\<rparr>" using assms(5) by (simp add: bs_fill_def)
  then show ?thesis using assms(1-4) by (subst bs_scan.simps) (simp add: Let_def)
qed

lemma bs_scan_end:
  assumes "f \<noteq> []" and "length f \<le> startBufSize"
  shows "\<exists>s'. bs_scan (scanning f h (length f)) = (None, s') \<and> bs_heap s' = h @ [filled f]"
proof -
  define s1 where "s1 = bs_shift (scanning f h (length f))"
  have s1: "bs_start s1 = bs_end s1" "bs_heap s1 = h @ [filled f]" "bs_rest s1 = []" "bs_err s1 = None"
    "bs_end s1 \<noteq> length (bs_array s1)"
    using assms bs_shift_scanning [of "length f" f h] filled_length [OF assms(2)]
    by (auto simp: s1_def) (auto simp: scanning_def shifted_def copy_at_def bs_array_def startBufSize_def)
  have "bs_token (scanning f h (length f)) = None" "bs_err (scanning f h (length f)) = None"
    by (simp_all add: bs_token_def scanning_def)
  then have "bs_scan (scanning f h (length f)) = bs_scan (s1\<lparr>bs_err := Some AtEOF\<rparr>)"
    using s1(3,5) by (intro bs_scan_ask) (auto simp: s1_def)
  also have "\<dots> = (None, s1\<lparr>bs_err := Some AtEOF, bs_start := 0, bs_end := 0\<rparr>)"
    using s1 by (subst bs_scan.simps) (simp add: bs_token_def ScanLines_def bs_window_def)
  finally show ?thesis using s1 by simp
qed

lemma doLoad_small:
  assumes "f = lines_text ls" and "\<forall>l\<in>set ls. LF \<notin> set l" and "length f \<le> startBufSize" and "ls \<noteq> []"
  shows "doLoad (bs_new f h) vals = \<lparr>cfg_heap = h @ [filled f], cfg_values = load_lines (length h) 0 ls vals\<rparr>"
proof -
  have ne: "f \<noteq> []" using assms(1,4) by (cases ls) auto
  have "doLoad (bs_new f h) vals = doLoad (scanning f h 0) vals"
    using bs_scan_new [OF ne assms(3), of h] by (subst (1 2) doLoad.simps) simp
  also have "\<dots> = doLoad (scanning f h (length f)) (load_lines (length h) 0 ls vals)"
    using doLoad_lines [of f "[]" ls "[]" h vals] assms(1,2) by simp
  also have "\<dots> = \<lparr>cfg_heap = h @ [filled f], cfg_values = load_lines (length h) 0 ls vals\<rparr>"
    using bs_scan_end [OF ne assms(3), of h] by (subst doLoad.simps) auto
  finally show ?thesis .
qed

subsection \<open>The reference: keys and values of the lines\<close>

definition config_line :: "bytes \<Rightarrow> (bytes \<rightharpoonup> bytes) \<Rightarrow> (bytes \<rightharpoonup> bytes)" where
  "config_line line m = (case configLine line of
     None \<Rightarrow> m
   | Some (ks, kl, vo, vl) \<Rightarrow> m(take kl (drop ks line) \<mapsto> take vl (drop vo line)))"

definition config_of :: "bytes list \<Rightarrow> (bytes \<rightharpoonup> bytes) \<Rightarrow> (bytes \<rightharpoonup> bytes)" where
  "config_of ls m = fold (\<lambda>l. config_line (drop_cr l)) ls m"

definition config_key :: "bytes \<Rightarrow> bytes option" where
  "config_key line = map_option (\<lambda>(ks, kl, vo, vl). take kl (drop ks line)) (configLine line)"

definition conf_ok :: "Config \<Rightarrow> bool" where
  "conf_ok conf \<longleftrightarrow> (\<forall>k b off n. cfg_values conf k = Some (b, off, n) \<longrightarrow> b < length (cfg_heap conf))"

lemma set_line_reads:
  assumes "take (length line) (drop off (h ! b)) = line"
  shows "(\<lambda>k. map_option (read_slice h) (set_line b off line vals k)) = config_line line (\<lambda>k. map_option (read_slice h) (vals k))"
proof (cases "configLine line")
  case None
  then show ?thesis by (simp add: set_line_def config_line_def)
next
  case (Some g)
  then obtain ks kl vo vl where g: "configLine line = Some (ks, kl, vo, vl)" by (cases g) auto
  have "vo + vl \<le> length line" using configLine_bound [OF g] by simp
  then have "take vl (drop vo (take (length line) (drop off (h ! b)))) = take vl (drop (off + vo) (h ! b))"
    by (simp add: drop_take add.commute min_def)
  with assms g show ?thesis by (auto simp: set_line_def config_line_def)
qed

lemma load_lines_reads:
  assumes "h ! b = p @ lines_text ls @ tail"
  shows "(\<lambda>k. map_option (read_slice h) (load_lines b (length p) ls vals k)) = config_of ls (\<lambda>k. map_option (read_slice h) (vals k))"
  using assms
proof (induction ls arbitrary: p vals)
  case Nil
  then show ?case by (simp add: config_of_def)
next
  case (Cons l ls)
  have "take (length (drop_cr l)) (drop (length p) (h ! b)) = drop_cr l"
    using Cons.prems take_drop_cr [of l "LF # lines_text ls @ tail"] by simp
  note set = set_line_reads [OF this, of vals]
  have "(\<lambda>k. map_option (read_slice h) (load_lines b (length (p @ l @ [LF])) ls (set_line b (length p) (drop_cr l) vals) k))
    = config_of ls (\<lambda>k. map_option (read_slice h) (set_line b (length p) (drop_cr l) vals k))"
    using Cons.prems by (intro Cons.IH) simp
  then show ?case using set by (simp add: config_of_def)
qed

lemma old_values: "conf_ok conf \<Longrightarrow> map_option (read_slice (cfg_heap conf @ hs)) (cfg_values conf k) = cfg_value conf k"
  by (cases "cfg_values conf k") (auto simp: cfg_value_def conf_ok_def nth_append, blast)

lemma load_lines_keep:
  "\<forall>l\<in>set ls. config_key (drop_cr l) \<noteq> Some k \<Longrightarrow> load_lines b off ls vals k = vals k"
  by (induction b off ls vals rule: load_lines.induct) (auto simp: set_line_def config_key_def split: option.splits)

lemma load_lines_array: "load_lines b off ls vals k = Some (b', o', n) \<Longrightarrow> b' = b \<or> vals k = Some (b', o', n)"
proof (induction b off ls vals rule: load_lines.induct)
  case (2 b off l ls vals)
  then show ?case by (cases "configLine (drop_cr l)") (auto simp: set_line_def split: if_splits)
qed simp

lemma set_line_keep: "config_key l \<noteq> Some k \<Longrightarrow> set_line b off l vals k = vals k"
  by (auto simp: set_line_def config_key_def split: option.splits)

lemma doLoad_empty: "doLoad (bs_new [] h) vals = \<lparr>cfg_heap = h @ [replicate startBufSize (CHR 0x00)], cfg_values = vals\<rparr>"
proof -
  have g: "bs_grow (bs_new [] h) = (bs_new [] h)\<lparr>bs_heap := h @ [replicate startBufSize (CHR 0x00)], bs_buf := Some (length h)\<rparr>"
    by (simp add: bs_grow_def bs_new_def bs_array_def bs_window_def copy_at_def startBufSize_def maxTokenSize_def)
  let ?s = "(bs_new [] h)\<lparr>bs_heap := h @ [replicate startBufSize (CHR 0x00)], bs_buf := Some (length h), bs_err := Some AtEOF\<rparr>"
  have "bs_fill (bs_grow (bs_new [] h)) = ?s" unfolding g by (simp add: bs_fill_def bs_new_def)
  moreover have "bs_shift (bs_new [] h) = bs_new [] h" by (simp add: bs_shift_def bs_new_def)
  moreover have "bs_token (bs_new [] h) = None" "bs_err (bs_new [] h) = None" "bs_array (bs_new [] h) = []" "bs_end (bs_new [] h) = 0"
    by (simp_all add: bs_token_def bs_array_def bs_new_def)
  moreover have "bs_scan ?s = (None, ?s)" by (subst bs_scan.simps) (simp add: bs_token_def ScanLines_def bs_window_def bs_new_def)
  ultimately have "bs_scan (bs_new [] h) = (None, ?s)" by (subst bs_scan.simps) (simp add: maxTokenSize_def)
  then show ?thesis by (subst doLoad.simps) simp
qed

lemma doLoad_unterminated:
  assumes "f = lines_text ls @ tail" and "\<forall>l\<in>set ls. LF \<notin> set l" and "LF \<notin> set tail" and "tail \<noteq> []"
    and "startBufSize div 2 < length (lines_text ls)" and "length f \<le> startBufSize"
  shows "doLoad (bs_new f h) vals = \<lparr>cfg_heap = h @ [copy_at 0 tail (filled f)],
    cfg_values = set_line (length h) 0 (drop_cr tail) (load_lines (length h) 0 ls vals)\<rparr>"
proof -
  let ?st = "length (lines_text ls)" and ?vals = "load_lines (length h) 0 ls vals"
  have ne: "f \<noteq> []" and st: "?st \<le> length f" and tl: "drop ?st f = tail" using assms by auto
  define s1 where "s1 = shifted f h ?st"
  have "lines_text ls \<noteq> []" using assms(5) by auto
  then have s1: "bs_shift (scanning f h ?st) = s1" using assms bs_shift_scanning [OF st assms(6), of h] by (simp add: s1_def)
  have len: "length (copy_at 0 tail (filled f)) = startBufSize"
    using assms filled_length [OF assms(6)] by (simp add: copy_at_def)
  have w: "bs_window s1 = tail" "bs_end s1 = length tail" "bs_start s1 = 0"
    "bs_heap s1 = h @ [copy_at 0 tail (filled f)]" "bs_array s1 = copy_at 0 tail (filled f)" "bs_buf s1 = Some (length h)" "bs_rest s1 = []"
    using assms(1) tl by (simp_all add: s1_def shifted_def bs_window_def bs_array_def copy_at_def)
  have tw: "takeWhile (\<lambda>c. c \<noteq> LF) tail = tail" using assms(3) by (auto simp: takeWhile_eq_all_conv)
  have "ScanLines tail False = None" by (simp only: ScanLines_def tw Let_def) simp
  then have "bs_token (scanning f h ?st) = None"
    using scanning_window [OF st, of h] tl by (simp add: bs_token_def) (simp add: scanning_def)
  then have "bs_scan (scanning f h ?st) = bs_scan (s1\<lparr>bs_err := Some AtEOF\<rparr>)"
  proof (rule bs_scan_ask [OF _ _ s1 [symmetric]])
    show "bs_err (scanning f h ?st) = None" by (simp add: scanning_def)
    have "length tail < startBufSize" using assms(1,5,6) by simp
    then show "bs_end s1 \<noteq> length (bs_array s1)" using w(2,5) len by simp
  qed (use w(7) in simp)
  also have "\<dots> = (Some (length h, 0, length (drop_cr tail)), s1\<lparr>bs_err := Some AtEOF, bs_start := length tail\<rparr>)"
  proof -
    have "ScanLines tail True = Some (length tail, length (drop_cr tail))"
      using assms(4) by (simp only: ScanLines_def tw Let_def) simp
    then show ?thesis using w assms(4) by (subst bs_scan.simps) (simp add: bs_token_def)
  qed
  finally have sc: "bs_scan (scanning f h ?st) = (Some (length h, 0, length (drop_cr tail)), s1\<lparr>bs_err := Some AtEOF, bs_start := length tail\<rparr>)" .
  have rd: "read_slice (bs_heap s1) (length h, 0, length (drop_cr tail)) = drop_cr tail"
    using w(4) take_drop_cr [of tail "drop (length tail) (filled f)"] by (simp add: copy_at_def)
  have "bs_scan (s1\<lparr>bs_err := Some AtEOF, bs_start := length tail\<rparr>) = (None, s1\<lparr>bs_err := Some AtEOF, bs_start := 0, bs_end := 0\<rparr>)"
    using w by (subst bs_scan.simps) (simp add: bs_token_def ScanLines_def bs_window_def)
  then have fin: "doLoad (s1\<lparr>bs_err := Some AtEOF, bs_start := length tail\<rparr>) v = \<lparr>cfg_heap = bs_heap s1, cfg_values = v\<rparr>" for v
    by (subst doLoad.simps) simp
  have "doLoad (bs_new f h) vals = doLoad (scanning f h 0) vals"
    using bs_scan_new [OF ne assms(6), of h] by (subst (1 2) doLoad.simps) simp
  also have "\<dots> = doLoad (scanning f h ?st) ?vals"
    using doLoad_lines [of f "[]" ls tail h vals] assms(1,2) by simp
  also have "\<dots> = \<lparr>cfg_heap = bs_heap s1, cfg_values = set_line (length h) 0 (drop_cr tail) ?vals\<rparr>"
    using rd by (subst doLoad.simps) (simp add: sc fin)
  finally show ?thesis using w(4) by simp
qed

subsection \<open>Properties\<close>

text \<open>
  C14. A configuration file of whole lines that fits in the first buffer of the scanner (4096 bytes) is loaded
  exactly: every key then has the value of the last line that sets it, and keys the file does not set keep
  their values; the values are those of a reference that reads line by line without sharing memory.
\<close>

theorem config_load_exact:
  assumes "conf_ok conf" and "openFile path = Inr (lines_text ls)" and "\<forall>l\<in>set ls. LF \<notin> set l"
    and "length (lines_text ls) \<le> startBufSize"
  shows "\<exists>conf'. Load openFile path conf = (None, conf') \<and> conf_ok conf' \<and> cfg_value conf' = config_of ls (cfg_value conf)"
proof -
  let ?h = "cfg_heap conf" and ?b = "length (cfg_heap conf)"
  have ok: "conf_ok \<lparr>cfg_heap = ?h @ [a], cfg_values = load_lines ?b 0 ls (cfg_values conf)\<rparr>" for a
    using assms(1) load_lines_array [of ?b 0 ls "cfg_values conf"] by (fastforce simp: conf_ok_def)
  show ?thesis
  proof (cases "ls = []")
    case True
    with ok [of "replicate startBufSize (CHR 0x00)"] assms(2) doLoad_empty [of ?h] old_values [OF assms(1)] show ?thesis
      by (auto simp: Load_def config_of_def cfg_value_def fun_eq_iff)
  next
    case False
    let ?conf = "\<lparr>cfg_heap = ?h @ [filled (lines_text ls)], cfg_values = load_lines ?b 0 ls (cfg_values conf)\<rparr>"
    have "Load openFile path conf = (None, ?conf)"
      using assms(2-) False by (simp add: Load_def doLoad_small)
    moreover have "cfg_value ?conf = config_of ls (cfg_value conf)"
      using load_lines_reads [of "?h @ [filled (lines_text ls)]" ?b "[]" ls] old_values [OF assms(1)]
      by (simp add: cfg_value_def [abs_def] filled_def)
    ultimately show ?thesis using ok by blast
  qed
qed

definition demo_lines :: "bytes list" where "demo_lines = [''a = 1'', ''# note'', ''b=x=2'']"

lemma demo_matches:
  "configLine ''a = 1'' = Some (0, 1, 4, 1)" "configLine ''# note'' = None" "configLine ''b=x=2'' = Some (0, 3, 4, 1)"
  by (simp_all add: configLine_def match_value_def re_space_def eval_nat_numeral)

theorem config_load_exact_witness:
  "\<exists>conf'. Load (\<lambda>_. Inr (lines_text demo_lines)) ''soa.conf'' NewConfig = (None, conf')
     \<and> cfg_value conf' ''a'' = Some ''1'' \<and> cfg_value conf' ''b=x'' = Some ''2'' \<and> cfg_value conf' ''b'' = None"
  using config_load_exact [of NewConfig "\<lambda>_. Inr (lines_text demo_lines)" "''soa.conf''" demo_lines]
  by (auto simp: conf_ok_def NewConfig_def demo_lines_def startBufSize_def config_of_def config_line_def drop_cr_def
      demo_matches cfg_value_def [of "\<lparr>cfg_heap = [], cfg_values = Map.empty\<rparr>"] fun_eq_iff)

text \<open>
  C37. Values are slices of the scanner's buffer and may be overwritten: when a file has more than 2048
  bytes of whole lines and ends in a line without a newline (and fits in the first buffer), the last
  line is moved over the beginning of the buffer, and a key that an early line sets then has as its
  value bytes of the last line.
\<close>

theorem config_values_overwritten:
  assumes "openFile path = Inr (lines_text (l # ls) @ tail)" and "\<forall>x\<in>set (l # ls). LF \<notin> set x" "LF \<notin> set tail" "tail \<noteq> []"
    and "startBufSize div 2 < length (lines_text (l # ls))" "length (lines_text (l # ls) @ tail) \<le> startBufSize"
    and "configLine (drop_cr l) = Some (ks, kl, vo, vl)" and "vo + vl \<le> length tail"
    and "\<forall>x\<in>set (tail # ls). config_key (drop_cr x) \<noteq> config_key (drop_cr l)"
  shows "\<exists>conf' key. Load openFile path conf = (None, conf') \<and> config_key (drop_cr l) = Some key
    \<and> cfg_value conf' key = Some (take vl (drop vo tail))
    \<and> config_of (l # ls @ [tail]) (cfg_value conf) key = Some (take vl (drop vo l))"
proof -
  let ?h = "cfg_heap conf" and ?b = "length (cfg_heap conf)" and ?f = "lines_text (l # ls) @ tail"
  define key where "key = take kl (drop ks (drop_cr l))"
  have key: "config_key (drop_cr l) = Some key" using assms(7) by (simp add: config_key_def key_def)
  note load = doLoad_unterminated [OF refl assms(2-6), of ?h "cfg_values conf"]
  have keep: "\<forall>x\<in>set (tail # ls). config_key (drop_cr x) \<noteq> Some key" using assms(9) key by simp
  have "set_line ?b 0 (drop_cr tail) (load_lines ?b 0 (l # ls) (cfg_values conf)) key = Some (?b, vo, vl)"
    using keep assms(7) by (simp add: set_line_keep load_lines_keep) (simp add: set_line_def key_def)
  then have v: "cfg_value (doLoad (bs_new ?f ?h) (cfg_values conf)) key = Some (take vl (drop vo tail))"
    using load assms(8) by (simp add: cfg_value_def copy_at_def)
  have pure: "config_of xs m key = m key" if "\<forall>x\<in>set xs. config_key (drop_cr x) \<noteq> Some key" for xs m
    using that by (induction xs arbitrary: m) (auto simp: config_of_def config_line_def config_key_def split: option.splits)
  obtain r where r: "l = drop_cr l @ r" using drop_cr_prefix by blast
  have "vo + vl \<le> length (drop_cr l)" using configLine_bound [OF assms(7)] by simp
  then have "take vl (drop vo (drop_cr l @ r)) = take vl (drop vo (drop_cr l))" by simp
  then have "config_of (l # ls @ [tail]) (cfg_value conf) key = Some (take vl (drop vo l))"
    using pure [of "ls @ [tail]"] keep assms(7) r by (simp add: config_of_def config_line_def key_def)
  with v key assms(1) show ?thesis by (intro exI [of _ "doLoad (bs_new ?f ?h) (cfg_values conf)"] exI [of _ key]) (simp add: Load_def)
qed

text \<open>A comment of two thousand bytes after the line, and a last line that is not terminated.\<close>

lemma demo_comment: "configLine (replicate n (CHR ''#'')) = None"
proof -
  have "match_value (replicate n (CHR ''#'')) i = None" for i
    by (cases "n - i") (auto simp: match_value_def re_space_def)
  then have "match_key (replicate n (CHR ''#'')) lead k = None" for lead k by (induction k) auto
  then show ?thesis by (simp add: configLine_def Let_def)
qed

theorem config_values_overwritten_witness:
  "\<exists>conf' key. Load (\<lambda>_. Inr (lines_text [''a = 1'', replicate 2100 (CHR ''#'')] @ ''######'')) ''soa.conf'' NewConfig = (None, conf')
     \<and> config_key ''a = 1'' = Some key \<and> cfg_value conf' key = Some ''#''"
proof -
  have "drop_cr ''a = 1'' = ''a = 1''" "drop_cr ''######'' = ''######''" by (simp_all add: drop_cr_def)
  moreover have "drop_cr (replicate 2100 (CHR ''#'')) = replicate 2100 (CHR ''#'')"
    by (simp only: drop_cr_def last_replicate) simp
  moreover have "configLine ''######'' = None" using demo_comment [of 6] by (simp add: eval_nat_numeral)
  ultimately show ?thesis
    using config_values_overwritten [of "\<lambda>_. Inr (lines_text [''a = 1'', replicate 2100 (CHR ''#'')] @ ''######'')" "''soa.conf''" "''a = 1''"
        "[replicate 2100 (CHR ''#'')]" "''######''" 0 1 4 1 NewConfig] demo_matches(1) demo_comment [of 2100]
    by (auto simp: startBufSize_def config_key_def)
qed

end
