(* ===== verification/Service.thy ===== *)
theory Service
  imports ActionOptions Validation Config
begin

text \<open>
  Services (\<^verbatim>\<open>scamp/service.go\<close>): construction, registration of actions, and the announcement of a service
  (\<^verbatim>\<open>serviceAsServiceProxy\<close> of \<^verbatim>\<open>scamp/serviceproxy.go\<close> and \<^verbatim>\<open>MarshalText\<close>).

  The map of actions is an association list; its order stands for the order in which Go iterates over the
  map. Random bytes, the clock, the listener and the address of the host are arguments. The private key of the
  certificate is \<open>None\<close> when it is not an RSA key.
\<close>

record ServiceAction =
  sa_callback :: ServiceOptionsFunc
  sa_crudTags :: bytes
  sa_version :: goint

record 'priv Service =
  serviceSpec :: bytes
  sv_sector :: bytes
  sv_name :: bytes
  humanName :: bytes
  listening :: bool
  listenerIP :: net_IP
  listenerPort :: goint
  sv_actions :: "(bytes \<times> ServiceAction) list"
  isRunning :: bool
  sv_clients :: "nat list"
  privateKey :: "'priv option"
  pemCert :: bytes
  connectionsAccepted :: uint64

definition zeroService :: "'priv Service" where
  "zeroService = \<lparr>serviceSpec = [], sv_sector = [], sv_name = [], humanName = [], listening = False, listenerIP = [],
     listenerPort = 0, sv_actions = [], isRunning = False, sv_clients = [], privateKey = None, pemCert = [],
     connectionsAccepted = 0\<rparr>"

declare zeroService_def [zero_values]

subsection \<open>Construction\<close>

text \<open>The error of reading random bytes is dropped; the name then stays empty.\<close>

definition generateRandomName :: "gerror + bytes \<Rightarrow> 'priv Service \<Rightarrow> 'priv Service" where
  "generateRandomName randRead serv = (case randRead of
     Inl e \<Rightarrow> serv
   | Inr randBytes \<Rightarrow> serv\<lparr>sv_name := humanName serv @ '':'' @ EncodeToString randBytes\<rparr>)"

text \<open>\<^verbatim>\<open>tls.Listen\<close> gives an error or the port, \<^verbatim>\<open>getIPForAnnouncePacket\<close> an error or the address.\<close>

definition listen :: "gerror + goint \<Rightarrow> gerror + net_IP \<Rightarrow> 'priv Service \<Rightarrow> gerror option \<times> 'priv Service" where
  "listen tlsListen announceIP serv = (case tlsListen of
     Inl e \<Rightarrow> (Some e, serv)
   | Inr port \<Rightarrow> (case announceIP of
       Inl e \<Rightarrow> (Some e, serv\<lparr>listening := True\<rparr>)
     | Inr ip \<Rightarrow> (None, serv\<lparr>listening := True, listenerIP := ip, listenerPort := port\<rparr>)))"

definition name_too_long :: "bytes \<Rightarrow> gerror" where
  "name_too_long hname = ''name `'' @ hname @ ''` is too long, must be less than 18 bytes''"

definition NewServiceExplicitCert ::
  "gerror + bytes \<Rightarrow> gerror + goint \<Rightarrow> gerror + net_IP \<Rightarrow> bytes \<Rightarrow> bytes \<Rightarrow> bytes \<Rightarrow> 'priv option \<Rightarrow> bytes
    \<Rightarrow> 'priv Service option \<times> gerror option" where
  "NewServiceExplicitCert randRead tlsListen announceIP sct spec hname keypair pem =
     (if length hname > 18 then (None, Some (name_too_long hname))
      else
        (let serv = zeroService\<lparr>sv_sector := sct, serviceSpec := spec, humanName := hname\<rparr>;
             serv1 = (generateRandomName randRead serv)\<lparr>privateKey := keypair, pemCert := TrimSpace pem\<rparr>
         in case listen tlsListen announceIP serv1 of (err, serv2) \<Rightarrow> (Some serv2, err)))"

text \<open>
  The configuration always gives a path, so the check for a missing one never fails; \<open>loadKeyPair\<close> is \<^verbatim>\<open>tls.LoadX509KeyPair\<close>.
\<close>

definition NewService ::
  "Config option \<Rightarrow> (bytes \<Rightarrow> bytes \<Rightarrow> gerror + 'priv option) \<Rightarrow> (bytes \<Rightarrow> gerror + bytes)
    \<Rightarrow> gerror + bytes \<Rightarrow> gerror + goint \<Rightarrow> gerror + net_IP \<Rightarrow> bytes \<Rightarrow> bytes \<Rightarrow> bytes
    \<Rightarrow> ('priv Service option \<times> gerror option) go" where
  "NewService defaultConfig loadKeyPair readFile randRead tlsListen announceIP sct spec hname =
     go_bind (DefaultConfig defaultConfig) (\<lambda>conf.
       let crtPath = ServiceCertPath hname conf; keyPath = ServiceKeyPath hname conf
       in case loadKeyPair crtPath keyPath of
            Inl e \<Rightarrow> Ret (None, Some e)
          | Inr keypair \<Rightarrow> (case readFile crtPath of
              Inl e \<Rightarrow> Ret (None, Some e)
            | Inr pem \<Rightarrow> Ret (NewServiceExplicitCert randRead tlsListen announceIP sct spec hname keypair pem)))"

definition Register ::
  "bytes \<Rightarrow> callback \<Rightarrow> ActionOptions option \<Rightarrow> 'priv Service \<Rightarrow> gerror option \<times> 'priv Service" where
  "Register name cb options serv =
     (if isRunning serv then (Some ''cannot register handlers while server is running'', serv)
      else
        (let actionOptions = (case options of None \<Rightarrow> DefaultActionOptions | Some o' \<Rightarrow> o')
         in (None, serv\<lparr>sv_actions := AList.update name
              \<lparr>sa_callback = \<lparr>sf_callback = cb, sf_options = actionOptions\<rparr>, sa_crudTags = [], sa_version = 1\<rparr>
              (sv_actions serv)\<rparr>)))"

definition Service_Stop :: "'priv Service \<Rightarrow> 'priv Service" where
  "Service_Stop serv = (if listening serv then serv\<lparr>listening := False\<rparr> else serv)"

subsection \<open>The proxy of a service\<close>

definition defaultAnnounceInterval :: goint where "defaultAnnounceInterval = 5"

definition bad_action_name :: "bytes \<Rightarrow> string" where
  "bad_action_name nm = ''bad action name: `'' @ nm @ ''` (no dot found)''"

definition action_class :: "bytes \<times> ServiceAction \<Rightarrow> serviceProxyClass go" where
  "action_class na = (case split_last (CHR ''.'') (fst na) of
     None \<Rightarrow> Panic (bad_action_name (fst na))
   | Some (cls, act) \<Rightarrow> Ret \<lparr>className = cls,
       actions = [\<lparr>actionName = act, crudTags = sa_crudTags (snd na), ad_version = sa_version (snd na)\<rparr>]\<rparr>)"

fun action_classes :: "(bytes \<times> ServiceAction) list \<Rightarrow> serviceProxyClass list go" where
  "action_classes [] = Ret []"
| "action_classes (na # nas) = go_bind (action_class na) (\<lambda>c. go_bind (action_classes nas) (\<lambda>cs. Ret (c # cs)))"

definition connspec_of :: "'priv Service \<Rightarrow> bytes" where
  "connspec_of serv = ''beepish+tls://'' @ IP4_String (To4 (listenerIP serv)) @ '':'' @ dec_int (listenerPort serv)"

definition serviceAsServiceProxy :: "highResTimestamp \<Rightarrow> 'priv Service \<Rightarrow> serviceProxy go" where
  "serviceAsServiceProxy now serv = go_bind (action_classes (sv_actions serv)) (\<lambda>cs.
     Ret \<lparr>sp_version = 3, ident = sv_name serv, sector = sv_sector serv, weight = 1,
       announceInterval = defaultAnnounceInterval * 500, connspec = connspec_of serv, protocols = [''json''],
       classes = cs, extension = None, rawClassRecords = ''rawClassRecords'', rawCert = ''rawCert'',
       rawSig = ''rawSig'', timestamp = now\<rparr>)"

subsection \<open>The announcement of a service\<close>

text \<open>The loop takes rows of 76 bytes, whatever \<open>rowlen\<close> is.\<close>

function row_loop :: "bytes \<Rightarrow> bytes list \<Rightarrow> bytes list" where
  "row_loop substr rows =
     (if length substr > 76 then row_loop (drop 76 substr) (rows @ [take 76 substr])
      else rows @ [substr])"
  by pat_completeness auto
termination
  by (relation "measure (\<lambda>(substr, rows). length substr)") auto

declare row_loop.simps [simp del]

definition stringToRows :: "bytes \<Rightarrow> nat \<Rightarrow> bytes list" where
  "stringToRows input rowlen = (if length input \<le> 76 then [input] else row_loop input [])"

definition MarshalText :: "('pub, 'priv) crypto \<Rightarrow> highResTimestamp \<Rightarrow> 'priv Service \<Rightarrow> (gerror + bytes) go" where
  "MarshalText c now serv = go_bind (serviceAsServiceProxy now serv) (\<lambda>sp.
     let classRecord = serviceProxy_MarshalJSON sp
     in case privateKey serv of
          None \<Rightarrow> Panic ''interface conversion''
        | Some priv \<Rightarrow> (case signSHA256 c classRecord priv of
            Inl e \<Rightarrow> Ret (Inl e)
          | Inr sig \<Rightarrow> Ret (Inr (classRecord @ [LF, LF] @ pemCert serv @ [LF, LF]
              @ concat (map (\<lambda>part. part @ [LF]) (stringToRows sig 76)) @ [LF]))))"

definition runningServiceFilePath :: "bytes \<Rightarrow> 'priv Service \<Rightarrow> bytes" where
  "runningServiceFilePath dir serv = dir @ ''/'' @ map (\<lambda>c. if c = CHR ''/'' then CHR ''_'' else c) (sv_name serv)"

subsection \<open>Rows\<close>

text \<open>The reference: pieces of 76 bytes.\<close>

lemma row_loop_chunks: "substr \<noteq> [] \<Longrightarrow> row_loop substr rows = rows @ chunks 76 substr"
proof (induction substr rows rule: row_loop.induct)
  case (1 substr rows)
  show ?case
  proof (cases "length substr > 76")
    case True
    with 1 show ?thesis by (subst row_loop.simps, subst chunks.simps) auto
  next
    case False
    then have "drop 76 substr = []" "take 76 substr = substr" by auto
    with False 1 show ?thesis by (subst row_loop.simps, subst chunks.simps) (simp add: chunks.simps [of _ "[]"])
  qed
qed

lemma stringToRows_chunks: "stringToRows s n = (if s = [] then [[]] else chunks 76 s)"
proof (cases "length s \<le> 76 \<and> s \<noteq> []")
  case True
  then have "chunks 76 s = [s]" by (subst chunks.simps) (simp add: chunks.simps [of _ "[]"])
  with True show ?thesis by (simp add: stringToRows_def)
qed (auto simp: stringToRows_def row_loop_chunks)

lemma chunks_concat: "0 < n \<Longrightarrow> concat (chunks n s) = s"
proof (induction n s rule: chunks.induct)
  case (1 n s)
  then show ?case by (subst chunks.simps) auto
qed

lemma chunks_set: "r \<in> set (chunks n s) \<Longrightarrow> r \<noteq> [] \<and> length r \<le> n \<and> set r \<subseteq> set s"
proof (induction n s arbitrary: r rule: chunks.induct)
  case (1 n s)
  show ?case
  proof (cases "s = [] \<or> n = 0")
    case False
    with "1.prems" have "r = take n s \<or> r \<in> set (chunks n (drop n s))" by (subst (asm) chunks.simps) auto
    then show ?thesis
    proof
      assume "r = take n s"
      with False show ?thesis using set_take_subset [of n s] by auto
    next
      assume "r \<in> set (chunks n (drop n s))"
      with "1.IH" [OF False] show ?thesis using set_drop_subset [of n s] by blast
    qed
  qed (use "1.prems" in \<open>simp add: chunks.simps\<close>)
qed

subsection \<open>An announcement can be loaded\<close>

lemma ascii_repair: "\<forall>c\<in>set s. code c < 0x80 \<Longrightarrow> utf8_repair s = s"
  by (induction s) (auto simp: utf8_repair_ascii)

lemma dec_nat_ascii: "c \<in> set (dec_nat n) \<Longrightarrow> code c < 0x80"
  using dec_nat_digits [of n] by (auto simp: list_all_iff is_digit_def)

lemma connspec_repair: "utf8_repair (connspec_of serv) = connspec_of serv"
proof (rule ascii_repair)
  have "\<forall>c\<in>set (join_with ''.'' (map (\<lambda>b. dec_nat (code b)) ip)). code c < 0x80" for ip
  proof
    fix c
    assume "c \<in> set (join_with ''.'' (map (\<lambda>b. dec_nat (code b)) ip))"
    then consider "c = CHR ''.''" | b where "c \<in> set (dec_nat (code b))"
      using join_with_set [of "''.''" "map (\<lambda>b. dec_nat (code b)) ip"] by auto
    then show "code c < 0x80" by cases (auto dest: dec_nat_ascii)
  qed
  then have "\<forall>c\<in>set (IP4_String ip). code c < 0x80" for ip by (auto simp: IP4_String_def)
  moreover have "\<forall>c\<in>set (dec_int v). code c < 0x80" for v
    using dec_int_chars by (fastforce simp: is_digit_def)
  ultimately show "\<forall>c\<in>set (connspec_of serv). code c < 0x80"
    by (auto simp: connspec_of_def)
qed

lemma action_class_Ret:
  "action_class na = Ret c \<longleftrightarrow> (\<exists>cls act. split_last (CHR ''.'') (fst na) = Some (cls, act)
     \<and> c = \<lparr>className = cls, actions = [\<lparr>actionName = act, crudTags = sa_crudTags (snd na), ad_version = sa_version (snd na)\<rparr>]\<rparr>)"
  by (auto simp: action_class_def split: option.splits)

lemma action_classes_Ret:
  "action_classes nas = Ret cs \<longleftrightarrow> list_all2 (\<lambda>na c. action_class na = Ret c) nas cs"
proof (induction nas arbitrary: cs)
  case (Cons na nas)
  then show ?case by (cases cs) (auto simp: go_bind_Ret_conv)
qed (auto simp: eq_commute [of "[]"])

lemma action_classes_set:
  assumes "action_classes nas = Ret cs"
  shows "\<forall>c\<in>set cs. \<exists>na\<in>set nas. action_class na = Ret c" and "\<forall>na\<in>set nas. \<exists>c\<in>set cs. action_class na = Ret c"
  using assms unfolding action_classes_Ret by (induction nas cs rule: list_all2_induct) auto

lemma join_lines: "ls \<noteq> [] \<Longrightarrow> join_with [LF] ls @ [LF] = lines_text ls"
  by (induction "[LF]" ls rule: join_with.induct) auto

text \<open>
  What a service needs to be found by others: every action name has a dot, the certificate is a PEM text
  without blank lines, of the key it signs with, its record fits in a line of the scanner, and its
  names are valid UTF-8. The last condition on the library is that a signature has at least one byte.
\<close>

definition publishable :: "('pub, 'priv) crypto \<Rightarrow> highResTimestamp \<Rightarrow> 'priv Service \<Rightarrow> bool" where
  "publishable c now serv \<longleftrightarrow> (\<exists>sp cert priv blk crt pub.
     serviceAsServiceProxy now serv = Ret sp \<and> length (serviceProxy_MarshalJSON sp) < maxTokenSize
     \<and> pemCert serv = join_with [LF] cert \<and> block_lines cert
     \<and> privateKey serv = Some priv \<and> pem_Decode c (pemCert serv) = Some blk \<and> ParseCertificate c blk = Inr crt
     \<and> cert_PublicKey crt = Some pub \<and> key_pair c pub priv \<and> (\<forall>d sig. SignPKCS1v15 c priv d = Inr sig \<longrightarrow> sig \<noteq> []))
     \<and> valid_utf8 (sv_sector serv) \<and> valid_utf8 (sv_name serv)
     \<and> (\<forall>na\<in>set (sv_actions serv). \<forall>cls act. split_last (CHR ''.'') (fst na) = Some (cls, act) \<longrightarrow> valid_utf8 cls \<and> valid_utf8 act)"

lemma b64_line:
  assumes "list_all b64_text r" and "r \<noteq> []" and "length r < maxTokenSize"
  shows "scan_line r \<and> r \<noteq> [] \<and> r \<noteq> sep"
proof -
  have x: "x \<noteq> LF \<and> x \<noteq> CR \<and> x \<noteq> CHR ''%''" if "x \<in> set r" for x
    using b64_text_graphic [of x] assms(1) that by (auto simp: is_newline_def list_all_iff)
  have "r \<noteq> sep" using x [of "CHR ''%''"] by (auto simp: sep_def)
  then show ?thesis using x [OF last_in_set [OF assms(2)]] x [of LF] assms(2,3) by (auto simp: scan_line_def)
qed

lemma filter_b64: "list_all b64_text r \<Longrightarrow> filter (\<lambda>x. \<not> is_newline x) r = r"
  using b64_text_graphic by (auto simp: list_all_iff filter_id_conv)

lemma signature_rows:
  assumes "list_all b64_text enc" "enc \<noteq> []"
  shows "block_lines (stringToRows enc n)" and "filter (\<lambda>x. \<not> is_newline x) (join_with [LF] (stringToRows enc n)) = enc"
proof -
  have rows: "stringToRows enc n = chunks 76 enc" using assms(2) by (simp add: stringToRows_chunks)
  have b64: "b64_text x" if "r \<in> set (chunks 76 enc)" "x \<in> set r" for r x
    using that assms(1) chunks_set [of r 76 enc] by (auto simp: list_all_iff)
  have cs: "chunks 76 enc \<noteq> []" using assms(2) by (subst chunks.simps) simp
  have "scan_line r \<and> r \<noteq> [] \<and> r \<noteq> sep" if "r \<in> set (chunks 76 enc)" for r
    using b64_line [of r] b64 [OF that] chunks_set [OF that] by (auto simp: list_all_iff maxTokenSize_def)
  then show "block_lines (stringToRows enc n)" using cs by (simp add: block_lines_def rows)
  have "filter (\<lambda>x. \<not> is_newline x) (join_with [LF] rs) = concat rs" if "\<forall>r\<in>set rs. \<forall>x\<in>set r. \<not> is_newline x" for rs
    using that by (induction "[LF]" rs rule: join_with.induct) auto
  from this [of "chunks 76 enc"] show "filter (\<lambda>x. \<not> is_newline x) (join_with [LF] (stringToRows enc n)) = enc"
    using b64 b64_text_graphic by (simp add: rows chunks_concat)
qed

lemma MarshalText_announcement:
  assumes "publishable c now serv" and "MarshalText c now serv = Ret (Inr text)"
  shows "\<exists>sp cert sig. serviceAsServiceProxy now serv = Ret sp \<and> lines_text [sep] @ text = announcement_of (sp, cert, sig)
    \<and> announceable (sp, cert, sig) \<and> validates c (loaded (sp, cert, sig))"
proof -
  obtain sp cert priv blk crt pub where p: "serviceAsServiceProxy now serv = Ret sp" "length (serviceProxy_MarshalJSON sp) < maxTokenSize"
     "pemCert serv = join_with [LF] cert" "block_lines cert" "privateKey serv = Some priv" "pem_Decode c (pemCert serv) = Some blk"
     "ParseCertificate c blk = Inr crt" "cert_PublicKey crt = Some pub" "key_pair c pub priv"
     "\<And>d sig. SignPKCS1v15 c priv d = Inr sig \<Longrightarrow> sig \<noteq> []"
    using assms(1) unfolding publishable_def by blast
  obtain enc where enc: "signSHA256 c (serviceProxy_MarshalJSON sp) priv = Inr enc"
    and out: "text = serviceProxy_MarshalJSON sp @ [LF, LF] @ pemCert serv @ [LF, LF] @ lines_text (stringToRows enc 76) @ [LF]"
    using assms(2) p(1,5) by (auto simp: MarshalText_def lines_text_def Let_def split: sum.splits)
  obtain s where "enc = EncodeToString s" "s \<noteq> []" using enc p(10) by (auto simp: signSHA256_def split: sum.splits)
  then have "list_all b64_text enc" "enc \<noteq> []"
    using EncodeToString_text [of s] by simp_all
  note rows = signature_rows [OF this, of 76]
  have cert: "cert \<noteq> []" using p(4) by (simp add: block_lines_def)
  have "lines_text [sep] @ text = announcement_of (sp, cert, stringToRows enc 76)"
    using join_lines [OF cert] by (simp add: out announcement_def p(3) flip: append_assoc)
  moreover obtain cs where "action_classes (sv_actions serv) = Ret cs" "classes sp = cs"
    using p(1) by (auto simp: serviceAsServiceProxy_def go_bind_Ret_conv)
  then have "\<forall>c\<in>set (classes sp). actions c \<noteq> []"
    using action_classes_set(1) [of "sv_actions serv" cs] by (fastforce simp: action_class_Ret)
  then have "announceable (sp, cert, stringToRows enc 76)" using p(2,4) rows(1) by simp
  moreover have "validates c (loaded (sp, cert, stringToRows enc 76))"
    using signed_verifies [OF p(9) enc rows(2)] p(3,6-8) verifySHA256_accepts [of c "serviceProxy_MarshalJSON sp" pub]
    by (auto simp: validates_iff announced_def)
  ultimately show ?thesis using p(1) by blast
qed

text \<open>
  The name under which an action is looked up, and that a service offers what a search asks for: it has registered an action with this
  name, up to upper and lower case. The announced protocol is always \<^verbatim>\<open>json\<close>.
\<close>

definition action_key :: "(nat \<Rightarrow> nat) \<Rightarrow> bytes \<Rightarrow> bytes \<Rightarrow> goint \<Rightarrow> bytes \<Rightarrow> bytes" where
  "action_key lower sct nm ver env = ToLower lower (sct @ '':'' @ nm @ ''~'' @ dec_int ver @ ''#'' @ env)"

definition offers :: "(nat \<Rightarrow> nat) \<Rightarrow> 'priv Service \<Rightarrow> bytes \<Rightarrow> bytes \<Rightarrow> goint \<Rightarrow> bytes \<Rightarrow> bool" where
  "offers lower serv sct nm ver env \<longleftrightarrow>
     (\<exists>(nm', a)\<in>set (sv_actions serv). action_key lower sct nm ver env = action_key lower (sv_sector serv) nm' (sa_version a) ''json'')"

lemma action_key_munged:
  "split_last (CHR ''.'') nm = Some (cls, act) \<Longrightarrow> action_key lower sct nm ver env = munged_action lower sct cls act ver env"
  using split_last_Some [of "CHR ''.''" nm cls act] by (simp add: action_key_def munged_action_def)

lemma SearchByAction_key: "fst (SearchByAction lower sct nm ver env cache) = index_lookup (actionIndex cache) (action_key lower sct nm ver env)"
  by (simp add: SearchByAction_def action_key_def Let_def)

lemma matched_names:
  assumes "\<forall>c\<in>C. \<exists>n\<in>A. R n c" "\<forall>n\<in>A. \<exists>c\<in>C. R n c" "\<And>n c. n \<in> A \<Longrightarrow> R n c \<Longrightarrow> N c = {K n}"
  shows "(\<exists>c\<in>C. key \<in> N c) \<longleftrightarrow> (\<exists>n\<in>A. key = K n)"
  using assms by (metis singletonD singletonI)

lemma matched_image:
  assumes "list_all2 R ss xs" and "\<And>s x. s \<in> set ss \<Longrightarrow> R s x \<Longrightarrow> f x = g s \<and> (P x \<longleftrightarrow> Q s)"
  shows "f ` {x \<in> set xs. P x} = g ` {s \<in> set ss. Q s}"
proof (intro equalityI subsetI)
  fix y
  assume "y \<in> f ` {x \<in> set xs. P x}"
  then obtain x where "x \<in> set xs" "P x" "y = f x" by blast
  moreover from this obtain s where "s \<in> set ss" "R s x" using list_all2_right [OF assms(1)] by blast
  ultimately show "y \<in> g ` {s \<in> set ss. Q s}" using assms(2) by blast
next
  fix y
  assume "y \<in> g ` {s \<in> set ss. Q s}"
  then obtain s where "s \<in> set ss" "Q s" "y = g s" by blast
  moreover from this obtain x where "x \<in> set xs" "R s x" using list_all2_left [OF assms(1)] by blast
  ultimately show "y \<in> f ` {x \<in> set xs. P x}" using assms(2) by (intro image_eqI [of _ _ x]) auto
qed

text \<open>The proxy that another process loads has the names of the service, and it is stored under its actions.\<close>

lemma loaded_service:
  assumes "publishable c now serv" and "serviceAsServiceProxy now serv = Ret sp"
  shows "ident (loaded (sp, cert, sig)) = sv_name serv" and "connspec (loaded (sp, cert, sig)) = connspec_of serv"
    and "key \<in> set (store_names lower (loaded (sp, cert, sig)))
      \<longleftrightarrow> (\<exists>(nm, a)\<in>set (sv_actions serv). key = action_key lower (sv_sector serv) nm (sa_version a) ''json'')" (is "_ \<longleftrightarrow> ?offered")
proof -
  obtain cs where cs: "action_classes (sv_actions serv) = Ret cs"
    and sp: "sp = \<lparr>sp_version = 3, ident = sv_name serv, sector = sv_sector serv, weight = 1,
       announceInterval = defaultAnnounceInterval * 500, connspec = connspec_of serv, protocols = [''json''],
       classes = cs, extension = None, rawClassRecords = ''rawClassRecords'', rawCert = ''rawCert'',
       rawSig = ''rawSig'', timestamp = now\<rparr>"
    using assms(2) by (auto simp: serviceAsServiceProxy_def go_bind_Ret_conv)
  have v: "utf8_repair (sv_name serv) = sv_name serv" "utf8_repair (sv_sector serv) = sv_sector serv"
    using assms(1) by (auto simp: publishable_def valid_utf8_def)
  show "ident (loaded (sp, cert, sig)) = sv_name serv" "connspec (loaded (sp, cert, sig)) = connspec_of serv"
    using v connspec_repair [of serv] by (simp_all add: sp announced_def)
  let ?names = "\<lambda>cl. set (map (\<lambda>a. munged_action lower (sv_sector serv) (utf8_repair (className cl)) (utf8_repair (actionName a)) (ad_version a) ''json'') (actions cl))"
  have "utf8_repair ''json'' = ''json''" by (rule ascii_repair) simp
  then have "key \<in> set (store_names lower (loaded (sp, cert, sig))) \<longleftrightarrow> (\<exists>cl\<in>set cs. key \<in> ?names cl)"
    using v(2) by (auto simp: store_names_def sp announced_def repair_class_def repair_action_def)
  moreover have names: "?names cl = {action_key lower (sv_sector serv) (fst na) (sa_version (snd na)) ''json''}"
    if na: "na \<in> set (sv_actions serv)" "action_class na = Ret cl" for na cl
  proof -
    obtain cls act where sl: "split_last (CHR ''.'') (fst na) = Some (cls, act)"
      and cl: "cl = \<lparr>className = cls, actions = [\<lparr>actionName = act, crudTags = sa_crudTags (snd na), ad_version = sa_version (snd na)\<rparr>]\<rparr>"
      using na(2) by (auto simp: action_class_Ret)
    have "utf8_repair cls = cls" "utf8_repair act = act" using assms(1) na(1) sl by (auto simp: publishable_def valid_utf8_def)
    with cl action_key_munged [OF sl] show ?thesis by simp
  qed
  ultimately have "key \<in> set (store_names lower (loaded (sp, cert, sig)))
      \<longleftrightarrow> (\<exists>na\<in>set (sv_actions serv). key = action_key lower (sv_sector serv) (fst na) (sa_version (snd na)) ''json'')"
    using matched_names [OF action_classes_set [OF cs], of ?names "\<lambda>na. action_key lower (sv_sector serv) (fst na) (sa_version (snd na)) ''json''" key]
    by simp
  then show "key \<in> set (store_names lower (loaded (sp, cert, sig))) \<longleftrightarrow> ?offered" by (simp add: case_prod_unfold)
qed

lemma texts_announcements:
  assumes "list_all2 (\<lambda>serv text. publishable c now serv \<and> MarshalText c now serv = Ret (Inr text)) servs outs"
  shows "\<exists>as. concat (map (\<lambda>text. lines_text [sep] @ text) outs) = concat (map announcement_of as)
    \<and> list_all announceable as \<and> list_all (validates c) (map loaded as)
    \<and> list_all2 (\<lambda>serv a. serviceAsServiceProxy now serv = Ret (fst a)) servs as"
  using assms
proof (induction rule: list_all2_induct)
  case (Cons serv servs out outs)
  then obtain as where as: "concat (map (\<lambda>text. lines_text [sep] @ text) outs) = concat (map announcement_of as)"
    "list_all announceable as" "list_all (validates c) (map loaded as)"
    "list_all2 (\<lambda>serv a. serviceAsServiceProxy now serv = Ret (fst a)) servs as" by blast
  from Cons(1) obtain sp cert sig where "serviceAsServiceProxy now serv = Ret sp"
    "lines_text [sep] @ out = announcement_of (sp, cert, sig)" "announceable (sp, cert, sig)" "validates c (loaded (sp, cert, sig))"
    using MarshalText_announcement by blast
  with as show ?case by (intro exI [of _ "(sp, cert, sig) # as"]) (simp del: announceable.simps announcement_of.simps loaded.simps)
qed simp

subsection \<open>Properties\<close>

text \<open>
  Discovery, end to end: when the discovery file consists of what running services announced (each
  text after a separator line), a cache with verification of signatures on loads it without an error,
  and every search then finds exactly the services that offer what it asks for, each at the address on
  which the service listens.
\<close>

lemma service_discovery:
  assumes "list_all2 (\<lambda>serv text. publishable c now serv \<and> MarshalText c now serv = Ret (Inr text)) servs outs"
  shows "\<exists>cache'. DoScan lower (validates c) (new_scanner (concat (map (\<lambda>text. lines_text [sep] @ text) outs))) cache = Ret (None, cache')
    \<and> (\<forall>sct nm ver env. list_all (validates c) (fst (SearchByAction lower sct nm ver env cache'))
        \<and> (\<lambda>sp. (ident sp, connspec sp)) ` set (fst (SearchByAction lower sct nm ver env cache'))
          = (\<lambda>serv. (sv_name serv, connspec_of serv)) ` {serv \<in> set servs. offers lower serv sct nm ver env})"
proof -
  obtain as where as: "concat (map (\<lambda>text. lines_text [sep] @ text) outs) = concat (map announcement_of as)"
    "list_all announceable as" "list_all (validates c) (map loaded as)"
    "list_all2 (\<lambda>serv a. serviceAsServiceProxy now serv = Ret (fst a)) servs as"
    using texts_announcements [OF assms] by blast
  define cache' where "cache' = store_all lower (map loaded as) (clearNoLock cache)"
  have scan: "DoScan lower (validates c) (new_scanner (concat (map announcement_of as))) cache = Ret (None, cache')"
    using scan_loop_loads [OF as(2,3)] by (simp add: DoScan_def new_scanner_def cache'_def)
  have look: "set (index_lookup (actionIndex cache') key) = loaded ` {x \<in> set as. key \<in> set (store_names lower (loaded x))}" for key
    using lookup_store_all [of lower "map loaded as" "clearNoLock cache"]
    by (auto simp: cache'_def clearNoLock_def index_lookup_def entries_def simp del: loaded.simps)
  have same: "(ident (loaded x), connspec (loaded x)) = (sv_name serv, connspec_of serv)
      \<and> (action_key lower sct nm ver env \<in> set (store_names lower (loaded x)) \<longleftrightarrow> offers lower serv sct nm ver env)"
    if "serv \<in> set servs" "serviceAsServiceProxy now serv = Ret (fst x)" for serv x sct nm ver env
    using loaded_service(1,2) [of c now serv "fst x" "fst (snd x)" "snd (snd x)"] list_all2_left [OF assms that(1)] that(2)
      loaded_service(3) [where c = c and now = now and lower = lower and key = "action_key lower sct nm ver env" and serv = serv and sp = "fst x" and cert = "fst (snd x)" and sig = "snd (snd x)"]
    by (auto simp: offers_def simp del: loaded.simps)
  have "(\<lambda>sp. (ident sp, connspec sp)) ` set (index_lookup (actionIndex cache') (action_key lower sct nm ver env))
      = (\<lambda>serv. (sv_name serv, connspec_of serv)) ` {serv \<in> set servs. offers lower serv sct nm ver env}" for sct nm ver env
    unfolding look image_image using same by (rule matched_image [OF as(4)])
  moreover have "list_all (validates c) (index_lookup (actionIndex cache') key)" for key
    using as(3) look [of key] by (auto simp: list_all_iff simp del: loaded.simps)
  ultimately show ?thesis using scan as(1) by (auto simp: SearchByAction_key)
qed

definition demo_service :: "unit Service" where
  "demo_service = zeroService\<lparr>sv_sector := ''main'', sv_name := ''log:x'', listenerIP := [CHR 0x0A, CHR 0x00, CHR 0x00, CHR 0x01],
     listenerPort := 30100, privateKey := Some (), pemCert := ''CERT'',
     sv_actions := [(''Log.info'', \<lparr>sa_callback = demo_action [], sa_crudTags = [], sa_version = 1\<rparr>)]\<rparr>"

definition demo_service_proxy :: serviceProxy where
  "demo_service_proxy = \<lparr>sp_version = 3, ident = ''log:x'', sector = ''main'', weight = 1,
     announceInterval = 2500, connspec = connspec_of demo_service, protocols = [''json''],
     classes = [\<lparr>className = ''Log'', actions = [\<lparr>actionName = ''info'', crudTags = [], ad_version = 1\<rparr>]\<rparr>],
     extension = None, rawClassRecords = ''rawClassRecords'', rawCert = ''rawCert'', rawSig = ''rawSig'', timestamp = 0\<rparr>"

lemma demo_split: "split_last (CHR ''.'') ''Log.info'' = Some (''Log'', ''info'')"
  by (simp add: split_last_def)

lemma demo_connspec: "connspec_of demo_service = ''beepish+tls://10.0.0.1:30100''"
  by (simp add: connspec_of_def demo_service_def IP4_String_def To4_def dec_nat.simps dec_int_def zeroService_def)

lemma demo_as_proxy: "serviceAsServiceProxy 0 demo_service = Ret demo_service_proxy"
  using demo_split
  by (simp add: serviceAsServiceProxy_def action_class_def demo_service_def demo_service_proxy_def zeroService_def
      defaultAnnounceInterval_def)

lemma demo_record_length: "length (serviceProxy_MarshalJSON demo_service_proxy) < maxTokenSize"
  by (simp add: demo_service_proxy_def demo_connspec maxTokenSize_def serviceProxy_MarshalJSON_def proxy_json_def print_json_def
      texts_def json_string_def json_int_def dec_int_def timestamp_MarshalJSON_def timestamp_text_def pad_left_def dec_nat.simps
      enc_string_plain plain_def html_safe_def class_json_def action_json_def)

lemma demo_key_pair: "key_pair demo_crypto () ()"
  by (simp add: key_pair_def demo_crypto_def)

lemma demo_publishable: "publishable demo_crypto 0 demo_service"
proof -
  have "valid_utf8 ''main''" "valid_utf8 ''log:x''" "valid_utf8 ''Log''" "valid_utf8 ''info''"
    by (simp_all add: valid_utf8_def ascii_repair)
  then show ?thesis
    using demo_as_proxy demo_record_length demo_key_pair demo_split unfolding publishable_def
    by (auto simp: demo_service_def demo_crypto_def zeroService_def block_lines_def scan_line_def maxTokenSize_def sep_def
        intro!: exI [of _ demo_service_proxy] exI [of _ "[''CERT'']"])
qed

lemma demo_marshals: "\<exists>out. MarshalText demo_crypto 0 demo_service = Ret (Inr out)"
  by (simp add: MarshalText_def demo_as_proxy Let_def) (simp add: demo_service_def signSHA256_def demo_crypto_def)

text \<open>
  Rows: the rows of a signature are those of the reference, pieces of 76 bytes (one empty row for an
  empty text), whatever row length was asked for; no row is longer than 76 bytes, and joined they are the
  text.
\<close>

lemma rows_of_76:
  "stringToRows s n = (if s = [] then [[]] else chunks 76 s) \<and> concat (stringToRows s n) = s
     \<and> list_all (\<lambda>r. length r \<le> 76) (stringToRows s n)"
  using chunks_set [of _ 76 s] by (auto simp: stringToRows_chunks chunks_concat list_all_iff)

text \<open>
  Names: a service is created exactly when its human name has at most 18 bytes (also 18, which the
  error message excludes); its name is the human name, a colon and 24 characters of base64, so at most 43 bytes,
  also when listening fails, in which case the service is returned together with the error.
\<close>

lemma service_name_bounds:
  assumes "length rnd = 18"
  shows "case NewServiceExplicitCert (Inr rnd) tlsListen announceIP sct spec hname keypair pem of
      (None, err) \<Rightarrow> 18 < length hname \<and> err = Some (name_too_long hname)
    | (Some serv, err) \<Rightarrow> length hname \<le> 18 \<and> sv_name serv = hname @ '':'' @ EncodeToString rnd
        \<and> length (sv_name serv) = length hname + 25 \<and> length (sv_name serv) \<le> 43 \<and> \<not> isRunning serv \<and> sv_actions serv = []
        \<and> (err = None \<longleftrightarrow> (\<exists>port ip. tlsListen = Inr port \<and> announceIP = Inr ip \<and> listenerPort serv = port \<and> listenerIP serv = ip))"
  using assms EncodeToString_length [of rnd]
  by (auto simp: NewServiceExplicitCert_def generateRandomName_def listen_def zeroService_def Let_def split: sum.splits)

end
