(* ===== verification/ServiceRun.thy ===== *)
theory ServiceRun
  imports Service Systems
begin

text \<open>
  A running service (\<^verbatim>\<open>Run\<close>, \<^verbatim>\<open>Handle\<close>, \<^verbatim>\<open>RemoveClient\<close> and the liveness file of \<^verbatim>\<open>scamp/service.go\<close>), and its
  statistics (\<^verbatim>\<open>scamp/stats.go\<close>, \<^verbatim>\<open>scamp/service_stats.go\<close>).

  Clients are pointers: the service has a list of them, and the clients themselves are in a store, numbered
  in the order in which they were accepted. The lock \<open>clientsM\<close> of the list is a field, because \<^verbatim>\<open>Close\<close> of a client and
  \<^verbatim>\<open>RemoveClient\<close> of the service call each other with it held. Each client has its own handler; what the handlers, the
  callbacks and the readers of the connections do to the clients are the steps of a relation.
\<close>

record 'priv world =
  w_serv :: "'priv Service"
  w_clients :: "Client list"
  w_slots :: "proxy_slots option"
  w_clientsM :: bool

definition tracked :: "nat \<Rightarrow> 'priv world \<Rightarrow> bool" where
  "tracked i w \<longleftrightarrow> i \<in> set (sv_clients (w_serv w))"

definition set_client :: "nat \<Rightarrow> Client \<Rightarrow> 'priv world \<Rightarrow> 'priv world" where
  "set_client i cl w = w\<lparr>w_clients := (w_clients w)[i := cl]\<rparr>"

subsection \<open>Closing and removing clients\<close>

text \<open>
  \<^verbatim>\<open>Close\<close> of a client calls \<^verbatim>\<open>RemoveClient\<close> when the client has a service, and \<^verbatim>\<open>RemoveClient\<close> calls \<^verbatim>\<open>Close\<close> of a client that it
  tracks. Each locks a mutex first, the client's \<open>closedM\<close> and the service's \<open>clientsM\<close>, and waits for ever when the lock is already held,
  so the calls are at most four deep.
\<close>

function close_client :: "nat \<Rightarrow> nat \<Rightarrow> 'priv world \<Rightarrow> 'priv world go"
  and RemoveClient :: "nat \<Rightarrow> nat \<Rightarrow> 'priv world \<Rightarrow> (gerror option \<times> 'priv world) go" where
  "close_client k i w = go_bind (close_begin (w_slots w) k (w_clients w ! i)) (\<lambda>(slots, conn, cl).
     let w1 = (set_client i cl w)\<lparr>w_slots := slots\<rparr> in
     case conn of
       None \<Rightarrow> Ret w1
     | Some _ \<Rightarrow> go_bind (if cl_serv cl then RemoveClient k i w1 else Ret (None, w1)) (\<lambda>(err, w2).
         Ret (set_client i (close_finish (w_clients w2 ! i)) w2)))"
| "RemoveClient k i w =
     (if w_clientsM w then Deadlock
      else if \<not> tracked i w then Ret (Some ''unknown client'', w)
      else go_bind (close_client k i (w\<lparr>w_clientsM := True\<rparr>)) (\<lambda>w1.
        Ret (None, w1\<lparr>w_serv := (w_serv w1)\<lparr>sv_clients := remove1 i (sv_clients (w_serv w1))\<rparr>, w_clientsM := False\<rparr>)))"
  by pat_completeness auto
termination
  by (relation "measure (\<lambda>x. case x of Inl (k, i, w) \<Rightarrow> if w_clientsM w then 1 else 3 | Inr (k, i, w) \<Rightarrow> if w_clientsM w then 0 else 2)")
     (auto simp: set_client_def)

declare close_client.simps [simp del] RemoveClient.simps [simp del]

subsection \<open>Handling messages\<close>

definition no_such_action :: "Message \<Rightarrow> Message" where
  "no_such_action msg = snd (Message_Write ''{\"error\": \"no such action\"}''
     ((SetRequestID (mRequestID msg) \<circ> SetEnvelope EnvelopeJSON \<circ> SetMessageType MessageTypeReply) NewMessage))"

text \<open>One message of the loop: whether the loop goes on.\<close>

definition handle_message ::
  "('pub, 'priv) env \<Rightarrow> nat \<Rightarrow> nat \<Rightarrow> Message \<Rightarrow> 'priv world \<Rightarrow> 'pub key_state \<Rightarrow> 'pub key_state \<times> (bool \<times> 'priv world) go" where
  "handle_message env k i msg w ks = (case map_of (sv_actions (w_serv w)) (mAction msg) of
     Some action \<Rightarrow> (case Call env (sa_callback action) msg (w_clients w ! i) ks of
         (ks1, r) \<Rightarrow> (ks1, go_bind r (\<lambda>cl. Ret (True, set_client i cl w))))
   | None \<Rightarrow> (case Client_Send (no_such_action msg) (w_clients w ! i) of
         ((_, None), cl, _) \<Rightarrow> (ks, Ret (True, set_client i cl w))
       | ((_, Some e), cl, _) \<Rightarrow> (ks, go_bind (close_client k i (set_client i cl w)) (\<lambda>w1. Ret (False, w1)))))"

text \<open>The messages that arrive until the channel is closed or no message arrives for two minutes.\<close>

fun handle_loop ::
  "('pub, 'priv) env \<Rightarrow> nat \<Rightarrow> nat \<Rightarrow> Message list \<Rightarrow> 'priv world \<Rightarrow> 'pub key_state \<Rightarrow> 'pub key_state \<times> 'priv world go" where
  "handle_loop env k i [] w ks = (ks, Ret w)"
| "handle_loop env k i (msg # ms) w ks = (case handle_message env k i msg w ks of
     (ks1, Ret (cont, w1)) \<Rightarrow> if cont then handle_loop env k i ms w1 ks1 else (ks1, Ret w1)
   | (ks1, Panic m) \<Rightarrow> (ks1, Panic m)
   | (ks1, Deadlock) \<Rightarrow> (ks1, Deadlock))"

definition handle_end :: "nat \<Rightarrow> nat \<Rightarrow> 'priv world \<Rightarrow> 'priv world go" where
  "handle_end k i w = go_bind (close_client k i w) (\<lambda>w1. go_bind (RemoveClient k i w1) (\<lambda>(_, w2). Ret w2))"

definition Handle ::
  "('pub, 'priv) env \<Rightarrow> nat \<Rightarrow> nat \<Rightarrow> Message list \<Rightarrow> 'priv world \<Rightarrow> 'pub key_state \<Rightarrow> 'pub key_state \<times> 'priv world go" where
  "Handle env k i ms w ks = (case handle_loop env k i ms w ks of (ks1, r) \<Rightarrow> (ks1, go_bind r (handle_end k i)))"

subsection \<open>The liveness file\<close>

text \<open>The directories and files, and the errors the system gives for an operation on a path.\<close>

datatype fs_op = OpStat | OpMkdirAll | OpCreate | OpRemove

record fsys =
  fs_dirs :: "bytes set"
  fs_files :: "bytes set"
  fs_deny :: "fs_op \<Rightarrow> bytes \<Rightarrow> gerror option"

text \<open>Whether \<^verbatim>\<open>os.Stat\<close> says that there is no such path: any other error of it counts as if there were one.\<close>

definition IsNotExist :: "fsys \<Rightarrow> bytes \<Rightarrow> bool" where
  "IsNotExist fs p \<longleftrightarrow> fs_deny fs OpStat p = None \<and> p \<notin> fs_dirs fs \<and> p \<notin> fs_files fs"

definition createRunningServiceFile :: "Config option \<Rightarrow> 'priv Service \<Rightarrow> fsys \<Rightarrow> (gerror option \<times> fsys) go" where
  "createRunningServiceFile defaultConfig serv fs = go_bind (DefaultConfig defaultConfig) (\<lambda>conf.
     case RunningServiceFileDirPath conf of
       Inl e \<Rightarrow> Ret (Some e, fs)
     | Inr dir \<Rightarrow>
         (case (if IsNotExist fs dir then
                  (case fs_deny fs OpMkdirAll dir of Some e \<Rightarrow> (Some e, fs) | None \<Rightarrow> (None, fs\<lparr>fs_dirs := insert dir (fs_dirs fs)\<rparr>))
                else (None, fs)) of
            (Some e, fs1) \<Rightarrow> Ret (Some e, fs1)
          | (None, fs1) \<Rightarrow>
              (let p = runningServiceFilePath dir serv in
               case fs_deny fs1 OpCreate p of
                 Some e \<Rightarrow> Ret (Some e, fs1)
               | None \<Rightarrow> Ret (None, fs1\<lparr>fs_files := insert p (fs_files fs1)\<rparr>))))"

text \<open>\<^verbatim>\<open>os.Remove\<close>: the path stays when the system refuses to remove it.\<close>

definition os_Remove :: "bytes \<Rightarrow> fsys \<Rightarrow> gerror option \<times> fsys" where
  "os_Remove p fs = (case fs_deny fs OpRemove p of
     Some e \<Rightarrow> (Some e, fs)
   | None \<Rightarrow>
       if p \<in> fs_files fs \<or> p \<in> fs_dirs fs then (None, fs\<lparr>fs_files := fs_files fs - {p}, fs_dirs := fs_dirs fs - {p}\<rparr>)
       else (Some (''remove '' @ p @ '': no such file or directory''), fs))"

definition removeRunningServiceFile :: "Config option \<Rightarrow> 'priv Service \<Rightarrow> fsys \<Rightarrow> (gerror option \<times> fsys) go" where
  "removeRunningServiceFile defaultConfig serv fs = go_bind (DefaultConfig defaultConfig) (\<lambda>conf.
     case RunningServiceFileDirPath conf of
       Inl e \<Rightarrow> Ret (Some e, fs)
     | Inr dir \<Rightarrow> Ret (os_Remove (runningServiceFilePath dir serv) fs))"

subsection \<open>Running\<close>

text \<open>A turn of the accept loop, for a connection that was accepted.\<close>

definition accept_client :: "Connection \<Rightarrow> 'priv world \<Rightarrow> 'priv world" where
  "accept_client conn w = w\<lparr>
     w_clients := w_clients w @ [NewClient conn],
     w_serv := (w_serv w)\<lparr>sv_clients := sv_clients (w_serv w) @ [length (w_clients w)],
                          connectionsAccepted := connectionsAccepted (w_serv w) + 1\<rparr>\<rparr>"

text \<open>The beginning of \<^verbatim>\<open>Run\<close>: an error of the liveness file is only printed.\<close>

definition run_start :: "Config option \<Rightarrow> fsys \<Rightarrow> 'priv Service \<Rightarrow> fsys go" where
  "run_start defaultConfig fs serv = go_bind (createRunningServiceFile defaultConfig serv fs) (\<lambda>(err, fs1). Ret fs1)"

fun close_all :: "nat \<Rightarrow> nat list \<Rightarrow> 'priv world \<Rightarrow> 'priv world go" where
  "close_all k [] w = Ret w"
| "close_all k (i # is) w = go_bind (close_client k i w) (close_all k is)"

text \<open>
  The end of \<^verbatim>\<open>Run\<close>, when the listener was closed: the clients are closed with the lock of the list held. The send on the unbuffered
  \<^verbatim>\<open>statsCloseChan\<close> blocks for ever when nobody receives from it; the package has no receiver. An error of removing the liveness file is
  printed; the second component of the result is what is printed.
\<close>

definition run_end :: "Config option \<Rightarrow> bool \<Rightarrow> nat \<Rightarrow> fsys \<Rightarrow> 'priv world \<Rightarrow> fsys \<times> (bytes list \<times> 'priv world) go" where
  "run_end defaultConfig statsReceiver k fs w =
     (if w_clientsM w then (fs, Deadlock)
      else (case close_all k (sv_clients (w_serv w)) (w\<lparr>w_clientsM := True\<rparr>) of
        Ret w0 \<Rightarrow>
          (let w1 = w0\<lparr>w_clientsM := False\<rparr> in
           if \<not> statsReceiver then (fs, Deadlock)
           else (case removeRunningServiceFile defaultConfig (w_serv w1) fs of
               Ret (err, fs1) \<Rightarrow>
                 (fs1, Ret ((case err of None \<Rightarrow> [] | Some e \<Rightarrow> [''could not remove liveness file:  '' @ e]) @ [''shutdown done''], w1))
             | Panic m \<Rightarrow> (fs, Panic m)
             | Deadlock \<Rightarrow> (fs, Deadlock)))
      | Panic m \<Rightarrow> (fs, Panic m)
      | Deadlock \<Rightarrow> (fs, Deadlock)))"

subsection \<open>Statistics\<close>

record serviceStats =
  ClientsAccepted :: uint64
  OpenConnections :: uint64

definition gatherStats :: "'priv Service \<Rightarrow> serviceStats" where
  "gatherStats serv = \<lparr>ClientsAccepted = connectionsAccepted serv, OpenConnections = of_nat (length (sv_clients serv))\<rparr>"

text \<open>The exported copy of the type and the function.\<close>

type_synonym ServiceStats = serviceStats

definition GatherStats :: "'priv Service \<Rightarrow> ServiceStats" where
  "GatherStats serv = \<lparr>ClientsAccepted = connectionsAccepted serv, OpenConnections = of_nat (length (sv_clients serv))\<rparr>"

subsection \<open>Steps of a running service\<close>

inductive serv_step :: "'priv world \<Rightarrow> 'priv world \<Rightarrow> bool" where
  accepted: "serv_step w (accept_client conn w)"
| sends: "i < length (w_clients w) \<Longrightarrow> serv_step w (set_client i (fst (snd (Client_Send msg (w_clients w ! i)))) w)"
| gets: "i < length (w_clients w) \<Longrightarrow> serv_step w (set_client i (split_message msg (w_clients w ! i)) w)"
| closes: "i < length (w_clients w) \<Longrightarrow> close_client k i w = Ret w' \<Longrightarrow> serv_step w w'"
| ends: "i < length (w_clients w) \<Longrightarrow> handle_end k i w = Ret w' \<Longrightarrow> serv_step w w'"

definition serv_start :: "'priv Service \<Rightarrow> 'priv world \<Rightarrow> bool" where
  "serv_start serv w \<longleftrightarrow> (\<exists>slots. w = \<lparr>w_serv = serv, w_clients = [], w_slots = slots, w_clientsM = False\<rparr>)"

definition serv_reach :: "'priv Service \<Rightarrow> 'priv world \<Rightarrow> bool" where
  "serv_reach serv w \<longleftrightarrow> (\<exists>w0. serv_start serv w0 \<and> serv_step\<^sup>*\<^sup>* w0 w)"

subsection \<open>The invariant\<close>

text \<open>A client of a service: its own service and proxy are not set, and it has a connection until it is closed.\<close>

definition client_ok :: "Client \<Rightarrow> bool" where
  "client_ok cl \<longleftrightarrow> \<not> cl_serv cl \<and> \<not> closedM cl \<and> spIdent cl = [] \<and> (cl_isClosed cl \<or> cl_conn cl \<noteq> None)"

definition clients_ok :: "'priv world \<Rightarrow> bool" where
  "clients_ok w \<longleftrightarrow> distinct (sv_clients (w_serv w)) \<and> (\<forall>i\<in>set (sv_clients (w_serv w)). i < length (w_clients w))
     \<and> connectionsAccepted (w_serv w) = of_nat (length (w_clients w))
     \<and> list_all client_ok (w_clients w)
     \<and> (\<forall>i<length (w_clients w). \<not> tracked i w \<longrightarrow> cl_isClosed (w_clients w ! i))"

text \<open>Between the steps no lock is held.\<close>

definition world_ok :: "'priv world \<Rightarrow> bool" where
  "world_ok w \<longleftrightarrow> clients_ok w \<and> \<not> w_clientsM w"

text \<open>No client is forgotten, a closed one is not reopened and one that is no longer tracked is not tracked again.\<close>

definition world_le :: "'priv world \<Rightarrow> 'priv world \<Rightarrow> bool" where
  "world_le w w' \<longleftrightarrow> length (w_clients w) \<le> length (w_clients w')
     \<and> (\<forall>i < length (w_clients w). (cl_isClosed (w_clients w ! i) \<longrightarrow> cl_isClosed (w_clients w' ! i)) \<and> (tracked i w' \<longrightarrow> tracked i w))"

lemma send_out_conn:
  assumes "send_out msg cl = (e, cl', msg')"
  shows "(cl_conn cl \<noteq> None \<longrightarrow> cl_conn cl' \<noteq> None) \<and> cl_serv cl' = cl_serv cl \<and> spIdent cl' = spIdent cl \<and> cl_isClosed cl' = cl_isClosed cl \<and> closedM cl' = closedM cl"
proof -
  have "conn' \<noteq> None" if "Connection_Send (Some conn) m = (e, conn', m')" for conn m e conn' m'
    using that by (auto simp: Connection_Send_def Let_def split: prod.splits option.splits if_splits)
  then show ?thesis using assms by (cases "cl_conn cl") (fastforce simp: send_out_def Let_def split: prod.splits)+
qed

lemma client_ok_Send: "client_ok cl \<Longrightarrow> client_ok (fst (snd (Client_Send msg cl)))
    \<and> (cl_isClosed cl \<longrightarrow> cl_isClosed (fst (snd (Client_Send msg cl))))"
proof -
  obtain ch err cl' msg' where s: "Client_Send msg cl = ((ch, err), cl', msg')" by (metis prod.exhaust)
  then have "client_ok cl \<Longrightarrow> client_ok cl' \<and> (cl_isClosed cl \<longrightarrow> cl_isClosed cl')"
    by (cases rule: Client_Send_cases) (auto simp: client_ok_def dest: send_out_conn)
  then show "client_ok cl \<Longrightarrow> ?thesis" by (simp add: s)
qed

lemma client_ok_split: "client_ok cl \<Longrightarrow> client_ok (split_message m cl) \<and> cl_isClosed (split_message m cl) = cl_isClosed cl"
  by (auto simp: client_ok_def split_message_def split: option.splits)

text \<open>A client without a service is closed without the lock of the list.\<close>

lemma close_client_no_service:
  assumes "\<not> cl_serv (w_clients w ! i)" and "i < length (w_clients w)"
  shows "close_client k i w = go_bind (close_begin (w_slots w) k (w_clients w ! i)) (\<lambda>(slots, conn, cl).
     Ret ((set_client i (if conn = None then cl else close_finish cl) w)\<lparr>w_slots := slots\<rparr>))"
proof -
  have "\<not> cl_serv cl" if "close_begin (w_slots w) k (w_clients w ! i) = Ret (slots, conn, cl)" for slots conn cl
    using that assms(1) by (auto simp: close_begin_Ret split: if_splits)
  then show ?thesis using assms(2)
    by (subst close_client.simps) (cases "close_begin (w_slots w) k (w_clients w ! i)", auto simp: set_client_def Let_def split: option.splits)
qed

lemma close_client_ok:
  assumes "clients_ok w" and "i < length (w_clients w)"
  obtains w' where "close_client k i w = Ret w'" "clients_ok w'" "w_serv w' = w_serv w" "length (w_clients w') = length (w_clients w)"
    "cl_isClosed (w_clients w' ! i)" "\<forall>j<length (w_clients w). cl_isClosed (w_clients w ! j) \<longrightarrow> cl_isClosed (w_clients w' ! j)"
    "w_clientsM w' = w_clientsM w"
proof -
  have ok: "client_ok (w_clients w ! i)" using assms by (auto simp: clients_ok_def list_all_length)
  then obtain conn cl where b: "close_begin (w_slots w) k (w_clients w ! i) = Ret (w_slots w, conn, cl)"
    "client_ok (if conn = None then cl else close_finish cl)" "cl_isClosed (if conn = None then cl else close_finish cl)"
    by (cases "cl_isClosed (w_clients w ! i)")
       (auto simp: client_ok_def close_begin_Ret forget_slot_def close_finish_def)
  let ?w = "set_client i (if conn = None then cl else close_finish cl) w"
  have "close_client k i w = Ret ?w"
    using close_client_no_service [of w i k] ok assms(2) b(1) by (simp add: client_ok_def set_client_def)
  moreover have "clients_ok ?w"
    using assms b(2,3) by (auto simp: clients_ok_def set_client_def tracked_def list_all_length nth_list_update)
  ultimately show thesis using assms(2) b(3) by (intro that [of ?w]) (auto simp: set_client_def nth_list_update)
qed

lemma RemoveClient_ok:
  assumes "world_ok w" and "tracked i w"
  obtains w' where "RemoveClient k i w = Ret (None, w')" "world_ok w'" "sv_clients (w_serv w') = remove1 i (sv_clients (w_serv w))"
    "cl_isClosed (w_clients w' ! i)" "length (w_clients w') = length (w_clients w)"
    "\<forall>j<length (w_clients w). cl_isClosed (w_clients w ! j) \<longrightarrow> cl_isClosed (w_clients w' ! j)"
proof -
  let ?l = "w\<lparr>w_clientsM := True\<rparr>"
  have "clients_ok ?l" "i < length (w_clients ?l)" using assms by (auto simp: world_ok_def clients_ok_def tracked_def)
  then obtain w2 where w2: "close_client k i ?l = Ret w2" "clients_ok w2" "w_serv w2 = w_serv ?l" "length (w_clients w2) = length (w_clients ?l)"
    "cl_isClosed (w_clients w2 ! i)" "\<forall>j<length (w_clients ?l). cl_isClosed (w_clients ?l ! j) \<longrightarrow> cl_isClosed (w_clients w2 ! j)"
    by (rule close_client_ok)
  let ?w = "w2\<lparr>w_serv := (w_serv w2)\<lparr>sv_clients := remove1 i (sv_clients (w_serv w2))\<rparr>, w_clientsM := False\<rparr>"
  have "RemoveClient k i w = Ret (None, ?w)" using assms w2(1) by (simp add: RemoveClient.simps world_ok_def)
  moreover have "world_ok ?w" using w2(2,5) by (auto simp: world_ok_def clients_ok_def tracked_def distinct_remove1)
  ultimately show thesis using w2 by (intro that [of ?w]) auto
qed

lemma handle_end_ok:
  assumes "world_ok w" and "i < length (w_clients w)"
  obtains w' where "handle_end k i w = Ret w'" "world_ok w'" "sv_clients (w_serv w') = remove1 i (sv_clients (w_serv w))"
    "cl_isClosed (w_clients w' ! i)" "length (w_clients w') = length (w_clients w)"
    "\<forall>j<length (w_clients w). cl_isClosed (w_clients w ! j) \<longrightarrow> cl_isClosed (w_clients w' ! j)"
proof -
  have "clients_ok w" using assms(1) by (simp add: world_ok_def)
  from this assms(2) obtain w1 where w1: "close_client k i w = Ret w1" "clients_ok w1" "w_serv w1 = w_serv w"
    "length (w_clients w1) = length (w_clients w)" "cl_isClosed (w_clients w1 ! i)"
    "\<forall>j<length (w_clients w). cl_isClosed (w_clients w ! j) \<longrightarrow> cl_isClosed (w_clients w1 ! j)"
    "w_clientsM w1 = w_clientsM w" by (rule close_client_ok)
  then have ok: "world_ok w1" using assms(1) by (simp add: world_ok_def)
  show thesis
  proof (cases "tracked i w1")
    case False
    then have "handle_end k i w = Ret w1" using w1(1) ok by (simp add: handle_end_def RemoveClient.simps world_ok_def)
    with w1 ok False show thesis by (intro that [of w1]) (auto simp: tracked_def remove1_idem)
  next
    case True
    with ok obtain w2 where "RemoveClient k i w1 = Ret (None, w2)" "world_ok w2" "sv_clients (w_serv w2) = remove1 i (sv_clients (w_serv w1))"
      "cl_isClosed (w_clients w2 ! i)" "length (w_clients w2) = length (w_clients w1)"
      "\<forall>j<length (w_clients w1). cl_isClosed (w_clients w1 ! j) \<longrightarrow> cl_isClosed (w_clients w2 ! j)" by (rule RemoveClient_ok)
    with w1 show thesis by (intro that [of w2]) (auto simp: handle_end_def)
  qed
qed

lemma world_ok_step: "serv_step w w' \<Longrightarrow> world_ok w \<Longrightarrow> world_ok w'"
proof (induction rule: serv_step.induct)
  case (accepted w conn)
  then show ?case
    by (auto simp: world_ok_def clients_ok_def accept_client_def tracked_def client_ok_def NewClient_def nth_append less_Suc_eq)
next
  case (sends i w msg)
  then show ?case using client_ok_Send [of "w_clients w ! i" msg]
    by (auto simp: world_ok_def clients_ok_def set_client_def tracked_def list_all_length nth_list_update)
next
  case (gets i w msg)
  then show ?case using client_ok_split [of "w_clients w ! i" msg]
    by (auto simp: world_ok_def clients_ok_def set_client_def tracked_def list_all_length nth_list_update)
next
  case (closes i w k w')
  from closes(3) have "clients_ok w" by (simp add: world_ok_def)
  from this closes(1) obtain w1 where "close_client k i w = Ret w1" "clients_ok w1" "w_clientsM w1 = w_clientsM w" by (rule close_client_ok)
  with closes(2,3) show ?case by (simp add: world_ok_def)
next
  case (ends i w k w')
  from ends(3,1) obtain w1 where "handle_end k i w = Ret w1" "world_ok w1" by (rule handle_end_ok)
  with ends(2) show ?case by simp
qed

lemma world_le_step:
  assumes "serv_step w w'" and "world_ok w"
  shows "world_le w w'"
  using assms
proof (induction rule: serv_step.induct)
  case (accepted w conn)
  then show ?case by (auto simp: world_le_def accept_client_def tracked_def nth_append)
next
  case (sends i w msg)
  then show ?case using client_ok_Send [of "w_clients w ! i" msg]
    by (auto simp: world_le_def world_ok_def clients_ok_def set_client_def tracked_def list_all_length nth_list_update)
next
  case (gets i w msg)
  then show ?case using client_ok_split [of "w_clients w ! i" msg]
    by (auto simp: world_le_def world_ok_def clients_ok_def set_client_def tracked_def list_all_length nth_list_update)
next
  case (closes i w k w')
  from closes(3) have "clients_ok w" by (simp add: world_ok_def)
  from this closes(1) obtain w1 where "close_client k i w = Ret w1" "w_serv w1 = w_serv w" "length (w_clients w1) = length (w_clients w)"
    "\<forall>j<length (w_clients w). cl_isClosed (w_clients w ! j) \<longrightarrow> cl_isClosed (w_clients w1 ! j)" by (rule close_client_ok)
  with closes(2) show ?case by (simp add: world_le_def tracked_def)
next
  case (ends i w k w')
  from ends(3,1) obtain w1 where "handle_end k i w = Ret w1" "sv_clients (w_serv w1) = remove1 i (sv_clients (w_serv w))"
    "length (w_clients w1) = length (w_clients w)"
    "\<forall>j<length (w_clients w). cl_isClosed (w_clients w ! j) \<longrightarrow> cl_isClosed (w_clients w1 ! j)" by (rule handle_end_ok)
  with ends(2) show ?case by (auto simp: world_le_def tracked_def dest: set_remove1_subset [THEN subsetD])
qed

interpretation running: monotone_system
  "\<lambda>w. \<exists>serv. serv_start serv w \<and> sv_clients serv = [] \<and> connectionsAccepted serv = 0" serv_step world_ok world_le
proof unfold_locales
  show "\<exists>serv. serv_start serv w \<and> sv_clients serv = [] \<and> connectionsAccepted serv = 0 \<Longrightarrow> world_ok w" for w :: "'priv world"
    by (auto simp: serv_start_def world_ok_def clients_ok_def)
  show "world_le w w'' " if "world_le w w'" "world_le w' w''" for w w' w'' :: "'priv world" using that by (auto simp: world_le_def)
qed (auto intro: world_ok_step world_le_step simp: world_le_def [of s s for s])

lemma world_ok_reach: "serv_reach serv w \<Longrightarrow> sv_clients serv = [] \<Longrightarrow> connectionsAccepted serv = 0 \<Longrightarrow> world_ok w"
  unfolding serv_reach_def using running.reach_inv by blast

lemma serv_reach_start: "serv_reach serv \<lparr>w_serv = serv, w_clients = [], w_slots = slots, w_clientsM = False\<rparr>"
  unfolding serv_reach_def serv_start_def by blast

lemma serv_reach_step: "serv_reach serv w \<Longrightarrow> serv_step w w' \<Longrightarrow> serv_reach serv w'"
  unfolding serv_reach_def by (meson rtranclp.rtrancl_into_rtrancl)

lemma close_all_ok:
  assumes "clients_ok w" and "\<forall>i\<in>set is. i < length (w_clients w)"
  shows "\<exists>w'. close_all k is w = Ret w' \<and> clients_ok w' \<and> w_serv w' = w_serv w \<and> length (w_clients w') = length (w_clients w)
    \<and> (\<forall>i<length (w_clients w). i \<in> set is \<or> cl_isClosed (w_clients w ! i) \<longrightarrow> cl_isClosed (w_clients w' ! i))"
  using assms
proof (induction "is" arbitrary: w)
  case (Cons i "is")
  have "i < length (w_clients w)" using Cons.prems(2) by simp
  with Cons.prems(1) obtain w1 where w1: "close_client k i w = Ret w1" "clients_ok w1" "w_serv w1 = w_serv w"
    "length (w_clients w1) = length (w_clients w)" "cl_isClosed (w_clients w1 ! i)"
    "\<forall>j<length (w_clients w). cl_isClosed (w_clients w ! j) \<longrightarrow> cl_isClosed (w_clients w1 ! j)" by (rule close_client_ok)
  then obtain w' where "close_all k is w1 = Ret w'" "clients_ok w'" "w_serv w' = w_serv w1" "length (w_clients w') = length (w_clients w1)"
    "\<forall>j<length (w_clients w1). j \<in> set is \<or> cl_isClosed (w_clients w1 ! j) \<longrightarrow> cl_isClosed (w_clients w' ! j)"
    using Cons.IH [of w1] Cons.prems by auto
  with w1 show ?case by (intro exI [of _ w']) auto
qed simp

subsection \<open>The locks of closing\<close>

text \<open>\<^verbatim>\<open>RemoveClient\<close> that is called while \<open>closedM\<close> of the client is held returns only for a client that is not tracked, and changes nothing.\<close>

lemma close_client_locked: "closedM (w_clients w ! i) \<Longrightarrow> close_client k i w \<noteq> Ret w'"
  by (auto simp: close_client.simps close_begin_def forget_slot_def go_bind_Ret_conv split: option.splits if_splits)

lemma RemoveClient_locked:
  assumes "closedM (w_clients w ! i)" and "RemoveClient k i w = Ret (e, w')"
  shows "\<not> tracked i w \<and> w' = w"
  using assms close_client_locked [of "w\<lparr>w_clientsM := True\<rparr>" i k]
  by (auto simp: RemoveClient.simps [of k i w] go_bind_Ret_conv split: if_splits)

text \<open>So closing a client of a service is the \<^verbatim>\<open>Close\<close> of clients, with the service's own \<^verbatim>\<open>RemoveClient\<close>.\<close>

lemma close_client_is_Close:
  assumes "i < length (w_clients w)"
  shows "\<exists>removeClient. close_client k i w = go_bind (Client_Close removeClient (w_slots w) k (w_clients w ! i))
    (\<lambda>(slots, conn, cl). Ret ((set_client i cl w)\<lparr>w_slots := slots\<rparr>))"
proof (cases "close_begin (w_slots w) k (w_clients w ! i)")
  case (Ret x)
  obtain slots conn cl where x: "x = (slots, conn, cl)" by (metis prod.exhaust)
  let ?w = "(set_client i cl w)\<lparr>w_slots := slots\<rparr>"
  let ?remove = "\<lambda>_. go_bind (RemoveClient k i ?w) (\<lambda>_. Ret ())"
  have "w' = ?w" if "RemoveClient k i ?w = Ret (e, w')" "conn = Some y" for e w' y
    using RemoveClient_locked [OF _ that(1)] Ret x that(2) assms by (auto simp: close_begin_Ret set_client_def split: if_splits)
  then show ?thesis using Ret x assms
    by (intro exI [of _ ?remove])
       (cases "RemoveClient k i ?w", auto simp: close_client.simps [of k i w] Client_Close_def set_client_def Let_def split: option.splits)
qed (auto simp: close_client.simps [of k i w] Client_Close_def)

text \<open>With a service that tracks the client, each of the two waits for a lock that its caller holds.\<close>

lemma close_deadlocks:
  assumes "i < length (w_clients w)" and "cl_conn (w_clients w ! i) = Some conn" and "\<not> cl_isClosed (w_clients w ! i)" and "\<not> closedM (w_clients w ! i)"
    and "forget_slot (w_slots w) (w_clients w ! i) = Ret slots" and "cl_serv (w_clients w ! i)" and "tracked i w"
  shows "close_client k i w = Deadlock"
proof -
  define c where "c = (w_clients w ! i)\<lparr>closedM := True, cl_conn := None\<rparr>"
  define w1 where "w1 = (set_client i c w)\<lparr>w_slots := slots, w_clientsM := True\<rparr>"
  have b: "close_begin (w_slots w) k (w_clients w ! i) = Ret (slots, Some (if \<not> isClosed conn then Connection_Close k conn else conn), c)"
    using assms by (simp add: close_begin_Ret c_def)
  have "forget_slot slots c \<noteq> Deadlock" "\<And>m. forget_slot slots c \<noteq> Panic m"
    using assms(5) by (auto simp: forget_slot_def c_def split: if_splits option.splits)
  then obtain slots' where "forget_slot slots c = Ret slots'" by (cases "forget_slot slots c") auto
  then have "close_begin (w_slots w1) k (w_clients w1 ! i) = Deadlock"
    using assms(1) by (simp add: close_begin_def w1_def set_client_def, simp add: c_def)
  then have "close_client k i w1 = Deadlock" by (simp add: close_client.simps)
  moreover have "tracked i ((set_client i c w)\<lparr>w_slots := slots\<rparr>)" "cl_serv c" using assms(6,7) by (simp_all add: tracked_def set_client_def c_def)
  ultimately have "RemoveClient k i ((set_client i c w)\<lparr>w_slots := slots\<rparr>) = Deadlock"
    by (simp add: RemoveClient.simps w1_def)
  with b \<open>cl_serv c\<close> show ?thesis by (simp add: close_client.simps)
qed

lemma RemoveClient_deadlocks:
  assumes "close_client k i (w\<lparr>w_clientsM := True\<rparr>) = Deadlock" and "tracked i w"
  shows "RemoveClient k i w = Deadlock"
  using assms by (simp add: RemoveClient.simps)

lemma forget_slot_again:
  assumes "forget_slot slots cl = Ret slots'" and "spIdent cl' = spIdent cl"
  shows "forget_slot slots' cl' = Ret slots'"
  using assms by (auto simp: forget_slot_def split: if_splits option.splits)

lemma close_returns:
  assumes "i < length (w_clients w)" and "cl_conn (w_clients w ! i) = Some conn" and "\<not> cl_isClosed (w_clients w ! i)" and "\<not> closedM (w_clients w ! i)"
    and "forget_slot (w_slots w) (w_clients w ! i) = Ret slots" and "cl_serv (w_clients w ! i) \<Longrightarrow> \<not> tracked i w \<and> \<not> w_clientsM w"
  shows "close_client k i w = Ret ((set_client i ((w_clients w ! i)\<lparr>cl_conn := None, cl_isClosed := True\<rparr>) w)\<lparr>w_slots := slots\<rparr>)"
proof -
  define c where "c = (w_clients w ! i)\<lparr>closedM := True, cl_conn := None\<rparr>"
  have b: "close_begin (w_slots w) k (w_clients w ! i) = Ret (slots, Some (if \<not> isClosed conn then Connection_Close k conn else conn), c)"
    using assms by (simp add: close_begin_Ret c_def)
  have f: "close_finish c = (w_clients w ! i)\<lparr>cl_conn := None, cl_isClosed := True\<rparr>"
    using assms(4) by (cases "w_clients w ! i") (simp add: c_def close_finish_def)
  have "RemoveClient k i ((set_client i c w)\<lparr>w_slots := slots\<rparr>) = Ret (Some ''unknown client'', (set_client i c w)\<lparr>w_slots := slots\<rparr>)" if "cl_serv c"
    using assms(6) that by (simp add: RemoveClient.simps tracked_def set_client_def c_def)
  with b f assms(1) show ?thesis
    by (cases "cl_serv c") (simp_all add: close_client.simps [of k i w] set_client_def)
qed

subsection \<open>Registered actions\<close>

definition register_all :: "(bytes \<times> callback \<times> ActionOptions option) list \<Rightarrow> 'priv Service \<Rightarrow> 'priv Service" where
  "register_all regs serv = fold (\<lambda>(nm, cb, opts) s. snd (Register nm cb opts s)) regs serv"

definition registered :: "callback \<times> ActionOptions option \<Rightarrow> ServiceOptionsFunc" where
  "registered co = \<lparr>sf_callback = fst co, sf_options = (case snd co of None \<Rightarrow> DefaultActionOptions | Some o' \<Rightarrow> o')\<rparr>"

lemma Register_lookup:
  assumes "\<not> isRunning serv" and "Register nm cb opts serv = (e, serv')"
  shows "\<not> isRunning serv' \<and> map_of (sv_actions serv') x =
    (if x = nm then Some \<lparr>sa_callback = registered (cb, opts), sa_crudTags = [], sa_version = 1\<rparr> else map_of (sv_actions serv) x)"
  using assms by (auto simp: Register_def registered_def Let_def update_conv')

lemma register_all_lookup:
  "\<not> isRunning serv \<Longrightarrow> map_of (sv_actions (register_all regs serv)) x =
     (case find (\<lambda>r. fst r = x) (rev regs) of
        Some (_, co) \<Rightarrow> Some \<lparr>sa_callback = registered co, sa_crudTags = [], sa_version = 1\<rparr>
      | None \<Rightarrow> map_of (sv_actions serv) x)"
proof (induction regs rule: rev_induct)
  case (snoc r regs)
  obtain nm cb opts where r: "r = (nm, cb, opts)" by (metis prod.exhaust)
  have run: "\<not> isRunning (register_all rs serv)" for rs
    using snoc.prems by (induction rs rule: rev_induct) (auto simp: register_all_def Register_def Let_def)
  obtain e serv' where reg: "Register nm cb opts (register_all regs serv) = (e, serv')" by (metis prod.exhaust)
  then have "register_all (regs @ [r]) serv = serv'" by (simp add: register_all_def r)
  with snoc Register_lookup [OF run reg, of x] show ?case by (auto simp: r)
qed (simp add: register_all_def)

subsection \<open>Properties\<close>

text \<open>
  C13. Invariant of a running service, however its steps interleave: no client is tracked twice, a client
  that is not tracked any more is closed, the counter of accepted connections counts all clients ever
  accepted and never falls below the number of open ones, and the handler of any client can always end: it
  returns, the client is closed and no longer tracked, and the others stay tracked; whatever the service does
  afterwards, that client stays closed and is not tracked again.
\<close>

theorem service_clients_invariant:
  assumes "serv_reach serv w" and "sv_clients serv = []" and "connectionsAccepted serv = 0" and "i < length (w_clients w)"
  shows "distinct (sv_clients (w_serv w)) \<and> (tracked i w \<or> cl_isClosed (w_clients w ! i))
    \<and> ClientsAccepted (gatherStats (w_serv w)) = of_nat (length (w_clients w))
    \<and> length (sv_clients (w_serv w)) \<le> length (w_clients w)
    \<and> (\<exists>w'. handle_end k i w = Ret w' \<and> cl_isClosed (w_clients w' ! i) \<and> sv_clients (w_serv w') = filter (\<lambda>j. i \<noteq> j) (sv_clients (w_serv w))
         \<and> (\<forall>w''. serv_step\<^sup>*\<^sup>* w' w'' \<longrightarrow> cl_isClosed (w_clients w'' ! i) \<and> \<not> tracked i w''))"
proof -
  have ok: "world_ok w" using assms(1-3) by (rule world_ok_reach)
  then have d: "distinct (sv_clients (w_serv w))" and sub: "set (sv_clients (w_serv w)) \<subseteq> {..<length (w_clients w)}"
    by (auto simp: world_ok_def clients_ok_def)
  have "length (sv_clients (w_serv w)) \<le> length (w_clients w)"
    using card_mono [OF _ sub] distinct_card [OF d] by simp
  moreover obtain w' where w': "handle_end k i w = Ret w'" "cl_isClosed (w_clients w' ! i)" "world_ok w'" "length (w_clients w') = length (w_clients w)"
    "sv_clients (w_serv w') = remove1 i (sv_clients (w_serv w))" using ok assms(4) by (rule handle_end_ok)
  moreover have f: "sv_clients (w_serv w') = filter (\<lambda>j. i \<noteq> j) (sv_clients (w_serv w))"
    using w'(5) d by (simp add: distinct_remove1_removeAll removeAll_filter_not_eq)
  moreover have "cl_isClosed (w_clients w'' ! i) \<and> \<not> tracked i w''" if "serv_step\<^sup>*\<^sup>* w' w''" for w''
    using running.steps_le [OF that w'(3)] w'(2,4) f assms(4) by (auto simp: world_le_def tracked_def)
  ultimately show ?thesis using ok assms(4) d unfolding world_ok_def clients_ok_def gatherStats_def by auto
qed

theorem service_clients_invariant_witness:
  "\<exists>w'. handle_end 0 0 (accept_client demo_conn \<lparr>w_serv = demo_service, w_clients = [], w_slots = None, w_clientsM = False\<rparr>) = Ret w'
     \<and> cl_isClosed (w_clients w' ! 0) \<and> sv_clients (w_serv w') = []"
proof -
  let ?w = "\<lparr>w_serv = demo_service, w_clients = [], w_slots = None, w_clientsM = False\<rparr>"
  have "serv_reach demo_service (accept_client demo_conn ?w)"
    using serv_reach_step [OF serv_reach_start serv_step.accepted] .
  from service_clients_invariant [OF this, of 0 0] show ?thesis
    by (auto simp: demo_service_def zeroService_def accept_client_def)
qed

text \<open>
  C21. Shutting down: when the listener is closed, \<^verbatim>\<open>Run\<close> closes every client that was ever accepted. If nobody receives from the
  statistics channel it then blocks for ever and the liveness file stays. If somebody does, it removes the liveness file and returns; when
  the system refuses to remove the file, or there is none, no file changes, the error is printed, and it returns all the same.
\<close>

theorem service_shutdown:
  assumes "serv_reach serv w" and "sv_clients serv = []" and "connectionsAccepted serv = 0"
    and "RunningServiceFileDirPath conf = Inr dir" and "p = runningServiceFilePath dir (w_serv w)"
  shows "\<exists>w'. list_all cl_isClosed (w_clients w') \<and> length (w_clients w') = length (w_clients w) \<and> w_serv w' = w_serv w \<and> \<not> w_clientsM w'
      \<and> run_end (Some conf) False k fs w = (fs, Deadlock)
      \<and> (case fs_deny fs OpRemove p of
           Some e \<Rightarrow> run_end (Some conf) True k fs w = (fs, Ret ([''could not remove liveness file:  '' @ e, ''shutdown done''], w'))
         | None \<Rightarrow>
             if p \<in> fs_files fs then
               run_end (Some conf) True k fs w
               = (fs\<lparr>fs_files := fs_files fs - {p}, fs_dirs := fs_dirs fs - {p}\<rparr>, Ret ([''shutdown done''], w'))
             else p \<notin> fs_dirs fs \<longrightarrow> run_end (Some conf) True k fs w
               = (fs, Ret ([''could not remove liveness file:  remove '' @ p @ '': no such file or directory'', ''shutdown done''], w')))"
proof -
  let ?l = "w\<lparr>w_clientsM := True\<rparr>"
  have ok: "world_ok w" using assms(1-3) by (rule world_ok_reach)
  then have l: "clients_ok ?l" "\<forall>i\<in>set (sv_clients (w_serv w)). i < length (w_clients ?l)" by (auto simp: world_ok_def clients_ok_def tracked_def)
  obtain w' where w': "close_all k (sv_clients (w_serv w)) ?l = Ret w'" "w_serv w' = w_serv w" "length (w_clients w') = length (w_clients w)"
    "\<forall>i<length (w_clients w). i \<in> set (sv_clients (w_serv w)) \<or> cl_isClosed (w_clients w ! i) \<longrightarrow> cl_isClosed (w_clients w' ! i)"
    using close_all_ok [OF l, of k] by auto
  have "list_all cl_isClosed (w_clients w')" using ok w'(3,4) by (auto simp: world_ok_def clients_ok_def list_all_length tracked_def)
  moreover have "\<not> w_clientsM w" using ok by (simp add: world_ok_def)
  ultimately show ?thesis using w' assms(4,5)
    by (intro exI [of _ "w'\<lparr>w_clientsM := False\<rparr>"])
       (auto simp: run_end_def removeRunningServiceFile_def DefaultConfig_def os_Remove_def Let_def split: option.splits)
qed

definition demo_run :: Config where
  "demo_run = Set ''service.running_service_file_dir_path'' ''/run'' NewConfig"

text \<open>A liveness file that can be removed, and one that the system protects.\<close>

theorem service_shutdown_witness:
  "let w = accept_client demo_conn \<lparr>w_serv = demo_service, w_clients = [], w_slots = None, w_clientsM = False\<rparr>;
       fs = \<lparr>fs_dirs = {}, fs_files = {''/run/log:x''}, fs_deny = (\<lambda>_ _. None)\<rparr>;
       fs' = fs\<lparr>fs_deny := (\<lambda>_ _. Some ''permission denied'')\<rparr>
   in run_end (Some demo_run) False 0 fs w = (fs, Deadlock)
    \<and> (\<exists>w'. run_end (Some demo_run) True 0 fs w = (fs\<lparr>fs_files := {}\<rparr>, Ret ([''shutdown done''], w')))
    \<and> (\<exists>w'. run_end (Some demo_run) True 0 fs' w
          = (fs', Ret ([''could not remove liveness file:  permission denied'', ''shutdown done''], w')))"
proof -
  let ?w = "accept_client demo_conn \<lparr>w_serv = demo_service, w_clients = [], w_slots = None, w_clientsM = False\<rparr>"
  let ?fs = "\<lparr>fs_dirs = {}, fs_files = {''/run/log:x''}, fs_deny = (\<lambda>_ _. None)\<rparr>"
  have r: "serv_reach demo_service ?w" using serv_reach_step [OF serv_reach_start serv_step.accepted] .
  have d: "RunningServiceFileDirPath demo_run = Inr ''/run''"
    by (simp add: RunningServiceFileDirPath_def cfg_value_def Set_def demo_run_def)
  have p: "''/run/log:x'' = runningServiceFilePath ''/run'' (w_serv ?w)"
    by (simp add: runningServiceFilePath_def accept_client_def demo_service_def)
  have s: "sv_clients demo_service = []" "connectionsAccepted demo_service = 0" by (simp_all add: demo_service_def zeroService_def)
  show ?thesis unfolding Let_def
    using service_shutdown [OF r s d p, of 0 ?fs] service_shutdown [OF r s d p, of 0 "?fs\<lparr>fs_deny := (\<lambda>_ _. Some ''permission denied'')\<rparr>"]
    by auto
qed

text \<open>
  C31. Closing a client and removing it, through the locks that the two operations take: of a client that is open and has a connection,
  whose proxy (if it has one) can be looked up, and with both locks free at the beginning. When a service is set for the client and tracks
  it, neither returns: \<^verbatim>\<open>Close\<close> waits for \<open>closedM\<close>, and \<^verbatim>\<open>RemoveClient\<close> for \<open>clientsM\<close>, which their own callers hold. Otherwise both return,
  with the locks free: the client is closed and has no connection, its proxy has forgotten it, the service and the other clients are as
  before (but a tracked client is removed from the list), sending on it is refused, and closing it again changes nothing.
\<close>

theorem close_outcome:
  assumes "i < length (w_clients w)" and "cl = w_clients w ! i" and "cl_conn cl = Some conn" and "\<not> cl_isClosed cl" and "\<not> closedM cl"
    and "\<not> w_clientsM w" and "forget_slot (w_slots w) cl = Ret slots"
  shows "if cl_serv cl \<and> tracked i w then close_client k i w = Deadlock \<and> RemoveClient k i w = Deadlock
    else \<exists>w'. close_client k i w = Ret w' \<and> w_clients w' ! i = cl\<lparr>cl_conn := None, cl_isClosed := True\<rparr> \<and> w_slots w' = slots
      \<and> (\<forall>j. j \<noteq> i \<longrightarrow> w_clients w' ! j = w_clients w ! j) \<and> w_serv w' = w_serv w \<and> \<not> w_clientsM w'
      \<and> fst (send_out msg (w_clients w' ! i)) = Some ''cannot send on nil connection'' \<and> close_client k' i w' = Ret w'
      \<and> RemoveClient k i w = (if tracked i w then Ret (None, w'\<lparr>w_serv := (w_serv w)\<lparr>sv_clients := remove1 i (sv_clients (w_serv w))\<rparr>\<rparr>)
          else Ret (Some ''unknown client'', w))"
proof (cases "cl_serv cl \<and> tracked i w")
  case True
  have "close_client k i w = Deadlock" using assms True by (intro close_deadlocks [where conn = conn and slots = slots]) auto
  moreover have "close_client k i (w\<lparr>w_clientsM := True\<rparr>) = Deadlock"
    using assms True by (intro close_deadlocks [where conn = conn and slots = slots]) (auto simp: tracked_def)
  then have "RemoveClient k i w = Deadlock" using True by (simp add: RemoveClient_deadlocks)
  ultimately show ?thesis using True by simp
next
  case False
  let ?c = "cl\<lparr>cl_conn := None, cl_isClosed := True\<rparr>"
  let ?w = "(set_client i ?c w)\<lparr>w_slots := slots\<rparr>"
  have r: "close_client k i w = Ret ?w" using assms False close_returns [of i w conn slots k] by simp
  have "close_begin slots k' ?c = Ret (slots, None, ?c)"
    using assms(5) forget_slot_again [OF assms(7), of ?c] by (simp add: close_begin_Ret)
  then have again: "close_client k' i ?w = Ret ?w" using assms(1) by (simp add: close_client.simps [of k' i] set_client_def)
  have "RemoveClient k i w = Ret (None, ?w\<lparr>w_serv := (w_serv w)\<lparr>sv_clients := remove1 i (sv_clients (w_serv w))\<rparr>\<rparr>)" if "tracked i w"
    using that False assms close_returns [of i "w\<lparr>w_clientsM := True\<rparr>" conn slots k]
    by (simp add: RemoveClient.simps set_client_def)
  moreover have "RemoveClient k i w = Ret (Some ''unknown client'', w)" if "\<not> tracked i w" using that assms(6) by (simp add: RemoveClient.simps)
  moreover have "fst (send_out msg ?c) = Some ''cannot send on nil connection''" by (simp add: send_out_def Connection_Send_def Let_def)
  ultimately show ?thesis using False r again assms(1,6) by (simp add: set_client_def)
qed

definition deadlock_world :: "Client \<Rightarrow> unit world" where
  "deadlock_world cl = \<lparr>w_serv = demo_service\<lparr>sv_clients := [0]\<rparr>, w_clients = [cl], w_slots = None, w_clientsM = False\<rparr>"

theorem close_outcome_witness:
  "close_client 0 0 (deadlock_world (SetService (NewClient demo_conn))) = Deadlock
   \<and> RemoveClient 0 0 (deadlock_world (SetService (NewClient demo_conn))) = Deadlock
   \<and> (\<exists>w'. close_client 0 0 (deadlock_world (NewClient demo_conn)) = Ret w' \<and> cl_isClosed (w_clients w' ! 0) \<and> close_client 0 0 w' = Ret w')"
proof -
  have f: "forget_slot None (NewClient demo_conn) = Ret None" "forget_slot None (SetService (NewClient demo_conn)) = Ret None"
    by (simp_all add: forget_slot_def NewClient_def SetService_def)
  show ?thesis
    using close_outcome [of 0 "deadlock_world (SetService (NewClient demo_conn))" "SetService (NewClient demo_conn)" demo_conn None 0 demo_msg 0]
      close_outcome [of 0 "deadlock_world (NewClient demo_conn)" "NewClient demo_conn" demo_conn None 0 demo_msg 0] f
    by (auto simp: deadlock_world_def tracked_def SetService_def NewClient_def)
qed

text \<open>
  C20. Dispatch: a message is handled by the action registered last under its name, with the options given
  there (none means no ticket is checked), and by no other; a message with a name that was not registered
  is answered with the text \<^verbatim>\<open>{"error": "no such action"}\<close> and the loop goes on unless sending fails.
\<close>

theorem dispatch_by_name:
  assumes "\<not> isRunning serv" and "sv_actions serv = []" and "sv_actions (w_serv w) = sv_actions (register_all regs serv)"
  shows "case find (\<lambda>r. fst r = mAction msg) (rev regs) of
      Some (_, cb, opts) \<Rightarrow> handle_message env k i msg w ks =
        (case Call env (registered (cb, opts)) msg (w_clients w ! i) ks of (ks1, r) \<Rightarrow> (ks1, go_bind r (\<lambda>cl. Ret (True, set_client i cl w))))
        \<and> (opts = None \<longrightarrow> handle_message env k i msg w ks = (ks, go_bind (cb msg (w_clients w ! i)) (\<lambda>cl. Ret (True, set_client i cl w))))
    | None \<Rightarrow> \<forall>ch cl msg'. Client_Send (no_such_action msg) (w_clients w ! i) = ((ch, None), cl, msg') \<longrightarrow>
        handle_message env k i msg w ks = (ks, Ret (True, set_client i cl w)) \<and> Message_Bytes msg' = ''{\"error\": \"no such action\"}''
          \<and> mMessageType msg' = MessageTypeReply"
proof (cases "find (\<lambda>r. fst r = mAction msg) (rev regs)")
  case None
  have bytes: "Message_Bytes msg' = Message_Bytes m \<and> mMessageType msg' = mMessageType m"
    if "Client_Send m cl0 = ((ch, None), cl, msg')" for m cl0 ch cl msg'
  proof -
    have "Message_Bytes m2 = Message_Bytes m1 \<and> mMessageType m2 = mMessageType m1"
      if "Connection_Send cp m1 = (e, cp', m2)" for cp m1 e cp' m2
      using that by (auto simp: Connection_Send_def toPackets_def Message_Bytes_eq Let_def comp_def split: option.splits if_splits prod.splits)
    moreover have "\<exists>cl1. send_out m cl0 = (None, cl1, msg')" using that by (cases rule: Client_Send_cases) auto
    ultimately show ?thesis by (fastforce simp: send_out_def Message_Bytes_eq Let_def split: prod.splits)
  qed
  have "Message_Bytes (no_such_action msg) = ''{\"error\": \"no such action\"}''" "mMessageType (no_such_action msg) = MessageTypeReply"
    by (simp_all add: no_such_action_def Message_Write_def Message_Bytes_eq NewMessage_def message_setters data_packet_def)
  with None assms register_all_lookup [OF assms(1), of regs "mAction msg"] bytes [of "no_such_action msg"] show ?thesis
    by (auto simp: handle_message_def)
next
  case (Some r)
  obtain nm cb opts where r: "r = (nm, cb, opts)" by (metis prod.exhaust)
  with Some assms register_all_lookup [OF assms(1), of regs "mAction msg"] show ?thesis
    by (auto simp: handle_message_def registered_def Call_def DefaultActionOptions_def split: prod.splits)
qed

definition demo_regs :: "(bytes \<times> callback \<times> ActionOptions option) list" where
  "demo_regs = [(''A.b'', (\<lambda>m c. Panic ''old''), None), (''A.b'', (\<lambda>m c. Ret c), None)]"

definition demo_world :: "unit world" where
  "demo_world = \<lparr>w_serv = register_all demo_regs zeroService, w_clients = [NewClient demo_conn], w_slots = None, w_clientsM = False\<rparr>"

theorem dispatch_by_name_witness:
  "handle_message demo_env 0 0 (SetAction ''A.b'' NewRequestMessage) demo_world demo_key = (demo_key, Ret (True, demo_world))"
proof -
  let ?m = "SetAction ''A.b'' NewRequestMessage"
  have f: "find (\<lambda>r. fst r = mAction ?m) (rev demo_regs) = Some (''A.b'', (\<lambda>m c. Ret c), None)"
    by (simp add: demo_regs_def SetAction_def)
  have c: "\<not> isRunning (zeroService :: unit Service)" "sv_actions (zeroService :: unit Service) = []"
    "sv_actions (w_serv demo_world) = sv_actions (register_all demo_regs (zeroService :: unit Service))"
    by (simp_all add: zeroService_def demo_world_def)
  have "handle_message demo_env 0 0 ?m demo_world demo_key
      = (demo_key, go_bind (Ret (w_clients demo_world ! 0)) (\<lambda>cl. Ret (True, set_client 0 cl demo_world)))"
    using dispatch_by_name [OF c, where msg = ?m and env = demo_env and k = 0 and i = 0 and ks = demo_key] unfolding f by auto
  then show ?thesis by (simp add: set_client_def demo_world_def)
qed

end
