(* ===== verification/Dialogue.thy ===== *)
theory Dialogue
  imports ServiceRun
begin

text \<open>
  A client and a service at the two ends of one connection: requests and replies in turn, from the bytes that one side
  sends to the channel on which the other side receives, through the reader loop of \<^verbatim>\<open>connection.go\<close>, the splitting loop of
  \<^verbatim>\<open>client.go\<close> and the handler of \<^verbatim>\<open>service.go\<close>. Both sides also exchange the acknowledgements of the data they receive.
\<close>

subsection \<open>Reading a part of the stream\<close>

text \<open>The reader loop that finds \<open>wire\<close> in front of whatever follows is afterwards where it would be from \<open>conn'\<close> on.\<close>

definition consumes :: "bytes \<Rightarrow> Connection \<Rightarrow> Connection \<Rightarrow> bool" where
  "consumes wire conn conn' \<longleftrightarrow> (\<forall>rest e seen. \<exists>n.
     packet_loop (conn\<lparr>conn_reader := \<lparr>rd_data = wire @ rest, rd_err = e\<rparr>\<rparr>) seen
     = packet_loop (conn'\<lparr>conn_reader := \<lparr>rd_data = rest, rd_err = e\<rparr>\<rparr>) (seen + n))"

lemma consumes_unique:
  assumes "consumes wire conn c1" and "consumes wire conn c2"
  shows "c1\<lparr>conn_reader := rd\<rparr> = c2\<lparr>conn_reader := rd\<rparr>"
proof -
  let ?eof = "\<lparr>rd_data = [], rd_err = []\<rparr>"
  obtain n1 where "packet_loop (conn\<lparr>conn_reader := \<lparr>rd_data = wire @ [], rd_err = []\<rparr>\<rparr>) 0 = packet_loop (c1\<lparr>conn_reader := ?eof\<rparr>) (0 + n1)"
    using assms(1) unfolding consumes_def by blast
  moreover obtain n2 where "packet_loop (conn\<lparr>conn_reader := \<lparr>rd_data = wire @ [], rd_err = []\<rparr>\<rparr>) 0 = packet_loop (c2\<lparr>conn_reader := ?eof\<rparr>) (0 + n2)"
    using assms(2) unfolding consumes_def by blast
  ultimately have "c1\<lparr>conn_reader := ?eof\<rparr> = c2\<lparr>conn_reader := ?eof\<rparr>" by (simp add: packet_loop_end)
  then show ?thesis by (cases c1; cases c2) simp
qed

definition is_ack :: "Packet \<Rightarrow> bool" where
  "is_ack p \<longleftrightarrow> packetType p = ACK \<and> packet_fits p"

lemma route_acks: "list_all is_ack ps \<Longrightarrow> route_packets (map received ps) conn = (None, conn)"
  by (induction ps) (auto simp: is_ack_def routePacket_def received_def)

lemma acks_are_acks: "list_all is_ack (acks no k ps)"
proof (induction no k ps rule: acks.induct)
  case (2 no k p ps)
  have "length (dec_uint x) < 2000" for x using dec_uint_length [of x] by simp
  then have "packet_fits (ack_packet no x)" for x
    by (intro short_packet_fits [where b = "dec_uint x"]) (auto simp: ack_packet_def packet_body_eq)
  with 2 show ?case by (simp add: is_ack_def ack_packet_def)
qed simp

text \<open>Routing a message on a healthy connection acknowledges its data and delivers it.\<close>

lemma route_message_acks:
  assumes "message_ok msg" and "incomingmsgno conn = no" and "pktToMsg conn no = None" and "conn_healthy conn"
  shows "\<exists>w bs. route_packets (map received (fst (toPackets no msg))) conn
      = (None, conn\<lparr>conn_writer := w, incomingmsgno := no + 1, msgs := msgs conn @ [received_message msg]\<rparr>)
    \<and> bw_healthy w \<and> bw_buf w = [] \<and> nc_sent (bw_conn w) = sent conn @ frames bs \<and> list_all is_ack bs"
proof -
  let ?m = "message_of_header (repair_header (header_of msg))"
  let ?ps = "map (\<lambda>p. p\<lparr>msgNo := no, packetHeader := zeroHeader\<rparr>) (packets msg)"
  define c1 where "c1 = conn\<lparr>pktToMsg := (pktToMsg conn)(no \<mapsto> ?m), incomingmsgno := no + 1\<rparr>"
  obtain w where w: "route_packets (map received (fst (toPackets no msg))) conn
      = (None, conn\<lparr>conn_writer := w, incomingmsgno := no + 1, msgs := msgs conn @ [received_message msg]\<rparr>)"
    using route_message [OF assms(1-3)] by blast
  have 1: "routePacket ((header_packet no msg)\<lparr>packetHeader := repair_header (header_of msg)\<rparr>) conn = (None, c1)"
    using assms by (simp add: routePacket_def route_header_def header_packet_def c1_def)
  have "list_all (\<lambda>p. packetType p = DATA \<and> msgNo p = no) ?ps" "pktToMsg c1 no = Some ?m"
    using assms(1) by (auto simp: list_all_iff message_ok_def c1_def)
  from route_data_acks [OF this] assms(4) obtain c2 where
    2: "route_packets ?ps c1 = (None, c2)" "bw_healthy (conn_writer c2)" "bw_buf (conn_writer c2) = []"
      "sent c2 = sent c1 @ frames (acks no (bytesWritten ?m) ?ps)" by (auto simp: conn_healthy_def c1_def)
  have "routePacket (eof_packet no) c2 = (None, conn\<lparr>conn_writer := w, incomingmsgno := no + 1, msgs := msgs conn @ [received_message msg]\<rparr>)"
    using w 1 2(1) unfolding received_toPackets [OF assms(1)] by (simp add: route_packets_append split: prod.splits option.splits)
  moreover have "conn_writer (snd (routePacket (eof_packet no) c2)) = conn_writer c2"
    by (simp add: routePacket_def route_eof_def eof_packet_def Let_def split: option.splits)
  ultimately have "conn_writer c2 = w" by simp
  moreover have "sent c1 = sent conn" by (simp add: c1_def)
  ultimately show ?thesis using w 2 acks_are_acks by metis
qed

lemma receives:
  assumes "message_fits msg" and "incomingmsgno conn = no" and "pktToMsg conn = (\<lambda>_. None)" and "conn_healthy conn" and "list_all is_ack as"
  shows "\<exists>conn' bs. consumes (frames as @ frames (fst (toPackets no msg))) conn conn' \<and> conn_healthy conn'
    \<and> sent conn' = sent conn @ frames bs \<and> list_all is_ack bs \<and> incomingmsgno conn' = no + 1 \<and> outgoingmsgno conn' = outgoingmsgno conn
    \<and> pktToMsg conn' = (\<lambda>_. None) \<and> msgs conn' = msgs conn @ [received_message msg]"
proof -
  have ok: "message_ok msg" using assms(1) by (simp add: message_fits_def)
  let ?ps = "as @ fst (toPackets no msg)"
  obtain w bs where w: "route_packets (map received (fst (toPackets no msg))) conn
      = (None, conn\<lparr>conn_writer := w, incomingmsgno := no + 1, msgs := msgs conn @ [received_message msg]\<rparr>)"
    "bw_healthy w" "bw_buf w = []" "nc_sent (bw_conn w) = sent conn @ frames bs" "list_all is_ack bs"
    using route_message_acks [OF ok assms(2)] assms(3,4) by auto
  let ?c = "conn\<lparr>conn_writer := w, incomingmsgno := no + 1, msgs := msgs conn @ [received_message msg]\<rparr>"
  have "route_packets (map received ?ps) conn = (None, ?c)" using route_acks [OF assms(5)] w(1) by (simp add: route_packets_append)
  moreover have "list_all packet_fits ?ps" using assms(1,5) by (auto simp: message_fits_def is_ack_def list_all_iff)
  ultimately have "consumes (frames as @ frames (fst (toPackets no msg))) conn ?c"
    unfolding consumes_def using packet_loop_frames [of ?ps conn ?c] by (metis append_assoc frames_append)
  then show ?thesis using w(2-) assms(3,4) by (intro exI [of _ ?c] exI [of _ bs]) (simp add: conn_healthy_def)
qed

subsection \<open>The two ends\<close>

text \<open>A client whose reader has found \<open>wire\<close> and whose splitting loop has handled the messages delivered by it.\<close>

definition client_reads :: "bytes \<Rightarrow> Client \<Rightarrow> Client \<Rightarrow> bool" where
  "client_reads wire cl cl' \<longleftrightarrow> (\<exists>conn conn'. cl_conn cl = Some conn \<and> consumes wire conn conn'
     \<and> cl' = fold split_message (drop (length (msgs conn)) (msgs conn')) (cl\<lparr>cl_conn := Some conn'\<rparr>))"

definition wire_of :: "Client \<Rightarrow> bytes" where
  "wire_of cl = (case cl_conn cl of None \<Rightarrow> [] | Some conn \<Rightarrow> sent conn)"

text \<open>
  The client that asks, the service (whose client \<open>i\<close> is the other end), and how many bytes the client and the service have read of
  what the other side has sent.
\<close>

record 'priv link =
  lk_client :: Client
  lk_world :: "'priv world"
  lk_read_client :: nat
  lk_read_service :: nat

abbreviation service_end :: "nat \<Rightarrow> 'priv link \<Rightarrow> Client" where
  "service_end i l \<equiv> w_clients (lk_world l) ! i"

text \<open>
  One request and its reply: the request is sent, the service reads what it has not read yet and its handler gets a message, the
  client reads what it has not read yet, and \<open>answer\<close> is what is received on the channel of the request.
\<close>

definition request_round ::
  "('pub, 'priv) env \<Rightarrow> nat \<Rightarrow> nat \<Rightarrow> 'pub key_state \<Rightarrow> Message \<Rightarrow> Message \<Rightarrow> 'priv link \<Rightarrow> 'priv link \<Rightarrow> bool" where
  "request_round env k i ks req answer l l' \<longleftrightarrow> (\<exists>ch c1 req' d1 m w1 c2.
     Client_Send req (lk_client l) = ((Some ch, None), c1, req')
     \<and> client_reads (drop (lk_read_service l) (wire_of c1)) (service_end i l) d1
     \<and> ch_msgs (requests d1) = ch_msgs (requests (service_end i l)) @ [m]
     \<and> handle_message env k i m (set_client i d1 (lk_world l)) ks = (ks, Ret (True, w1))
     \<and> client_reads (drop (lk_read_client l) (wire_of (w_clients w1 ! i))) c1 c2
     \<and> ch_msgs (reply_chans c2 ! ch) = [answer]
     \<and> l' = \<lparr>lk_client = c2, lk_world = w1, lk_read_client = length (wire_of (w_clients w1 ! i)), lk_read_service = length (wire_of c1)\<rparr>)"

fun request_rounds ::
  "('pub, 'priv) env \<Rightarrow> nat \<Rightarrow> nat \<Rightarrow> 'pub key_state \<Rightarrow> (Message \<times> Message) list \<Rightarrow> 'priv link \<Rightarrow> 'priv link \<Rightarrow> bool" where
  "request_rounds env k i ks [] l l' = (l' = l)"
| "request_rounds env k i ks ((req, answer) # xs) l l' = (\<exists>l1. request_round env k i ks req answer l l1 \<and> request_rounds env k i ks xs l1 l')"

text \<open>
  Both ends agree: healthy connections, message numbers and request ids in step, and nothing on the way but acknowledgements to
  the service.
\<close>

definition ends_agree :: "Connection \<Rightarrow> Connection \<Rightarrow> bool" where
  "ends_agree cc dc \<longleftrightarrow> conn_healthy cc \<and> conn_healthy dc \<and> pktToMsg cc = (\<lambda>_. None) \<and> pktToMsg dc = (\<lambda>_. None)
     \<and> outgoingmsgno cc = incomingmsgno dc \<and> outgoingmsgno dc = incomingmsgno cc"

definition in_step :: "nat \<Rightarrow> 'priv link \<Rightarrow> bool" where
  "in_step i l \<longleftrightarrow> i < length (w_clients (lk_world l)) \<and> client_inv (lk_client l)
     \<and> nextRequestID (service_end i l) = nextRequestID (lk_client l)
     \<and> (\<exists>cc dc bs. cl_conn (lk_client l) = Some cc \<and> cl_conn (service_end i l) = Some dc \<and> ends_agree cc dc
         \<and> lk_read_client l = length (sent dc) \<and> lk_read_service l \<le> length (sent cc)
         \<and> drop (lk_read_service l) (sent cc) = frames bs \<and> list_all is_ack bs)"

text \<open>The service has an action for the message, which sends one reply.\<close>

definition replies_with :: "('pub, 'priv) env \<Rightarrow> 'pub key_state \<Rightarrow> (Message \<Rightarrow> Message) \<Rightarrow> 'priv Service \<Rightarrow> Message \<Rightarrow> bool" where
  "replies_with env ks reply serv m \<longleftrightarrow> (\<exists>action. map_of (sv_actions serv) (mAction m) = Some action
     \<and> (\<forall>cl. Call env (sa_callback action) m cl ks = (ks, Ret (fst (snd (Client_Send (reply m) cl))))))"

definition answer_to :: "(Message \<Rightarrow> Message) \<Rightarrow> goint \<Rightarrow> Message \<Rightarrow> Message" where
  "answer_to reply r req = received_message ((reply (received_message (req\<lparr>mRequestID := r\<rparr>)))\<lparr>mRequestID := r\<rparr>)"

lemma received_fields [simp]:
  "mRequestID (received_message m) = mRequestID m" "mMessageType (received_message m) = mMessageType m"
  by (simp_all add: received_message_def message_of_header_def message_setters header_of_def repair_header_def)

text \<open>A message sent by one end, with the number that the other end expects, arrives there.\<close>

lemma send_healthy_client:
  assumes "cl_conn cl = Some conn" and "conn_healthy conn" and "message_fits (msg\<lparr>mRequestID := nextRequestID cl + 1\<rparr>)"
  shows "\<exists>conn' msg'. send_out msg cl = (None, cl\<lparr>nextRequestID := nextRequestID cl + 1, cl_conn := Some conn'\<rparr>, msg')
    \<and> mMessageType msg' = mMessageType msg \<and> mRequestID msg' = nextRequestID cl + 1
    \<and> conn_healthy conn' \<and> outgoingmsgno conn' = outgoingmsgno conn + 1
    \<and> sent conn' = sent conn @ frames (fst (toPackets (outgoingmsgno conn) (msg\<lparr>mRequestID := nextRequestID cl + 1\<rparr>)))
    \<and> pktToMsg conn' = pktToMsg conn \<and> msgs conn' = msgs conn \<and> incomingmsgno conn' = incomingmsgno conn"
proof -
  let ?m = "msg\<lparr>mRequestID := nextRequestID cl + 1\<rparr>"
  obtain conn' where s: "Connection_Send (Some conn) ?m = (None, Some conn', snd (toPackets (outgoingmsgno conn) ?m))"
    "conn_healthy conn'" "outgoingmsgno conn' = outgoingmsgno conn + 1" "sent conn' = sent conn @ frames (fst (toPackets (outgoingmsgno conn) ?m))"
    using Send_healthy [OF assms(2,3)] by blast
  have "mMessageType (snd (toPackets (outgoingmsgno conn) ?m)) = mMessageType msg" "mRequestID (snd (toPackets (outgoingmsgno conn) ?m)) = nextRequestID cl + 1"
    by (simp_all add: toPackets_def Let_def)
  with s Send_frame [OF s(1)] assms(1) show ?thesis
    by (intro exI [of _ conn'] exI [of _ "snd (toPackets (outgoingmsgno conn) ?m)"]) (simp add: send_out_def Let_def)
qed

lemma reads_message:
  assumes "cl_conn cl = Some conn" and "message_fits msg" and "incomingmsgno conn = no" and "pktToMsg conn = (\<lambda>_. None)"
    and "conn_healthy conn" and "list_all is_ack as"
  shows "\<exists>conn' bs. client_reads (frames as @ frames (fst (toPackets no msg))) cl (split_message (received_message msg) (cl\<lparr>cl_conn := Some conn'\<rparr>))
    \<and> conn_healthy conn' \<and> sent conn' = sent conn @ frames bs \<and> list_all is_ack bs \<and> incomingmsgno conn' = no + 1
    \<and> outgoingmsgno conn' = outgoingmsgno conn \<and> pktToMsg conn' = (\<lambda>_. None)"
proof -
  obtain conn' bs where r: "consumes (frames as @ frames (fst (toPackets no msg))) conn conn'" "msgs conn' = msgs conn @ [received_message msg]"
    "conn_healthy conn'" "sent conn' = sent conn @ frames bs" "list_all is_ack bs" "incomingmsgno conn' = no + 1"
    "outgoingmsgno conn' = outgoingmsgno conn" "pktToMsg conn' = (\<lambda>_. None)"
    using receives [OF assms(2-6)] by (elim exE conjE) (rule that)
  have "client_reads (frames as @ frames (fst (toPackets no msg))) cl (split_message (received_message msg) (cl\<lparr>cl_conn := Some conn'\<rparr>))"
    unfolding client_reads_def using assms(1) r(1,2) by (intro exI [of _ conn] exI [of _ conn']) simp
  with r(3-) show ?thesis by (intro exI [of _ conn'] exI [of _ bs]) simp
qed

lemma ends_agree_sym: "ends_agree a b \<longleftrightarrow> ends_agree b a"
  by (auto simp: ends_agree_def)

lemma transfer:
  assumes "cl_conn x = Some a" and "cl_conn y = Some b" and "ends_agree a b" and "message_fits (msg\<lparr>mRequestID := r\<rparr>)" and "r = nextRequestID x + 1"
    and "n \<le> length (sent a)" and "drop n (sent a) = frames as" and "list_all is_ack as"
  shows "\<exists>a1 b1 bs msg'. send_out msg x = (None, x\<lparr>nextRequestID := r, cl_conn := Some a1\<rparr>, msg') \<and> mMessageType msg' = mMessageType msg \<and> mRequestID msg' = r
    \<and> client_reads (drop n (sent a1)) y (split_message (received_message (msg\<lparr>mRequestID := r\<rparr>)) (y\<lparr>cl_conn := Some b1\<rparr>))
    \<and> ends_agree a1 b1 \<and> sent b1 = sent b @ frames bs \<and> list_all is_ack bs"
proof -
  note e = assms(3) [unfolded ends_agree_def]
  let ?m = "msg\<lparr>mRequestID := r\<rparr>"
  obtain a1 msg' where s: "send_out msg x = (None, x\<lparr>nextRequestID := r, cl_conn := Some a1\<rparr>, msg')" "mMessageType msg' = mMessageType msg"
    "mRequestID msg' = r" "conn_healthy a1" "outgoingmsgno a1 = outgoingmsgno a + 1" "sent a1 = sent a @ frames (fst (toPackets (outgoingmsgno a) ?m))"
    "pktToMsg a1 = (\<lambda>_. None)" "incomingmsgno a1 = incomingmsgno a"
    using send_healthy_client [OF assms(1), of msg] e assms(4,5) by auto
  have wire: "drop n (sent a1) = frames as @ frames (fst (toPackets (incomingmsgno b) ?m))" using assms(6,7) s(6) e by simp
  obtain b1 bs where r: "client_reads (drop n (sent a1)) y (split_message (received_message ?m) (y\<lparr>cl_conn := Some b1\<rparr>))"
    "conn_healthy b1" "sent b1 = sent b @ frames bs" "list_all is_ack bs" "incomingmsgno b1 = incomingmsgno b + 1"
    "outgoingmsgno b1 = outgoingmsgno b" "pktToMsg b1 = (\<lambda>_. None)"
    unfolding wire using reads_message [OF assms(2,4) refl _ _ assms(8)] e by (elim exE conjE) auto
  have "ends_agree a1 b1" using e s(4,5,7,8) r(2,5-7) by (simp add: ends_agree_def)
  with s(1-3) r(1,3,4) show ?thesis by blast
qed

text \<open>A request arrives at the channel of requests of the service, and the client waits for its reply.\<close>

lemma ask_arrives:
  assumes "cl_conn c = Some cc" and "cl_conn d = Some dc" and "ends_agree cc dc" and "message_fits (req\<lparr>mRequestID := r\<rparr>)" and "r = nextRequestID c + 1"
    and "n \<le> length (sent cc)" and "drop n (sent cc) = frames bs" and "list_all is_ack bs" and "mMessageType req = MessageTypeRequest"
  shows "\<exists>cc1 dc1 as c1 req'. Client_Send req c = ((Some (length (reply_chans c)), None), c1, req')
    \<and> c1 = c\<lparr>nextRequestID := r, cl_conn := Some cc1, reply_chans := reply_chans c @ [new_chan],
               openReplies := AList.update r (length (reply_chans c)) (openReplies c)\<rparr>
    \<and> client_reads (drop n (wire_of c1)) d (d\<lparr>cl_conn := Some dc1, requests := chan_send (received_message (req\<lparr>mRequestID := r\<rparr>)) (requests d)\<rparr>)
    \<and> ends_agree cc1 dc1 \<and> sent dc1 = sent dc @ frames as \<and> list_all is_ack as"
proof -
  obtain cc1 dc1 as req' where t: "send_out req c = (None, c\<lparr>nextRequestID := r, cl_conn := Some cc1\<rparr>, req')" "mMessageType req' = MessageTypeRequest"
    "mRequestID req' = r" "client_reads (drop n (sent cc1)) d (split_message (received_message (req\<lparr>mRequestID := r\<rparr>)) (d\<lparr>cl_conn := Some dc1\<rparr>))"
    "ends_agree cc1 dc1" "sent dc1 = sent dc @ frames as" "list_all is_ack as"
    using transfer [OF assms(1-8)] assms(9) by (elim exE conjE) auto
  then show ?thesis using assms(9)
    by (intro exI [of _ cc1] exI [of _ dc1] exI [of _ as]) (simp add: Client_Send_def register_reply_def wire_of_def split_message_def)
qed

text \<open>A reply arrives at the channel of the request with its id.\<close>

lemma reply_arrives:
  assumes "cl_conn d = Some dc" and "cl_conn c = Some cc" and "ends_agree dc cc" and "message_fits (rep\<lparr>mRequestID := r\<rparr>)" and "r = nextRequestID d + 1"
    and "n \<le> length (sent dc)" and "drop n (sent dc) = frames as" and "list_all is_ack as" and "mMessageType rep = MessageTypeReply"
    and "map_of (openReplies c) r = Some ch"
  shows "\<exists>dc1 cc1 bs d1 rep'. Client_Send rep d = ((None, None), d1, rep') \<and> d1 = d\<lparr>nextRequestID := r, cl_conn := Some dc1\<rparr>
    \<and> client_reads (drop n (wire_of d1)) c (c\<lparr>cl_conn := Some cc1, openReplies := AList.delete r (openReplies c),
        reply_chans := (reply_chans c)[ch := chan_send (received_message (rep\<lparr>mRequestID := r\<rparr>)) (reply_chans c ! ch)]\<rparr>)
    \<and> ends_agree dc1 cc1 \<and> sent cc1 = sent cc @ frames bs \<and> list_all is_ack bs"
proof -
  obtain dc1 cc1 bs rep' where t: "send_out rep d = (None, d\<lparr>nextRequestID := r, cl_conn := Some dc1\<rparr>, rep')" "mMessageType rep' = MessageTypeReply"
    "client_reads (drop n (sent dc1)) c (split_message (received_message (rep\<lparr>mRequestID := r\<rparr>)) (c\<lparr>cl_conn := Some cc1\<rparr>))"
    "ends_agree dc1 cc1" "sent cc1 = sent cc @ frames bs" "list_all is_ack bs"
    using transfer [OF assms(1-8)] assms(9) by (elim exE conjE) auto
  then show ?thesis using assms(9,10)
    by (intro exI [of _ dc1] exI [of _ cc1] exI [of _ bs]) (simp add: Client_Send_def register_reply_def wire_of_def split_message_def)
qed

lemma one_round:
  assumes "in_step i l" and "r = nextRequestID (lk_client l) + 1" and "message_fits (req\<lparr>mRequestID := r\<rparr>)" and "mMessageType req = MessageTypeRequest"
    and "m = received_message (req\<lparr>mRequestID := r\<rparr>)" and "replies_with env ks reply (w_serv (lk_world l)) m"
    and "message_fits ((reply m)\<lparr>mRequestID := r\<rparr>)" and "mMessageType (reply m) = MessageTypeReply"
  shows "\<exists>l'. request_round env k i ks req (answer_to reply r req) l l' \<and> in_step i l' \<and> nextRequestID (lk_client l') = r \<and> w_serv (lk_world l') = w_serv (lk_world l)"
proof -
  let ?c = "lk_client l" and ?d = "service_end i l" and ?ch = "length (reply_chans (lk_client l))"
  obtain cc dc bs where st: "cl_conn ?c = Some cc" "cl_conn ?d = Some dc" "ends_agree cc dc" "lk_read_client l = length (sent dc)"
    "lk_read_service l \<le> length (sent cc)" "drop (lk_read_service l) (sent cc) = frames bs" "list_all is_ack bs"
    using assms(1) unfolding in_step_def by (elim exE conjE) (rule that)
  have i: "i < length (w_clients (lk_world l))" and ids: "nextRequestID ?d = nextRequestID ?c" and inv: "client_inv ?c"
    using assms(1) by (simp_all add: in_step_def)
  obtain cc1 dc1 as c1 req' where ask: "Client_Send req ?c = ((Some ?ch, None), c1, req')"
    "c1 = ?c\<lparr>nextRequestID := r, cl_conn := Some cc1, reply_chans := reply_chans ?c @ [new_chan], openReplies := AList.update r ?ch (openReplies ?c)\<rparr>"
    "client_reads (drop (lk_read_service l) (wire_of c1)) ?d (?d\<lparr>cl_conn := Some dc1, requests := chan_send m (requests ?d)\<rparr>)"
    "ends_agree cc1 dc1" "sent dc1 = sent dc @ frames as" "list_all is_ack as"
    using ask_arrives [OF st(1-3) assms(3,2) st(5-7) assms(4), folded assms(5)] by (elim exE conjE) (rule that)
  define d1 where "d1 = ?d\<lparr>cl_conn := Some dc1, requests := chan_send m (requests ?d)\<rparr>"
  have c1: "cl_conn c1 = Some cc1" "map_of (openReplies c1) r = Some ?ch" using ask(2) by (simp_all add: update_conv')
  have d: "cl_conn d1 = Some dc1" "ends_agree dc1 cc1" "r = nextRequestID d1 + 1" "lk_read_client l \<le> length (sent dc1)"
    "drop (lk_read_client l) (sent dc1) = frames as" using ids assms(2) ask(4,5) st(4) ends_agree_sym by (simp_all add: d1_def)
  have answer: "received_message ((reply m)\<lparr>mRequestID := r\<rparr>) = answer_to reply r req" by (simp add: answer_to_def assms(5))
  obtain dc2 cc2 bs' d2 rep' where reply: "Client_Send (reply m) d1 = ((None, None), d2, rep')" "d2 = d1\<lparr>nextRequestID := r, cl_conn := Some dc2\<rparr>"
    "client_reads (drop (lk_read_client l) (wire_of d2)) c1 (c1\<lparr>cl_conn := Some cc2, openReplies := AList.delete r (openReplies c1),
       reply_chans := (reply_chans c1)[?ch := chan_send (answer_to reply r req) (reply_chans c1 ! ?ch)]\<rparr>)"
    "ends_agree dc2 cc2" "sent cc2 = sent cc1 @ frames bs'" "list_all is_ack bs'"
    using reply_arrives [OF d(1) c1(1) d(2) assms(7) d(3-5) ask(6) assms(8) c1(2), unfolded answer] by (elim exE conjE) (rule that)
  define c2 where "c2 = c1\<lparr>cl_conn := Some cc2, openReplies := AList.delete r (openReplies c1),
       reply_chans := (reply_chans c1)[?ch := chan_send (answer_to reply r req) (reply_chans c1 ! ?ch)]\<rparr>"
  define w1 where "w1 = set_client i d2 (set_client i d1 (lk_world l))"
  have at: "w_clients w1 ! i = d2" "w_serv w1 = w_serv (lk_world l)" "length (w_clients w1) = length (w_clients (lk_world l))"
    using i by (simp_all add: w1_def set_client_def)
  have handled: "handle_message env k i m (set_client i d1 (lk_world l)) ks = (ks, Ret (True, w1))"
    using assms(6) i reply(1) by (auto simp: handle_message_def replies_with_def w1_def set_client_def)
  let ?l = "\<lparr>lk_client = c2, lk_world = w1, lk_read_client = length (wire_of d2), lk_read_service = length (wire_of c1)\<rparr>"
  have "ch_msgs (reply_chans c2 ! ?ch) = [answer_to reply r req]" by (simp add: c2_def ask(2) chan_send_def new_chan_def)
  moreover have "ch_msgs (requests d1) = ch_msgs (requests ?d) @ [m]" by (simp add: d1_def chan_send_def)
  ultimately have rnd: "request_round env k i ks req (answer_to reply r req) l ?l"
    unfolding request_round_def using ask(1,3) [folded d1_def] handled reply(3) [folded c2_def] at(1) by blast
  have "client_inv c2" using client_inv_Send [OF inv ask(1)] by (auto simp: c2_def client_inv_def delete_conv' distinct_delete split: if_splits)
  then have "in_step i ?l" unfolding in_step_def using i at reply(2,4-6) ends_agree_sym
    by (auto simp: wire_of_def c2_def ask(2) intro!: exI [of _ bs'])
  then show ?thesis using rnd at(2) by (intro exI [of _ ?l]) (simp add: c2_def ask(2))
qed

subsection \<open>Conversations\<close>

text \<open>The requests that the service answers, whatever id they get.\<close>

definition served :: "('pub, 'priv) env \<Rightarrow> 'pub key_state \<Rightarrow> (Message \<Rightarrow> Message) \<Rightarrow> 'priv Service \<Rightarrow> Message \<Rightarrow> bool" where
  "served env ks reply serv req \<longleftrightarrow> mMessageType req = MessageTypeRequest
     \<and> (\<forall>r. r \<noteq> 0 \<longrightarrow> message_fits (req\<lparr>mRequestID := r\<rparr>)
         \<and> (let m = received_message (req\<lparr>mRequestID := r\<rparr>) in replies_with env ks reply serv m
             \<and> mMessageType (reply m) = MessageTypeReply \<and> message_fits ((reply m)\<lparr>mRequestID := r\<rparr>)))"

text \<open>The requests, numbered from the id after \<open>r\<close>, with what is received for each of them.\<close>

fun answers :: "(Message \<Rightarrow> Message) \<Rightarrow> goint \<Rightarrow> Message list \<Rightarrow> (Message \<times> Message) list" where
  "answers reply r [] = []"
| "answers reply r (req # reqs) = (req, answer_to reply (r + 1) req) # answers reply (r + 1) reqs"

lemma conversation:
  assumes "in_step i l" and "r = nextRequestID (lk_client l)" and "unat r + length reqs < 2 ^ 64"
    and "\<forall>req\<in>set reqs. served env ks reply (w_serv (lk_world l)) req"
  shows "\<exists>l'. request_rounds env k i ks (answers reply r reqs) l l' \<and> in_step i l'"
  using assms
proof (induction reqs arbitrary: l r)
  case (Cons req reqs)
  let ?m = "received_message (req\<lparr>mRequestID := r + 1\<rparr>)"
  have suc: "unat (r + 1) = unat r + 1" using Cons.prems(3) by (simp add: unat_word_ariths)
  then have "r + 1 \<noteq> 0" by auto
  then have s: "message_fits (req\<lparr>mRequestID := r + 1\<rparr>)" "mMessageType req = MessageTypeRequest"
    "replies_with env ks reply (w_serv (lk_world l)) ?m" "message_fits ((reply ?m)\<lparr>mRequestID := r + 1\<rparr>)" "mMessageType (reply ?m) = MessageTypeReply"
    using Cons.prems(4) by (simp_all add: served_def Let_def)
  have r: "r + 1 = nextRequestID (lk_client l) + 1" using Cons.prems(2) by simp
  obtain l1 where l1: "request_round env k i ks req (answer_to reply (r + 1) req) l l1" "in_step i l1" "nextRequestID (lk_client l1) = r + 1"
    "w_serv (lk_world l1) = w_serv (lk_world l)"
    using one_round [OF Cons.prems(1) r s(1,2) refl s(3-5), of k] by blast
  have "unat (r + 1) + length reqs < 2 ^ 64" "\<forall>req\<in>set reqs. served env ks reply (w_serv (lk_world l1)) req"
    using Cons.prems(3,4) suc l1(4) by simp_all
  from Cons.IH [OF l1(2) l1(3) [symmetric] this] l1(1) show ?case by auto
qed simp

lemma in_step_start:
  assumes "nc_fail nc = None" and "nc_sent nc = []" and "nc_fail nc' = None" and "nc_sent nc' = []"
  shows "in_step (length (w_clients w)) \<lparr>lk_client = NewClient (NewConnection fp certs rd nc),
    lk_world = accept_client (NewConnection fp' certs' rd' nc') w, lk_read_client = 0, lk_read_service = 0\<rparr>"
proof -
  let ?cc = "NewConnection fp certs rd nc" and ?dc = "NewConnection fp' certs' rd' nc'"
  have "ends_agree ?cc ?dc" using assms by (simp add: ends_agree_def conn_healthy_def bw_healthy_def NewConnection_def)
  moreover have "sent ?cc = []" "sent ?dc = []" using assms by (simp_all add: NewConnection_def)
  ultimately show ?thesis
    unfolding in_step_def by (auto simp: accept_client_def NewClient_def client_inv_def nth_append intro!: exI [of _ "[]"])
qed

subsection \<open>Properties\<close>

text \<open>
  C2. A conversation works: a client on a new connection that a service has accepted sends requests one after the other, each after the reply to the
  one before. Every request is sent, arrives at the handler of the service as it was sent, is dispatched to its action, and the reply of the
  action is received on the channel of that request, once and with its id, for any number of requests below \<open>2 ^ 64\<close>. All of it goes through the bytes
  of the connection, with the acknowledgements of both sides in between.
\<close>

theorem conversation_answered:
  assumes "nc_fail nc = None" and "nc_sent nc = []" and "nc_fail nc' = None" and "nc_sent nc' = []"
    and "length reqs < 2 ^ 64" and "\<forall>req\<in>set reqs. served env ks reply (w_serv w) req"
  shows "\<exists>l'. request_rounds env k (length (w_clients w)) ks (answers reply 0 reqs)
    \<lparr>lk_client = NewClient (NewConnection fp certs rd nc), lk_world = accept_client (NewConnection fp' certs' rd' nc') w,
     lk_read_client = 0, lk_read_service = 0\<rparr> l'"
proof -
  let ?l = "\<lparr>lk_client = NewClient (NewConnection fp certs rd nc), lk_world = accept_client (NewConnection fp' certs' rd' nc') w,
     lk_read_client = 0, lk_read_service = 0\<rparr>"
  have "served env ks reply (w_serv (lk_world ?l)) = served env ks reply (w_serv w)"
    by (simp add: fun_eq_iff served_def replies_with_def accept_client_def)
  with assms(6) have s: "\<forall>req\<in>set reqs. served env ks reply (w_serv (lk_world ?l)) req" by simp
  have "0 = nextRequestID (lk_client ?l)" "unat (0 :: goint) + length reqs < 2 ^ 64" using assms(5) by (simp_all add: NewClient_def)
  from conversation [OF in_step_start [OF assms(1-4)] this s] show ?thesis by blast
qed

text \<open>Two pings to a service that answers them with an empty reply.\<close>

definition demo_pong :: "unit world" where
  "demo_pong = \<lparr>w_serv = zeroService\<lparr>sv_actions := [(''ping'', \<lparr>sa_callback = \<lparr>sf_callback = (\<lambda>m c. Ret (fst (snd (Client_Send demo_reply c)))),
     sf_options = DefaultActionOptions\<rparr>, sa_crudTags = [], sa_version = 1\<rparr>)]\<rparr>, w_clients = [], w_slots = None, w_clientsM = False\<rparr>"

lemma demo_reply_fits: "r \<noteq> 0 \<Longrightarrow> message_fits (demo_reply\<lparr>mRequestID := r\<rparr>)"
proof (rule small_message_fits)
  show "\<exists>j. header_json (header_of (demo_reply\<lparr>mRequestID := r\<rparr>)) = Inr j"
    by (simp add: header_json_Inr_iff header_of_def demo_reply_def NewResponseMessage_def NewMessage_def message_setters)
  show "length (print_json j) < 1000" if "header_json (header_of (demo_reply\<lparr>mRequestID := r\<rparr>)) = Inr j" for j
    using that dec_int_length [of r]
    by (auto simp: header_json_def header_of_def demo_reply_def NewResponseMessage_def NewMessage_def message_setters
      message_getters header_members_def omitempty_def print_json_def json_string_def enc_string_plain
      plain_def html_safe_def json_int_def json_literal_def quoted_def dec_int_def [of 0] dec_nat.simps)
qed (auto simp: demo_reply_def NewResponseMessage_def NewMessage_def message_setters message_ok_def Message_Bytes_eq)

lemma demo_served: "served demo_env demo_key (\<lambda>_. demo_reply) (w_serv demo_pong) demo_msg"
proof -
  have "utf8_repair ''ping'' = ''ping''" by (rule ascii_repair) simp
  then have "mAction (received_message (demo_msg\<lparr>mRequestID := r\<rparr>)) = ''ping''" for r
    by (simp add: received_message_def message_of_header_def message_setters header_of_def repair_header_def demo_msg_def Message_Write_def)
  then have "replies_with demo_env demo_key (\<lambda>_. demo_reply) (w_serv demo_pong) (received_message (demo_msg\<lparr>mRequestID := r\<rparr>))" for r
    by (simp add: replies_with_def demo_pong_def Call_def DefaultActionOptions_def)
  moreover have "mMessageType demo_msg = MessageTypeRequest" "mMessageType demo_reply = MessageTypeReply"
    by (simp_all add: demo_msg_def demo_reply_def Message_Write_def NewRequestMessage_def NewResponseMessage_def message_setters)
  ultimately show ?thesis using demo_fits_any demo_reply_fits by (simp add: served_def Let_def)
qed

theorem conversation_answered_witness:
  "\<exists>l'. request_rounds demo_env 0 0 demo_key
      [(demo_msg, received_message (demo_reply\<lparr>mRequestID := 1\<rparr>)), (demo_msg, received_message (demo_reply\<lparr>mRequestID := 2\<rparr>))]
      \<lparr>lk_client = NewClient demo_conn, lk_world = accept_client demo_conn demo_pong, lk_read_client = 0, lk_read_service = 0\<rparr> l'"
proof -
  have "length (w_clients demo_pong) = 0" by (simp add: demo_pong_def)
  moreover have "answers (\<lambda>_. demo_reply) 0 [demo_msg, demo_msg]
      = [(demo_msg, received_message (demo_reply\<lparr>mRequestID := 1\<rparr>)), (demo_msg, received_message (demo_reply\<lparr>mRequestID := 2\<rparr>))]"
    by (simp add: answer_to_def)
  moreover have "\<forall>req\<in>set [demo_msg, demo_msg]. served demo_env demo_key (\<lambda>_. demo_reply) (w_serv demo_pong) req" using demo_served by simp
  ultimately show ?thesis unfolding demo_conn_def
    using conversation_answered [of "\<lparr>nc_sent = [], nc_fail = None\<rparr>" "\<lparr>nc_sent = [], nc_fail = None\<rparr>" "[demo_msg, demo_msg]"
      demo_env demo_key "\<lambda>_. demo_reply" demo_pong 0] by simp
qed

end
