(* ===== verification/Splitter.thy ===== *)
theory Splitter
  imports Client
begin

text \<open>
  The splitting goroutine of a client (\<^verbatim>\<open>splitReqsAndReps\<close> of \<^verbatim>\<open>scamp/client.go\<close>) at the grain at which it can be stopped. The channels
  of requests and of replies have no buffer: a send on one of them goes on only when somebody receives from it. One turn of the loop is
  therefore three steps: the channel expression \<^verbatim>\<open>client.conn.msgs\<close> is evaluated, a message is received from that channel (and for a reply
  the table of open replies is consulted), and the message is handed on. Between these steps the client may be used and closed by
  others.
\<close>

text \<open>
  Where the goroutine is: before the evaluation, waiting for a message, in the send to the handler of requests or to the channel of a
  requester, after the loop, returned, or ended by a panic.
\<close>

datatype splitter = Evaluating | Receiving | ToHandler Message | ToRequester nat Message | LoopLeft | Finished | Crashed

definition split_eval :: "Client \<Rightarrow> splitter" where
  "split_eval client = (case cl_conn client of None \<Rightarrow> Crashed | Some _ \<Rightarrow> Receiving)"

text \<open>The next message of the connection, or \<open>None\<close> when its channel is closed.\<close>

definition split_receive :: "Message option \<Rightarrow> Client \<Rightarrow> splitter \<times> Client" where
  "split_receive msgp client = (case msgp of
     None \<Rightarrow> (LoopLeft, client)
   | Some message \<Rightarrow>
       if mMessageType message = MessageTypeRequest then (ToHandler message, client)
       else if mMessageType message = MessageTypeReply then
         (case map_of (openReplies client) (mRequestID message) of
            None \<Rightarrow> (Evaluating, client)
          | Some replyChan \<Rightarrow> (ToRequester replyChan message,
              client\<lparr>openReplies := AList.delete (mRequestID message) (openReplies client)\<rparr>))
       else (Evaluating, client))"

text \<open>The send, once somebody receives.\<close>

fun split_deliver :: "splitter \<Rightarrow> Client \<Rightarrow> Client" where
  "split_deliver (ToHandler message) client = client\<lparr>requests := chan_send message (requests client)\<rparr>"
| "split_deliver (ToRequester c message) client = client\<lparr>reply_chans := (reply_chans client)[c := chan_send message (reply_chans client ! c)]\<rparr>"
| "split_deliver _ client = client"

text \<open>A message that is received and handed on at once: the turn as a whole.\<close>

lemma split_message_parts: "split_message m c = (case split_receive (Some m) c of (s, c1) \<Rightarrow> split_deliver s c1)"
  by (simp add: split_message_def split_receive_def split: option.splits)

subsection \<open>A client and those who use it\<close>

text \<open>
  The client, its splitting goroutine, the channels that a requester still holds (it has sent its request and has not returned yet, so it
  receives from the channel), and whether somebody receives the requests: the handler of a service's client until it ends, nobody for a
  client that was dialed.
\<close>

record exchange =
  xc_client :: Client
  xc_split :: splitter
  xc_waiting :: "nat list"
  xc_handler :: bool

text \<open>A requester returns: it has the reply, the channel was closed, or it timed out; nothing is closed or unregistered then.\<close>

definition requester_returns :: "nat \<Rightarrow> exchange \<Rightarrow> exchange" where
  "requester_returns ch x = x\<lparr>xc_waiting := removeAll ch (xc_waiting x)\<rparr>"

inductive xc_step :: "exchange \<Rightarrow> exchange \<Rightarrow> bool" where
  evals: "xc_split x = Evaluating \<Longrightarrow> xc_step x (x\<lparr>xc_split := split_eval (xc_client x)\<rparr>)"
| gets: "xc_split x = Receiving \<Longrightarrow> split_receive msgp (xc_client x) = (s, c) \<Longrightarrow> xc_step x (x\<lparr>xc_client := c, xc_split := s\<rparr>)"
| handles: "xc_split x = ToHandler m \<Longrightarrow> xc_handler x \<Longrightarrow>
    xc_step x (x\<lparr>xc_client := split_deliver (xc_split x) (xc_client x), xc_split := Evaluating\<rparr>)"
| replies: "xc_split x = ToRequester ch m \<Longrightarrow> ch \<in> set (xc_waiting x) \<Longrightarrow>
    xc_step x (requester_returns ch (x\<lparr>xc_client := split_deliver (xc_split x) (xc_client x), xc_split := Evaluating\<rparr>))"
| ends: "xc_split x = LoopLeft \<Longrightarrow> split_end removeClient cache k (xc_client x) = Ret (cache', conn, c) \<Longrightarrow>
    xc_step x (x\<lparr>xc_client := c, xc_split := Finished\<rparr>)"
| asks: "Client_Send msg (xc_client x) = ((Some ch, None), c, msg') \<Longrightarrow>
    xc_step x (x\<lparr>xc_client := c, xc_waiting := ch # xc_waiting x\<rparr>)"
| sends: "Client_Send msg (xc_client x) = (r, c, msg') \<Longrightarrow> xc_step x (x\<lparr>xc_client := c\<rparr>)"
| times_out: "ch \<in> set (xc_waiting x) \<Longrightarrow> xc_step x (requester_returns ch x)"
| no_reply: "ch \<in> set (xc_waiting x) \<Longrightarrow> ch_closed (reply_chans (xc_client x) ! ch) \<Longrightarrow> xc_step x (requester_returns ch x)"
| handler_ends: "xc_step x (x\<lparr>xc_handler := False\<rparr>)"
| shuts: "Client_Close removeClient cache k (xc_client x) = Ret (cache', conn, c) \<Longrightarrow> xc_step x (x\<lparr>xc_client := c\<rparr>)"

definition xc_start :: "exchange \<Rightarrow> bool" where
  "xc_start x \<longleftrightarrow> (\<exists>conn handler. x = \<lparr>xc_client = NewClient conn, xc_split = Evaluating, xc_waiting = [], xc_handler = handler\<rparr>)"

definition xc_reach :: "exchange \<Rightarrow> bool" where
  "xc_reach x \<longleftrightarrow> (\<exists>x0. xc_start x0 \<and> xc_step\<^sup>*\<^sup>* x0 x)"

text \<open>
  Every channel that is in use was made by the client: those of requesters, and the one of the reply that is being handed on. The table of
  open replies is in order.
\<close>

definition xc_ok :: "exchange \<Rightarrow> bool" where
  "xc_ok x \<longleftrightarrow> client_inv (xc_client x) \<and> (\<forall>ch\<in>set (xc_waiting x). ch < length (reply_chans (xc_client x)))
     \<and> (\<forall>ch m. xc_split x = ToRequester ch m \<longrightarrow> ch < length (reply_chans (xc_client x)))"

lemma split_receive_ok:
  assumes "split_receive msgp c = (s, c')" and "client_inv c"
  shows "client_inv c' \<and> reply_chans c' = reply_chans c \<and> requests c' = requests c \<and> (\<forall>ch m. s = ToRequester ch m \<longrightarrow> ch < length (reply_chans c))"
  using assms
  by (auto simp: split_receive_def client_inv_def delete_conv' distinct_delete split: option.splits if_splits)

lemma Client_Send_length:
  assumes "Client_Send msg c = (r, c', msg')"
  shows "length (reply_chans c) \<le> length (reply_chans c') \<and> (\<forall>ch. fst r = Some ch \<longrightarrow> ch = length (reply_chans c) \<and> length (reply_chans c') = Suc ch)"
proof -
  obtain ch err where "r = (ch, err)" by (cases r)
  with assms have "Client_Send msg c = ((ch, err), c', msg')" by simp
  then show ?thesis using \<open>r = (ch, err)\<close> by (cases rule: Client_Send_cases) (auto dest: send_out_fields)
qed

lemma deliver_ok: "client_inv c \<Longrightarrow> client_inv (split_deliver s c) \<and> length (reply_chans (split_deliver s c)) = length (reply_chans c)"
  by (cases s) (auto simp: client_inv_def)

lemma xc_ok_step: "xc_step x y \<Longrightarrow> xc_ok x \<Longrightarrow> xc_ok y"
proof (induction rule: xc_step.induct)
  case (evals x)
  then show ?case by (auto simp: xc_ok_def split_eval_def split: option.splits)
next
  case (gets x msgp s c)
  then show ?case using split_receive_ok [OF gets(2)] by (auto simp: xc_ok_def)
next
  case (handles x m)
  then show ?case using deliver_ok [of "xc_client x" "xc_split x"] by (auto simp: xc_ok_def)
next
  case (replies x ch m)
  then show ?case using deliver_ok [of "xc_client x" "xc_split x"] by (auto simp: xc_ok_def requester_returns_def)
next
  case (ends x removeClient cache k cache' conn c)
  then show ?case using split_end_Ret [OF ends(2)] by (auto simp: xc_ok_def client_inv_def close_all_length)
next
  case (asks msg x ch c msg')
  then show ?case using client_inv_Send [OF _ asks(1)] Client_Send_length [OF asks(1)] by (fastforce simp: xc_ok_def)
next
  case (sends msg x r c msg')
  then show ?case using client_inv_Send [OF _ sends(1)] Client_Send_length [OF sends(1)] by (fastforce simp: xc_ok_def)
next
  case (shuts removeClient cache k x cache' conn c)
  then show ?case using Client_Close_Ret [OF shuts(1)] by (auto simp: xc_ok_def client_inv_def)
qed (auto simp: xc_ok_def requester_returns_def)

interpretation exchanges: invariant_system xc_start xc_step xc_ok
proof unfold_locales
  show "xc_start x \<Longrightarrow> xc_ok x" for x by (auto simp: xc_start_def xc_ok_def NewClient_def client_inv_def)
qed (rule xc_ok_step)

lemma xc_reach_ok: "xc_reach x \<Longrightarrow> xc_ok x"
  unfolding xc_reach_def using exchanges.reach_inv by blast

lemma xc_reach_steps: "xc_reach x \<Longrightarrow> xc_step\<^sup>*\<^sup>* x y \<Longrightarrow> xc_reach y"
  unfolding xc_reach_def by (meson rtranclp_trans)

subsection \<open>A message that nobody takes\<close>

text \<open>
  The goroutine is in a send whose channel nobody receives from: the channel of a requester that has returned, or the channel of requests
  when there is no handler.
\<close>

definition nobody_takes :: "splitter \<Rightarrow> exchange \<Rightarrow> bool" where
  "nobody_takes s x \<longleftrightarrow> xc_split x = s \<and>
     (case s of ToRequester ch m \<Rightarrow> ch < length (reply_chans (xc_client x)) \<and> ch \<notin> set (xc_waiting x)
      | ToHandler m \<Rightarrow> \<not> xc_handler x
      | _ \<Rightarrow> False)"

text \<open>No message is handed on: channels are at most added, and those are empty.\<close>

definition nothing_new :: "exchange \<Rightarrow> exchange \<Rightarrow> bool" where
  "nothing_new x y \<longleftrightarrow> requests (xc_client y) = requests (xc_client x)
     \<and> (\<exists>n. reply_chans (xc_client y) = reply_chans (xc_client x) @ replicate n new_chan)"

lemma nothing_new_refl [simp]: "nothing_new x x"
  by (auto simp: nothing_new_def intro: exI [of _ 0])

lemma nothing_new_trans: "nothing_new x y \<Longrightarrow> nothing_new y z \<Longrightarrow> nothing_new x z"
  by (auto simp: nothing_new_def replicate_add [symmetric])

text \<open>
  Nobody ever takes it: a requester that comes later receives from the channel of its own request, which is a new one, and no handler
  is started again.
\<close>

lemma nobody_takes_step:
  assumes "nobody_takes s x" and "xc_step x y"
  shows "nobody_takes s y \<and> nothing_new x y"
  using assms(2,1)
proof cases
  case (asks msg ch c msg')
  have "ch = length (reply_chans (xc_client x))" using Client_Send_length [OF asks(2)] by simp
  then show ?thesis using assms(1) asks(1) Client_Send_chans [OF asks(2)]
    by (auto simp: nobody_takes_def nothing_new_def split: splitter.splits)
next
  case (sends msg r c msg')
  then show ?thesis using assms(1) Client_Send_chans [OF sends(2)]
    by (auto simp: nobody_takes_def nothing_new_def split: splitter.splits)
next
  case (shuts removeClient cache k cache' conn c)
  then show ?thesis using assms(1) Client_Close_Ret [OF shuts(2)]
    by (auto simp: nobody_takes_def nothing_new_def split: splitter.splits)
qed (use assms(1) in \<open>auto simp: nobody_takes_def nothing_new_def requester_returns_def split: splitter.splits\<close>)

interpretation stalling: monotone_system "nobody_takes s" xc_step "nobody_takes s" nothing_new for s
  by unfold_locales (auto dest: nobody_takes_step intro: nothing_new_trans)

lemma stalled_for_good:
  assumes "nobody_takes s x" and "xc_step\<^sup>*\<^sup>* x y"
  shows "nobody_takes s y \<and> nothing_new x y"
  using stalling.steps_inv [OF assms(2,1)] stalling.steps_le [OF assms(2,1)] by blast

subsection \<open>Closing under the loop\<close>

text \<open>
  Closing a client while its loop waits for a message lets the loop end in order, once the channel of the connection is closed: it closes
  the channels and returns. Closing it while the loop hands a message on, or before it evaluates the channel, makes the loop
  panic in its next turn, because the connection is nil then.
\<close>

lemma close_under_the_loop:
  assumes "Client_Close removeClient cache k (xc_client x) = Ret (cache', conn, c)" and "life_inv (xc_client x)" and "\<not> cl_isClosed (xc_client x)"
  shows "xc_split x = Receiving \<Longrightarrow> \<exists>y. xc_step\<^sup>*\<^sup>* x y \<and> xc_split y = Finished \<and> cl_isClosed (xc_client y) \<and> ch_closed (requests (xc_client y))"
    and "xc_split x = Evaluating \<Longrightarrow> xc_step\<^sup>*\<^sup>* x (x\<lparr>xc_client := c, xc_split := Crashed\<rparr>)"
proof -
  note closed = Client_Close_Ret [OF assms(1)]
  have shut: "xc_step x (x\<lparr>xc_client := c\<rparr>)" using assms(1) by (rule xc_step.shuts)
  {
    assume "xc_split x = Receiving"
    then have "xc_step (x\<lparr>xc_client := c\<rparr>) (x\<lparr>xc_client := c, xc_split := LoopLeft\<rparr>)"
      using xc_step.gets [of "x\<lparr>xc_client := c\<rparr>" None LoopLeft c] by (simp add: split_receive_def)
    moreover obtain cache2 conn2 c2 where e: "split_end removeClient cache k c = Ret (cache2, conn2, c2)"
      using closed by (simp add: split_end_def Let_def)
    then have "xc_step (x\<lparr>xc_client := c, xc_split := LoopLeft\<rparr>) (x\<lparr>xc_client := c2, xc_split := Finished\<rparr>)"
      using xc_step.ends [of "x\<lparr>xc_client := c, xc_split := LoopLeft\<rparr>" removeClient cache k cache2 conn2 c2] by simp
    ultimately have "xc_step\<^sup>*\<^sup>* x (x\<lparr>xc_client := c2, xc_split := Finished\<rparr>)"
      using shut by (meson converse_rtranclp_into_rtranclp rtranclp.rtrancl_refl)
    then show "\<exists>y. xc_step\<^sup>*\<^sup>* x y \<and> xc_split y = Finished \<and> cl_isClosed (xc_client y) \<and> ch_closed (requests (xc_client y))"
      using split_end_Ret [OF e] by (intro exI [of _ "x\<lparr>xc_client := c2, xc_split := Finished\<rparr>"]) simp
  }
  assume "xc_split x = Evaluating"
  then have "xc_step (x\<lparr>xc_client := c\<rparr>) (x\<lparr>xc_client := c, xc_split := Crashed\<rparr>)"
    using xc_step.evals [of "x\<lparr>xc_client := c\<rparr>"] closed assms(3) by (simp add: split_eval_def)
  with shut show "xc_step\<^sup>*\<^sup>* x (x\<lparr>xc_client := c, xc_split := Crashed\<rparr>)" by (meson converse_rtranclp_into_rtranclp rtranclp.rtrancl_refl)
qed

subsection \<open>Properties\<close>

text \<open>
  C17. A reply that comes after its request timed out blocks the client for good. The requester has returned and left its channel
  registered, so the splitting goroutine, when the reply arrives, finds the channel and stops in the send to it. Whatever happens
  from then on, also closing the client, the goroutine stays in that send, because later requesters receive from channels of their own:
  no reply and no request that arrives is ever handed on, although requests can still be sent. Had the reply come in time, it would have
  been handed on and the loop would have gone on.
\<close>

theorem late_reply_stalls:
  assumes "xc_reach x" and "xc_split x = Receiving" and "Client_Send msg (xc_client x) = ((Some ch, None), c, msg')"
    and "mMessageType (m :: Message) = MessageTypeReply" and "mRequestID m = mRequestID msg'"
    and "asked = x\<lparr>xc_client := c, xc_waiting := ch # xc_waiting x\<rparr>"
  shows "xc_step x asked
    \<and> (\<exists>timed_out stalled. xc_step asked timed_out \<and> timed_out = requester_returns ch asked \<and> xc_step timed_out stalled
        \<and> stalled = timed_out\<lparr>xc_client := snd (split_receive (Some m) c), xc_split := ToRequester ch m\<rparr>
        \<and> (\<forall>y. xc_step\<^sup>*\<^sup>* stalled y \<longrightarrow> xc_split y = ToRequester ch m \<and> ch \<notin> set (xc_waiting y) \<and> nothing_new asked y))
    \<and> (\<exists>y. xc_step\<^sup>*\<^sup>* asked y \<and> xc_split y = Evaluating \<and> ch_msgs (reply_chans (xc_client y) ! ch) = [m])"
proof (intro conjI)
  have ok: "xc_ok x" using assms(1) by (rule xc_reach_ok)
  have w: "waiting (mRequestID m) ch c" using Client_Send_waiting [OF _ assms(3)] ok assms(5) by (simp add: xc_ok_def)
  then have rec: "split_receive (Some m) c = (ToRequester ch m, c\<lparr>openReplies := AList.delete (mRequestID m) (openReplies c)\<rparr>)"
    using assms(4) by (simp add: split_receive_def waiting_def)
  have ch: "ch < length (reply_chans c)" using w unfolding waiting_def client_inv_def by blast
  show "xc_step x asked" unfolding assms(6) by (rule xc_step.asks [OF assms(3)])
  let ?c = "snd (split_receive (Some m) c)"
  {
    let ?t = "requester_returns ch asked"
    let ?s = "?t\<lparr>xc_client := ?c, xc_split := ToRequester ch m\<rparr>"
    have "xc_step asked ?t" by (rule xc_step.times_out) (simp add: assms(6))
    moreover have "xc_step ?t ?s" by (rule xc_step.gets [where msgp = "Some m"]) (simp_all add: requester_returns_def assms(2,6) rec)
    moreover have "nobody_takes (ToRequester ch m) ?s" "nothing_new asked ?s"
      using ch by (simp_all add: nobody_takes_def nothing_new_def requester_returns_def assms(6) rec)
    then have "\<forall>y. xc_step\<^sup>*\<^sup>* ?s y \<longrightarrow> xc_split y = ToRequester ch m \<and> ch \<notin> set (xc_waiting y) \<and> nothing_new asked y"
      using stalled_for_good [of "ToRequester ch m" ?s] nothing_new_trans by (auto simp: nobody_takes_def)
    ultimately show "\<exists>timed_out stalled. xc_step asked timed_out \<and> timed_out = requester_returns ch asked \<and> xc_step timed_out stalled
        \<and> stalled = timed_out\<lparr>xc_client := ?c, xc_split := ToRequester ch m\<rparr>
        \<and> (\<forall>y. xc_step\<^sup>*\<^sup>* stalled y \<longrightarrow> xc_split y = ToRequester ch m \<and> ch \<notin> set (xc_waiting y) \<and> nothing_new asked y)" by blast
  }
  let ?r = "asked\<lparr>xc_client := ?c, xc_split := ToRequester ch m\<rparr>"
  have "xc_step asked ?r" by (rule xc_step.gets [where msgp = "Some m"]) (simp_all add: assms(2,6) rec)
  moreover have "xc_step ?r (requester_returns ch (?r\<lparr>xc_client := split_deliver (ToRequester ch m) ?c, xc_split := Evaluating\<rparr>))"
    using xc_step.replies [of ?r ch m] by (simp add: assms(6))
  ultimately have "xc_step\<^sup>*\<^sup>* asked (requester_returns ch (?r\<lparr>xc_client := split_deliver (ToRequester ch m) ?c, xc_split := Evaluating\<rparr>))" by simp
  then show "\<exists>y. xc_step\<^sup>*\<^sup>* asked y \<and> xc_split y = Evaluating \<and> ch_msgs (reply_chans (xc_client y) ! ch) = [m]"
    using w ch by (auto simp: requester_returns_def rec chan_send_def waiting_def intro!: exI)
qed

text \<open>A client that was dialed: its first request times out, and its reply comes late.\<close>

theorem late_reply_stalls_witness:
  "\<exists>stalled. xc_step\<^sup>*\<^sup>* \<lparr>xc_client = NewClient demo_conn, xc_split = Evaluating, xc_waiting = [], xc_handler = False\<rparr> stalled
     \<and> (\<forall>y. xc_step\<^sup>*\<^sup>* stalled y \<longrightarrow> xc_split y = ToRequester 0 demo_reply \<and> (\<exists>n. reply_chans (xc_client y) = replicate n new_chan))"
proof -
  obtain c msg' where s: "Client_Send demo_msg (NewClient demo_conn) = ((Some 0, None), c, msg')" "mRequestID msg' = 1" "reply_chans c = [new_chan]"
    using demo_client_send by blast
  let ?new = "\<lparr>xc_client = NewClient demo_conn, xc_split = Evaluating, xc_waiting = [], xc_handler = False\<rparr>"
  let ?x = "?new\<lparr>xc_split := Receiving\<rparr>" and ?asked = "?new\<lparr>xc_split := Receiving, xc_client := c, xc_waiting := [0]\<rparr>"
  have "split_eval (NewClient demo_conn) = Receiving" by (simp add: split_eval_def NewClient_def)
  with xc_step.evals [of ?new] have x: "xc_step ?new ?x" by simp
  have "xc_start ?new" unfolding xc_start_def by blast
  with x have "xc_reach ?x" unfolding xc_reach_def by blast
  moreover have "mMessageType demo_reply = MessageTypeReply" "mRequestID demo_reply = 1"
    by (simp_all add: demo_reply_def NewResponseMessage_def message_setters)
  ultimately obtain timed_out stalled where st: "xc_step ?x ?asked" "xc_step ?asked timed_out" "xc_step timed_out stalled"
    "\<forall>y. xc_step\<^sup>*\<^sup>* stalled y \<longrightarrow> xc_split y = ToRequester 0 demo_reply \<and> 0 \<notin> set (xc_waiting y) \<and> nothing_new ?asked y"
    using late_reply_stalls [of ?x demo_msg 0 c msg' demo_reply ?asked] s(1,2) by auto
  have "\<exists>n. reply_chans (xc_client y) = replicate n new_chan" if "xc_step\<^sup>*\<^sup>* stalled y" for y
    using st(4) that s(3) by (auto simp: nothing_new_def simp flip: replicate_Suc)
  moreover have "xc_step\<^sup>*\<^sup>* ?new stalled" using x st(1-3) by (meson converse_rtranclp_into_rtranclp rtranclp.rtrancl_refl)
  ultimately show ?thesis using st(4) by blast
qed

end
