(* ===== verification/Refresher.thy ===== *)
theory Refresher
  imports ServiceCache Config
begin

text \<open>
  The cache refresher (\<^verbatim>\<open>scamp/refresher.go\<close>) and the initialisation of the package (\<^verbatim>\<open>scamp/init.go\<close>).

  The ticker \<^verbatim>\<open>due\<close> has a channel with room for one tick: it is whether a tick is waiting. The background
  goroutine of \<^verbatim>\<open>Run\<close> is given by its turns. What \<^verbatim>\<open>Refresh\<close> needs is the record \<open>source\<close>: the rune table of
  \<^verbatim>\<open>ToLower\<close>, the validation of proxies and the file system at the time of the call.
\<close>

record RefresherOptions =
  WaitDuration :: "goint option"
  opt_Reactive :: bool

record CacheRefresher =
  rf_cache :: ServiceCache
  rf_cancel :: bool
  running :: "32 word"
  tick_waiting :: bool
  initialRefresh :: bool
  rf_options :: RefresherOptions

record source =
  src_lower :: "nat \<Rightarrow> nat"
  src_validate :: "serviceProxy \<Rightarrow> bool"
  src_file :: "bytes \<Rightarrow> cache_file"

definition five_seconds :: goint where "five_seconds = 5000000000"

text \<open>\<^verbatim>\<open>time.NewTicker\<close> panics for a duration that is not positive.\<close>

definition NewCacheRefresher :: "ServiceCache \<Rightarrow> RefresherOptions \<Rightarrow> CacheRefresher go" where
  "NewCacheRefresher cache options =
     (let waitDuration = (case WaitDuration options of None \<Rightarrow> five_seconds | Some d \<Rightarrow> d) in
      if sint waitDuration \<le> 0 then Panic ''non-positive interval for NewTicker''
      else Ret \<lparr>rf_cache = cache, rf_cancel = False, running = 0, tick_waiting = False, initialRefresh = False,
        rf_options = options\<rparr>)"

definition Reactive :: "CacheRefresher \<Rightarrow> bool" where "Reactive r = opt_Reactive (rf_options r)"

definition Running :: "CacheRefresher \<Rightarrow> bool" where "Running r = (sint (running r) > 0)"

text \<open>The ticker fires; a tick that is already waiting is not doubled.\<close>

definition tick :: "CacheRefresher \<Rightarrow> CacheRefresher" where "tick r = r\<lparr>tick_waiting := True\<rparr>"

subsection \<open>Refreshing\<close>

definition refresh_cache :: "source \<Rightarrow> CacheRefresher \<Rightarrow> (refresh_error option \<times> CacheRefresher) go" where
  "refresh_cache src r = go_bind (Refresh (src_lower src) (src_validate src) (src_file src) (rf_cache r))
     (\<lambda>(e, cache). Ret (e, r\<lparr>rf_cache := cache\<rparr>))"

text \<open>The error is only logged.\<close>

definition markRefresh :: "source \<Rightarrow> CacheRefresher \<Rightarrow> CacheRefresher go" where
  "markRefresh src r = go_bind (refresh_cache src r) (\<lambda>(e, r1). Ret (r1\<lparr>initialRefresh := True\<rparr>))"

definition Due :: "CacheRefresher \<Rightarrow> bool \<times> CacheRefresher" where
  "Due r =
     (if \<not> initialRefresh r then (True, r)
      else if tick_waiting r then (True, r\<lparr>tick_waiting := False\<rparr>)
      else (False, r))"

definition ReactiveRefresh :: "source \<Rightarrow> CacheRefresher \<Rightarrow> CacheRefresher go" where
  "ReactiveRefresh src r =
     (if Reactive r then (case Due r of (due, r1) \<Rightarrow> if due then markRefresh src r1 else Ret r1) else Ret r)"

subsection \<open>The background goroutine\<close>

text \<open>\<^verbatim>\<open>Run\<close>: whether the goroutine was started.\<close>

definition Run :: "CacheRefresher \<Rightarrow> bool \<times> CacheRefresher" where
  "Run r =
     (if Reactive r then (False, r)
      else if running r \<noteq> 0 then (False, r)
      else (True, r\<lparr>running := 1, rf_cancel := True\<rparr>))"

text \<open>Its first action, its turn when a tick is waiting, and its end when the context is done.\<close>

definition background_start :: "source \<Rightarrow> CacheRefresher \<Rightarrow> CacheRefresher go" where
  "background_start src r = markRefresh src r"

definition background_turn :: "source \<Rightarrow> CacheRefresher \<Rightarrow> CacheRefresher go" where
  "background_turn src r = (if tick_waiting r then markRefresh src (r\<lparr>tick_waiting := False\<rparr>) else Ret r)"

definition background_end :: "CacheRefresher \<Rightarrow> CacheRefresher" where
  "background_end r = r\<lparr>running := running r - 1\<rparr>"

text \<open>
  \<^verbatim>\<open>Stop\<close> cancels the context, and waits until the goroutine has ended (its last turn is \<open>background_end\<close>). A
  goroutine whose context cannot be cancelled is waited for for ever.
\<close>

definition Refresher_Stop :: "CacheRefresher \<Rightarrow> CacheRefresher go" where
  "Refresher_Stop r =
     (if Running r then (if rf_cancel r then Ret ((background_end r)\<lparr>rf_cancel := False\<rparr>) else Deadlock)
      else Ret (r\<lparr>rf_cancel := False\<rparr>))"

subsection \<open>The operations of the cache\<close>

definition Refresher_DisableRecordVerification :: "CacheRefresher \<Rightarrow> CacheRefresher" where
  "Refresher_DisableRecordVerification r = r\<lparr>rf_cache := DisableRecordVerification (rf_cache r)\<rparr>"

definition Refresher_EnableRecordVerification :: "CacheRefresher \<Rightarrow> CacheRefresher" where
  "Refresher_EnableRecordVerification r = r\<lparr>rf_cache := EnableRecordVerification (rf_cache r)\<rparr>"

definition Refresher_Store :: "source \<Rightarrow> serviceProxy \<Rightarrow> CacheRefresher \<Rightarrow> CacheRefresher" where
  "Refresher_Store src sp r = r\<lparr>rf_cache := Store (src_lower src) sp (rf_cache r)\<rparr>"

text \<open>A query refreshes first and then asks the cache.\<close>

definition query :: "source \<Rightarrow> (ServiceCache \<Rightarrow> 'a) \<Rightarrow> CacheRefresher \<Rightarrow> ('a \<times> CacheRefresher) go" where
  "query src f r = go_bind (ReactiveRefresh src r) (\<lambda>r1. Ret (f (rf_cache r1), r1))"

definition Refresher_ActionList :: "source \<Rightarrow> CacheRefresher \<Rightarrow> (bytes list \<times> CacheRefresher) go" where
  "Refresher_ActionList src r = query src ActionList r"

definition Refresher_Retrieve :: "source \<Rightarrow> bytes \<Rightarrow> CacheRefresher \<Rightarrow> (serviceProxy option \<times> CacheRefresher) go" where
  "Refresher_Retrieve src idn r = query src (Retrieve idn) r"

definition Refresher_SearchByAction ::
  "source \<Rightarrow> bytes \<Rightarrow> bytes \<Rightarrow> goint \<Rightarrow> bytes \<Rightarrow> CacheRefresher \<Rightarrow> ((serviceProxy list \<times> gerror option) \<times> CacheRefresher) go" where
  "Refresher_SearchByAction src sct action ver envelope r = query src (SearchByAction (src_lower src) sct action ver envelope) r"

definition Refresher_Size :: "source \<Rightarrow> CacheRefresher \<Rightarrow> (nat \<times> CacheRefresher) go" where
  "Refresher_Size src r = query src Size r"

definition Refresher_All :: "source \<Rightarrow> CacheRefresher \<Rightarrow> (serviceProxy list \<times> CacheRefresher) go" where
  "Refresher_All src r = query src All_cache r"

definition Refresher_Refresh :: "source \<Rightarrow> CacheRefresher \<Rightarrow> (refresh_error option \<times> CacheRefresher) go" where
  "Refresher_Refresh src r = refresh_cache src r"

definition Refresher_DoScan :: "source \<Rightarrow> scanner \<Rightarrow> CacheRefresher \<Rightarrow> (scan_error option \<times> CacheRefresher) go" where
  "Refresher_DoScan src s r = go_bind (DoScan (src_lower src) (src_validate src) s (rf_cache r))
     (\<lambda>(e, cache). Ret (e, r\<lparr>rf_cache := cache\<rparr>))"

subsection \<open>Initialisation\<close>

datatype init_error = ConfigError gerror | NoCachePath | CacheError refresh_error

text \<open>The package variables \<^verbatim>\<open>defaultConfig\<close> and \<^verbatim>\<open>DefaultCache\<close> after \<^verbatim>\<open>Initialize\<close>, with its error.\<close>

definition Initialize ::
  "source \<Rightarrow> (bytes \<Rightarrow> gerror + bytes) \<Rightarrow> bytes \<Rightarrow> RefresherOptions \<Rightarrow> CacheRefresher option
    \<Rightarrow> (init_error option \<times> Config \<times> CacheRefresher option) go" where
  "Initialize src openFile configPath options defaultCache = (case initConfig openFile configPath of
     (Some e, conf) \<Rightarrow> Ret (Some (ConfigError e), conf, defaultCache)
   | (None, conf) \<Rightarrow> (case Get ''discovery.cache_path'' conf of
       (cachePath, found) \<Rightarrow>
         if \<not> found then Ret (Some NoCachePath, conf, defaultCache)
         else go_bind (NewServiceCache (src_lower src) (src_validate src) (src_file src) cachePath) (\<lambda>(e, cache).
           case e of
             Some e' \<Rightarrow> Ret (Some (CacheError e'), conf, defaultCache)
           | None \<Rightarrow> go_bind (NewCacheRefresher cache options) (\<lambda>r. Ret (None, conf, Some r)))))"

subsection \<open>Histories of a refresher\<close>

text \<open>Ticks of the ticker, and queries with the file as it is at that time; how often the file was read.\<close>

datatype rf_event = Ticked | Asked source

definition will_refresh :: "CacheRefresher \<Rightarrow> bool" where
  "will_refresh r \<longleftrightarrow> Reactive r \<and> (\<not> initialRefresh r \<or> tick_waiting r)"

fun rf_events :: "rf_event list \<Rightarrow> CacheRefresher \<Rightarrow> (nat \<times> CacheRefresher) go" where
  "rf_events [] r = Ret (0, r)"
| "rf_events (Ticked # evs) r = rf_events evs (tick r)"
| "rf_events (Asked src # evs) r = go_bind (ReactiveRefresh src r) (\<lambda>r1.
     go_bind (rf_events evs r1) (\<lambda>(n, r2). Ret ((if will_refresh r then Suc n else n), r2)))"

lemma ReactiveRefresh_idle: "\<not> will_refresh r \<Longrightarrow> ReactiveRefresh src r = Ret r"
  by (auto simp: ReactiveRefresh_def will_refresh_def Due_def)

text \<open>A first refresh leaves a waiting tick where it is; a later one takes it.\<close>

lemma ReactiveRefresh_due:
  assumes "will_refresh r"
  shows "ReactiveRefresh src r = go_bind (Refresh (src_lower src) (src_validate src) (src_file src) (rf_cache r))
    (\<lambda>(e, cache). Ret (r\<lparr>rf_cache := cache, initialRefresh := True, tick_waiting := tick_waiting r \<and> \<not> initialRefresh r\<rparr>))"
  using assms
  by (auto simp: ReactiveRefresh_def will_refresh_def Due_def markRefresh_def refresh_cache_def go_bind_assoc
      intro!: arg_cong [of _ _ "go_bind _"] ext split: prod.splits)

definition may_refresh :: "CacheRefresher \<Rightarrow> nat" where
  "may_refresh r = (if initialRefresh r then 0 else 1) + (if tick_waiting r then 1 else 0)"

lemma may_refresh_step:
  assumes "ReactiveRefresh src r = Ret r'"
  shows "(if will_refresh r then 1 else 0) + may_refresh r' \<le> may_refresh r" and "Reactive r' = Reactive r"
proof -
  have "(\<not> will_refresh r \<and> r' = r)
    \<or> (will_refresh r \<and> (\<exists>cache. r' = r\<lparr>rf_cache := cache, initialRefresh := True, tick_waiting := tick_waiting r \<and> \<not> initialRefresh r\<rparr>))"
  proof (cases "will_refresh r")
    case True
    with assms show ?thesis by (auto simp: ReactiveRefresh_due go_bind_Ret_conv)
  qed (use assms in \<open>simp add: ReactiveRefresh_idle\<close>)
  then show "(if will_refresh r then 1 else 0) + may_refresh r' \<le> may_refresh r" and "Reactive r' = Reactive r"
    by (auto simp: may_refresh_def will_refresh_def Reactive_def)
qed

lemma rf_events_bound:
  "rf_events evs r = Ret (n, r') \<Longrightarrow> n \<le> may_refresh r + length (filter (\<lambda>ev. ev = Ticked) evs)"
proof (induction evs r arbitrary: n rule: rf_events.induct)
  case (2 evs r)
  have "may_refresh (tick r) \<le> Suc (may_refresh r)" by (simp add: may_refresh_def tick_def)
  with 2 show ?case by fastforce
next
  case (3 src evs r)
  then obtain r1 n1 where r1: "ReactiveRefresh src r = Ret r1" "rf_events evs r1 = Ret (n1, r')"
    "n = (if will_refresh r then Suc n1 else n1)" by (auto simp: go_bind_Ret_conv)
  with "3.IH" [OF r1(2)] may_refresh_step(1) [OF r1(1)] show ?case by (auto split: if_splits)
qed simp

lemma rf_events_passive:
  "\<not> Reactive r \<Longrightarrow> \<exists>r'. rf_events evs r = Ret (0, r') \<and> rf_cache r' = rf_cache r"
proof (induction evs r rule: rf_events.induct)
  case (2 evs r)
  then have "\<not> Reactive (tick r)" by (simp add: Reactive_def tick_def)
  with 2 show ?case by (auto simp: tick_def)
next
  case (3 src evs r)
  then have "\<not> will_refresh r" by (simp add: will_refresh_def)
  with 3 show ?case by (auto simp: ReactiveRefresh_idle go_bind_Ret_conv)
qed simp

subsection \<open>Properties\<close>

text \<open>
  C19. A reactive refresher reads the file when it must and not more often: a query that is due answers from
  the file as it is at that moment, also if reading it reports an error; until the next tick queries
  answer from the same cache whatever the file holds; and in any history the file is read at most once
  at the beginning and once per tick.
\<close>

theorem refresh_rate:
  assumes "Reactive r"
  shows "(will_refresh r \<longrightarrow> query src f r = go_bind (Refresh (src_lower src) (src_validate src) (src_file src) (rf_cache r))
      (\<lambda>(e, cache). Ret (f cache, r\<lparr>rf_cache := cache, initialRefresh := True, tick_waiting := tick_waiting r \<and> \<not> initialRefresh r\<rparr>)))
    \<and> (\<not> will_refresh r \<longrightarrow> query src f r = Ret (f (rf_cache r), r))
    \<and> (rf_events evs r = Ret (n, r') \<longrightarrow> n \<le> may_refresh r + length (filter (\<lambda>ev. ev = Ticked) evs))"
  using ReactiveRefresh_due [of r src] ReactiveRefresh_idle [of r src] rf_events_bound [of evs r n r']
  by (auto simp: query_def go_bind_assoc intro!: arg_cong [of _ _ "go_bind _"] ext split: prod.splits)

definition demo_source :: "cache_file \<Rightarrow> source" where
  "demo_source file = \<lparr>src_lower = (\<lambda>r. r), src_validate = (\<lambda>sp. True), src_file = (\<lambda>_. file)\<rparr>"

definition demo_refresher :: CacheRefresher where
  "demo_refresher = \<lparr>rf_cache = emptyCache ''/cache'', rf_cancel = False, running = 0, tick_waiting = False, initialRefresh = False,
     rf_options = \<lparr>WaitDuration = None, opt_Reactive = True\<rparr>\<rparr>"

theorem refresh_rate_witness:
  "\<exists>r'. query (demo_source Directory) Size demo_refresher = Ret (0, r') \<and> initialRefresh r'
     \<and> (\<exists>r''. rf_events [Asked (demo_source Directory), Asked (demo_source Directory), Ticked, Asked (demo_source Directory)] demo_refresher = Ret (2, r''))"
proof -
  have r: "Reactive demo_refresher" by (simp add: Reactive_def demo_refresher_def)
  have "\<exists>r''. rf_events [Asked (demo_source Directory), Asked (demo_source Directory), Ticked, Asked (demo_source Directory)] demo_refresher = Ret (2, r'')"
    by (simp add: ReactiveRefresh_def Due_def markRefresh_def refresh_cache_def Refresh_def demo_source_def demo_refresher_def
        will_refresh_def Reactive_def tick_def)
  moreover have "will_refresh demo_refresher" by (simp add: will_refresh_def Reactive_def demo_refresher_def)
  ultimately show ?thesis using refresh_rate [OF r, of "demo_source Directory" Size]
    by (auto simp: Refresh_def demo_source_def demo_refresher_def Size_def emptyCache_def)
qed

text \<open>
  Initialising with the zero options (no wait duration, \<^verbatim>\<open>Reactive\<close> not set) gives a cache that is
  never refreshed: every later query, whatever happens to the file, answers from what was loaded at the
  start. (\<^verbatim>\<open>Initialize\<close> does not start the background goroutine either.)
\<close>

lemma zero_options_never_refresh:
  assumes "Initialize src openFile configPath \<lparr>WaitDuration = None, opt_Reactive = False\<rparr> dc = Ret (None, conf, Some r)"
  shows "NewServiceCache (src_lower src) (src_validate src) (src_file src) (fst (Get ''discovery.cache_path'' conf)) = Ret (None, rf_cache r)
    \<and> \<not> Running r \<and> (\<exists>r'. rf_events evs r = Ret (0, r') \<and> query src' f r' = Ret (f (rf_cache r), r'))"
proof -
  have load: "NewServiceCache (src_lower src) (src_validate src) (src_file src) (fst (Get ''discovery.cache_path'' conf)) = Ret (None, rf_cache r)"
    and r: "rf_options r = \<lparr>WaitDuration = None, opt_Reactive = False\<rparr>" "running r = 0"
    using assms
    by (auto simp: Initialize_def NewCacheRefresher_def go_bind_Ret_conv Let_def split: prod.splits option.splits if_splits)
  have p: "\<not> Reactive r" using r by (simp add: Reactive_def)
  have keep: "\<not> Reactive r' " if "rf_events evs r = Ret (n, r')" "\<not> Reactive r" for n r' evs r
    using that
  proof (induction evs r arbitrary: n rule: rf_events.induct)
    case (2 evs r)
    then show ?case by (auto simp: tick_def Reactive_def)
  next
    case (3 src evs r)
    then obtain r1 n1 where "ReactiveRefresh src r = Ret r1" "rf_events evs r1 = Ret (n1, r')" by (auto simp: go_bind_Ret_conv)
    with 3 may_refresh_step(2) show ?case by blast
  qed simp
  obtain r' where "rf_events evs r = Ret (0, r')" "rf_cache r' = rf_cache r" using rf_events_passive [OF p] by blast
  moreover from keep [OF this(1) p] have "\<not> will_refresh r'" by (simp add: will_refresh_def)
  ultimately show ?thesis using load r by (auto simp: Running_def query_def ReactiveRefresh_idle)
qed

end
