(* ===== verification/Requester.thy ===== *)
theory Requester
  imports Client Verify Refresher "HOL-Library.Multiset"
begin

text \<open>
  Making a request (\<^verbatim>\<open>scamp/requester.go\<close>), with what it uses of \<^verbatim>\<open>scamp/serviceproxy.go\<close> (\<^verbatim>\<open>GetClient\<close>),
  \<^verbatim>\<open>scamp/client.go\<close> (\<^verbatim>\<open>Dial\<close>) and \<^verbatim>\<open>scamp/connection.go\<close> (\<^verbatim>\<open>DialConnection\<close>).

  Clients are pointers into a store, numbered in the order of their creation. A proxy is known by its
  address; its field \<^verbatim>\<open>client\<close> is a slot of the pool. What the network does is the record \<open>network\<close>: the host
  of a connection string (\<^verbatim>\<open>url.Parse\<close>) and the outcome of the \<open>n\<close>-th dial.
\<close>

record network =
  url_Host :: "bytes \<Rightarrow> gerror + bytes"
  tls_Dial :: "nat \<Rightarrow> bytes \<Rightarrow> gerror + (bytes list \<times> reader \<times> netconn)"

record pool =
  pool_clients :: "Client list"
  pool_slots :: "nat \<Rightarrow> nat option"
  pool_dials :: nat

subsection \<open>Dialing\<close>

definition raw_fingerprint :: "bytes \<Rightarrow> bytes" where
  "raw_fingerprint raw = sha1FingerPrint \<lparr>cert_Raw = raw, cert_PublicKey = None :: unit option\<rparr>"

definition DialConnection :: "network \<Rightarrow> nat \<Rightarrow> bytes \<Rightarrow> gerror + Connection" where
  "DialConnection net n spec = (case tls_Dial net n spec of
     Inl e \<Rightarrow> Inl e
   | Inr (peerCerts, rd, nc) \<Rightarrow> Inr (NewConnection raw_fingerprint peerCerts rd nc))"

text \<open>The new client is added to the store.\<close>

definition Dial :: "network \<Rightarrow> bytes \<Rightarrow> pool \<Rightarrow> (gerror + nat) \<times> pool" where
  "Dial net spec pool =
     (let pool1 = pool\<lparr>pool_dials := pool_dials pool + 1\<rparr> in
      case DialConnection net (pool_dials pool) spec of
        Inl e \<Rightarrow> (Inl e, pool1)
      | Inr conn \<Rightarrow> (Inr (length (pool_clients pool)), pool1\<lparr>pool_clients := pool_clients pool @ [NewClient conn]\<rparr>))"

definition must_dial :: "nat \<Rightarrow> pool \<Rightarrow> bool" where
  "must_dial addr pool = (case pool_slots pool addr of None \<Rightarrow> True | Some i \<Rightarrow> cl_isClosed (pool_clients pool ! i))"

definition use_client :: "nat \<Rightarrow> serviceProxy \<Rightarrow> pool \<Rightarrow> (gerror + nat) \<times> pool" where
  "use_client addr sp pool = (case pool_slots pool addr of
     None \<Rightarrow> (Inl ''client is nil'', pool)
   | Some i \<Rightarrow> (Inr i, pool\<lparr>pool_clients := (pool_clients pool)[i := (pool_clients pool ! i)\<lparr>spIdent := ident sp\<rparr>]\<rparr>))"

definition GetClient :: "network \<Rightarrow> nat \<Rightarrow> serviceProxy \<Rightarrow> pool \<Rightarrow> (gerror + nat) \<times> pool" where
  "GetClient net addr sp pool =
     (if must_dial addr pool then
        (case url_Host net (connspec sp) of
           Inl e \<Rightarrow> (Inl e, pool)
         | Inr host \<Rightarrow> (case Dial net host pool of
             (Inl e, pool1) \<Rightarrow> (Inl e, pool1\<lparr>pool_slots := (pool_slots pool1)(addr := None)\<rparr>)
           | (Inr i, pool1) \<Rightarrow> use_client addr sp (pool1\<lparr>pool_slots := (pool_slots pool1)(addr := Some i)\<rparr>)))
      else use_client addr sp pool)"

subsection \<open>Choosing a client\<close>

text \<open>The clients of the proxies that have one, and the error of the last that has not.\<close>

fun get_clients :: "network \<Rightarrow> (nat \<times> serviceProxy) list \<Rightarrow> gerror option \<Rightarrow> pool \<Rightarrow> nat list \<times> gerror option \<times> pool" where
  "get_clients net [] err pool = ([], err, pool)"
| "get_clients net ((addr, sp) # sps) err pool = (case GetClient net addr sp pool of
     (Inl e, pool1) \<Rightarrow> get_clients net sps (Some e) pool1
   | (Inr i, pool1) \<Rightarrow> (case get_clients net sps err pool1 of (is, err', pool2) \<Rightarrow> (i # is, err', pool2)))"

text \<open>\<^verbatim>\<open>rand.Shuffle\<close>: from the last position to the second, each is exchanged with a random one not after it.\<close>

definition swap_at :: "nat \<Rightarrow> nat \<Rightarrow> 'a list \<Rightarrow> 'a list" where
  "swap_at i j xs = xs[i := xs ! j, j := xs ! i]"

fun shuffle_from :: "nat \<Rightarrow> (nat \<Rightarrow> nat) \<Rightarrow> 'a list \<Rightarrow> 'a list" where
  "shuffle_from 0 rnd xs = xs"
| "shuffle_from (Suc i) rnd xs = shuffle_from i rnd (swap_at (Suc i) (rnd (Suc i) mod (Suc i + 1)) xs)"

definition rand_Shuffle :: "(nat \<Rightarrow> nat) \<Rightarrow> 'a list \<Rightarrow> 'a list" where
  "rand_Shuffle rnd xs = shuffle_from (length xs - 1) rnd xs"

text \<open>The number of requests of a client that have no reply yet.\<close>

definition depth :: "pool \<Rightarrow> nat \<Rightarrow> nat" where
  "depth pool i = length (openReplies (pool_clients pool ! i))"

text \<open>
  \<^verbatim>\<open>sort.Slice\<close> does not say how it orders clients of the same depth. Because they were shuffled before, a
  stable sort has the same possible outcomes (\<open>shuffle_sort_any\<close>).
\<close>

definition sort_clients :: "(nat \<Rightarrow> nat) \<Rightarrow> pool \<Rightarrow> nat list \<Rightarrow> nat list" where
  "sort_clients rnd pool is = sort_key (depth pool) (rand_Shuffle rnd is)"

fun send_first ::
  "nat list \<Rightarrow> Message \<Rightarrow> gerror option \<Rightarrow> pool \<Rightarrow> ((nat \<times> nat option) option \<times> gerror option) \<times> pool \<times> Message" where
  "send_first [] msg err pool = ((None, err), pool, msg)"
| "send_first (i # is) msg err pool = (case Client_Send msg (pool_clients pool ! i) of
     ((ch, None), c, msg1) \<Rightarrow> ((Some (i, ch), None), pool\<lparr>pool_clients := (pool_clients pool)[i := c]\<rparr>, msg1)
   | ((ch, Some e), c, msg1) \<Rightarrow> send_first is msg1 (Some e) (pool\<lparr>pool_clients := (pool_clients pool)[i := c]\<rparr>))"

subsection \<open>Waiting for the reply\<close>

text \<open>What a turn of the loop receives: a message or nil from the channel, that it is closed, or the timeout.\<close>

datatype wait_event = Received "Message option" | ChanClosed | Timeout

definition MAX_RETRIES :: nat where "MAX_RETRIES = 20"

function retry_loop :: "nat \<Rightarrow> (nat \<Rightarrow> wait_event) \<Rightarrow> gerror + Message" where
  "retry_loop attempts ev =
     (if attempts < MAX_RETRIES then
        (case ev attempts of
           ChanClosed \<Rightarrow> Inl ''no response was found''
         | Received None \<Rightarrow> retry_loop (attempts + 1) ev
         | Received (Some respMsg) \<Rightarrow> Inr respMsg
         | Timeout \<Rightarrow> Inl ''request timed out'')
      else Inl ''no response was found'')"

  by pat_completeness auto
termination by (relation "measure (\<lambda>(attempts, ev). MAX_RETRIES - attempts)") auto

declare retry_loop.simps [simp del]

definition wait_reply :: "nat option \<Rightarrow> (nat \<Rightarrow> wait_event) \<Rightarrow> gerror + Message" where
  "wait_reply responseChan ev = (case responseChan of
     None \<Rightarrow> Inl ''response channel is nil''
   | Some _ \<Rightarrow> retry_loop 0 ev)"

subsection \<open>A request\<close>

definition show_err :: "gerror option \<Rightarrow> bytes" where
  "show_err err = (case err of None \<Rightarrow> ''%!s(<nil>)'' | Some e \<Rightarrow> e)"

fun envelope_name :: "envelopeFormat \<Rightarrow> gerror + bytes" where
  "envelope_name EnvelopeJSON = Inr ''json''"
| "envelope_name EnvelopeJSONSTORE = Inr ''jsonstore''"
| "envelope_name (EnvelopeOther i) = Inl (''unsupported envelope type: `'' @ dec_int i @ ''`'')"

text \<open>
  From the proxies found to the client that took the message: the order of the clients, the client and the
  channel of the reply, or the error.
\<close>

definition dispatch_request ::
  "network \<Rightarrow> (nat \<Rightarrow> nat) \<Rightarrow> bytes \<Rightarrow> bytes \<Rightarrow> (nat \<times> serviceProxy) list \<Rightarrow> Message \<Rightarrow> pool
    \<Rightarrow> (gerror + (nat \<times> nat option)) \<times> pool \<times> Message" where
  "dispatch_request net rnd sct action sps msg pool = (case get_clients net sps None pool of
     (is, err, pool1) \<Rightarrow> (case send_first (sort_clients rnd pool1 is) msg err pool1 of
       ((Some taken, _), pool2, msg1) \<Rightarrow> (Inr taken, pool2, msg1)
     | ((None, err1), pool2, msg1) \<Rightarrow>
         (Inl (''Request failed: '' @ sct @ ''.'' @ action @ '' not found: '' @ show_err err1), pool2, msg1)))"

text \<open>The addresses are those of the proxies that the search gives, in their order.\<close>

definition MakeJSONRequest ::
  "source \<Rightarrow> network \<Rightarrow> (nat \<Rightarrow> nat) \<Rightarrow> (nat \<Rightarrow> wait_event) \<Rightarrow> (serviceProxy list \<Rightarrow> nat list) \<Rightarrow> bytes \<Rightarrow> bytes \<Rightarrow> goint \<Rightarrow> Message
    \<Rightarrow> CacheRefresher option \<Rightarrow> pool \<Rightarrow> ((gerror + Message) \<times> CacheRefresher option \<times> pool \<times> Message) go" where
  "MakeJSONRequest src net rnd ev addrs sct action version msg defaultCache pool = (case envelope_name (mEnvelope msg) of
     Inl e \<Rightarrow> Ret (Inl e, defaultCache, pool, msg)
   | Inr msgType \<Rightarrow> (case defaultCache of
       None \<Rightarrow> Panic nil_deref
     | Some r \<Rightarrow> go_bind (Refresher_SearchByAction src sct action version msgType r) (\<lambda>((sps, err), r1).
         case err of
           Some e \<Rightarrow> Ret (Inl e, Some r1, pool, msg)
         | None \<Rightarrow>
             if sps = [] then
               Ret (Inl (''could not find '' @ sct @ '':'' @ action @ ''~'' @ dec_int version @ ''#'' @ msgType), Some r1, pool, msg)
             else (case dispatch_request net rnd sct action (zip (addrs sps) sps) (SetVersion version (SetAction action msg)) pool of
               (Inl e, pool1, msg1) \<Rightarrow> Ret (Inl e, Some r1, pool1, msg1)
             | (Inr (i, ch), pool1, msg1) \<Rightarrow> Ret (wait_reply ch ev, Some r1, pool1, msg1)))))"

subsection \<open>The order of the clients\<close>

lemma length_swap_at [simp]: "length (swap_at i j xs) = length xs" by (simp add: swap_at_def)

lemma mset_swap_at: "i < length xs \<Longrightarrow> j < length xs \<Longrightarrow> mset (swap_at i j xs) = mset xs"
  unfolding swap_at_def by (rule mset_swap)

lemma mset_shuffle_from: "i < length xs \<Longrightarrow> mset (shuffle_from i rnd xs) = mset xs"
proof (induction i rnd xs rule: shuffle_from.induct)
  case (2 i rnd xs)
  have "rnd (Suc i) mod (Suc i + 1) < length xs" using 2(2) by (intro less_le_trans [OF mod_less_divisor]) auto
  with 2 show ?case by (simp add: mset_swap_at)
qed simp

lemma mset_rand_Shuffle: "mset (rand_Shuffle rnd xs) = mset xs"
  by (cases xs) (simp_all add: rand_Shuffle_def mset_shuffle_from)

lemma shuffle_from_cong: "(\<And>k. k \<le> i \<Longrightarrow> rnd k = rnd' k) \<Longrightarrow> shuffle_from i rnd xs = shuffle_from i rnd' xs"
  by (induction i arbitrary: xs) auto

text \<open>Every permutation of the positions up to \<open>i\<close> is the outcome for some random numbers.\<close>

lemma shuffle_from_onto:
  assumes "mset ys = mset xs" and "i < length xs" and "drop (Suc i) ys = drop (Suc i) xs"
  shows "\<exists>rnd. shuffle_from i rnd xs = ys"
  using assms
proof (induction i arbitrary: xs)
  case 0
  then obtain x y zs where "xs = x # zs" "ys = y # zs" by (cases xs; cases ys) auto
  with 0 show ?case by simp
next
  case (Suc i)
  have len: "length ys = length xs" using Suc.prems(1) by (metis size_mset)
  have "mset (take (Suc (Suc i)) ys) = mset (take (Suc (Suc i)) xs)"
    using Suc.prems(1,3) by (metis append_take_drop_id mset_append union_right_cancel)
  moreover have "ys ! Suc i \<in> set (take (Suc (Suc i)) ys)" using Suc.prems(2) len by (auto simp: in_set_conv_nth)
  ultimately have "ys ! Suc i \<in> set (take (Suc (Suc i)) xs)" by (metis mset_eq_setD)
  then obtain j where j: "j \<le> Suc i" "xs ! j = ys ! Suc i" using Suc.prems(2) by (auto simp: in_set_conv_nth less_Suc_eq_le)
  let ?xs = "swap_at (Suc i) j xs"
  have "?xs ! Suc i = ys ! Suc i" using j Suc.prems(2) by (auto simp: swap_at_def nth_list_update)
  moreover have "drop (Suc (Suc i)) ?xs = drop (Suc (Suc i)) xs" using j by (simp add: swap_at_def drop_update_cancel)
  ultimately have "drop (Suc i) ys = drop (Suc i) ?xs"
    using Suc.prems(2,3) len by (metis Cons_nth_drop_Suc length_swap_at)
  moreover have "mset ys = mset ?xs" using Suc.prems(1,2) j by (simp add: mset_swap_at)
  ultimately obtain rnd where "shuffle_from i rnd ?xs = ys" using Suc.IH [of ?xs] Suc.prems(2) by auto
  moreover have "shuffle_from i (rnd(Suc i := j)) ?xs = shuffle_from i rnd ?xs" by (rule shuffle_from_cong) simp
  ultimately have "shuffle_from (Suc i) (rnd(Suc i := j)) xs = ys" using j(1) by simp
  then show ?case by blast
qed

lemma shuffle_sort_any:
  "range (\<lambda>rnd. sort_clients rnd pool is) = {ys. mset ys = mset is \<and> sorted (map (depth pool) ys)}"
proof (intro equalityI subsetI)
  fix ys assume "ys \<in> {ys. mset ys = mset is \<and> sorted (map (depth pool) ys)}"
  then have ys: "mset ys = mset is" "sorted (map (depth pool) ys)" by auto
  obtain rnd where "rand_Shuffle rnd is = ys"
  proof (cases "is")
    case (Cons i js)
    then have "drop (Suc (length is - 1)) ys = drop (Suc (length is - 1)) is" using ys(1) by (metis drop_all length_Cons diff_Suc_1 size_mset order_refl)
    then show thesis using shuffle_from_onto [OF ys(1), of "length is - 1"] Cons that by (auto simp: rand_Shuffle_def)
  qed (use ys that in \<open>simp add: rand_Shuffle_def\<close>)
  with ys(2) show "ys \<in> range (\<lambda>rnd. sort_clients rnd pool is)"
    by (metis sort_clients_def sort_key_id_if_sorted rangeI)
qed (auto simp: sort_clients_def mset_rand_Shuffle)

subsection \<open>The pool of clients\<close>

text \<open>Slots point into the store, no two proxies share a client, and the tables of open replies are in order.\<close>

definition pool_ok :: "pool \<Rightarrow> bool" where
  "pool_ok pool \<longleftrightarrow> (\<forall>a i. pool_slots pool a = Some i \<longrightarrow> i < length (pool_clients pool))
     \<and> (\<forall>a b i. pool_slots pool a = Some i \<longrightarrow> pool_slots pool b = Some i \<longrightarrow> a = b)
     \<and> list_all client_inv (pool_clients pool)"

definition open_in :: "pool \<Rightarrow> nat \<Rightarrow> bool" where
  "open_in pool i \<longleftrightarrow> i < length (pool_clients pool) \<and> \<not> cl_isClosed (pool_clients pool ! i)"

lemma pool_ok_update:
  assumes "pool_ok pool" and "client_inv c"
  shows "pool_ok (pool\<lparr>pool_clients := (pool_clients pool)[i := c]\<rparr>)"
  using assms set_update_subset_insert [of "pool_clients pool" i c] by (auto simp: pool_ok_def list_all_iff)

lemma open_in_update:
  assumes "open_in pool i" and "cl_isClosed c = cl_isClosed (pool_clients pool ! j)"
  shows "open_in (pool\<lparr>pool_clients := (pool_clients pool)[j := c]\<rparr>) i"
  using assms by (cases "i = j") (auto simp: open_in_def)

lemma client_inv_NewClient [simp]: "client_inv (NewClient conn)"
  by (simp add: client_inv_def NewClient_def)

lemma client_inv_spIdent [simp]: "client_inv (c\<lparr>spIdent := x\<rparr>) = client_inv c"
  by (simp add: client_inv_def)

lemma use_client_ok:
  assumes "pool_ok pool" and "pool_slots pool addr = Some i" and "open_in pool i" and "use_client addr sp pool = (r, pool')"
  shows "r = Inr i \<and> pool_ok pool' \<and> open_in pool' i \<and> pool_slots pool' = pool_slots pool \<and> (\<forall>j. open_in pool j \<longrightarrow> open_in pool' j)"
proof -
  let ?c = "(pool_clients pool ! i)\<lparr>spIdent := ident sp\<rparr>"
  have "client_inv ?c" using assms(1,3) by (simp add: pool_ok_def open_in_def list_all_length)
  with assms show ?thesis by (auto simp: use_client_def pool_ok_update intro!: open_in_update)
qed

lemma GetClient_ok:
  assumes "pool_ok pool" and "GetClient net addr sp pool = (r, pool')"
  shows "pool_ok pool' \<and> (\<forall>j. open_in pool j \<longrightarrow> open_in pool' j)
    \<and> (\<forall>i. r = Inr i \<longrightarrow> open_in pool' i \<and> pool_slots pool' addr = Some i)"
proof (cases "must_dial addr pool")
  case False
  then obtain i where i: "pool_slots pool addr = Some i" "\<not> cl_isClosed (pool_clients pool ! i)"
    by (auto simp: must_dial_def split: option.splits)
  then have "open_in pool i" using assms(1) by (auto simp: pool_ok_def open_in_def)
  with use_client_ok [OF assms(1) i(1)] i(1) assms(2) False show ?thesis by (fastforce simp: GetClient_def)
next
  case True
  consider (url) e where "url_Host net (connspec sp) = Inl e"
    | (fail) host e where "url_Host net (connspec sp) = Inr host" "DialConnection net (pool_dials pool) host = Inl e"
    | (dialed) host conn where "url_Host net (connspec sp) = Inr host" "DialConnection net (pool_dials pool) host = Inr conn"
    by (metis sum.exhaust)
  then show ?thesis
  proof cases
    case dialed
    let ?i = "length (pool_clients pool)"
    let ?p = "pool\<lparr>pool_dials := pool_dials pool + 1, pool_clients := pool_clients pool @ [NewClient conn],
      pool_slots := (pool_slots pool)(addr := Some ?i)\<rparr>"
    have "pool_slots pool a \<noteq> Some ?i" for a using assms(1) by (auto simp: pool_ok_def)
    then have p: "pool_ok ?p" using assms(1) by (simp add: pool_ok_def less_Suc_eq) blast
    have o: "open_in ?p ?i" by (simp add: open_in_def NewClient_def)
    have "use_client addr sp ?p = (r, pool')" using assms(2) dialed True by (simp add: GetClient_def Dial_def Let_def)
    moreover have "open_in pool j \<longrightarrow> open_in ?p j" for j by (simp add: open_in_def nth_append)
    ultimately show ?thesis using use_client_ok [OF p _ o, of addr sp r pool'] by simp
  qed (use assms True in \<open>auto simp: GetClient_def Dial_def Let_def pool_ok_def open_in_def split: if_splits\<close>)
qed

lemma get_clients_ok:
  assumes "pool_ok pool" and "get_clients net sps err pool = (is, err', pool')"
  shows "pool_ok pool' \<and> (\<forall>j. open_in pool j \<longrightarrow> open_in pool' j) \<and> (\<forall>i\<in>set is. open_in pool' i)
    \<and> (is = [] \<and> sps \<noteq> [] \<longrightarrow> err' \<noteq> None) \<and> (err \<noteq> None \<longrightarrow> err' \<noteq> None)"
  using assms
proof (induction net sps err pool arbitrary: "is" rule: get_clients.induct)
  case (2 net addr sp sps err pool)
  obtain r pool1 where g: "GetClient net addr sp pool = (r, pool1)" by (metis prod.exhaust)
  note ok = GetClient_ok [OF "2.prems"(1) g]
  show ?case
  proof (cases r)
    case (Inl e)
    with "2.IH"(1) [OF g [symmetric] Inl] ok "2.prems"(2) g show ?thesis by auto
  next
    case (Inr i)
    obtain js where js: "get_clients net sps err pool1 = (js, err', pool')" "is = i # js"
      using "2.prems"(2) g Inr by (auto split: prod.splits)
    from "2.IH"(2) [OF g [symmetric] Inr _ js(1)] ok Inr js(2) show ?thesis by auto
  qed
qed simp

text \<open>The clients before the one that takes the message refuse it; the others are not touched.\<close>

lemma send_first_sent:
  assumes "send_first is msg err pool = ((Some (i, ch), e), pool', msg')"
  shows "\<exists>before after e1 p m c. is = before @ i # after \<and> send_first before msg err pool = ((None, e1), p, m)
    \<and> Client_Send m (pool_clients p ! i) = ((ch, None), c, msg') \<and> pool' = p\<lparr>pool_clients := (pool_clients p)[i := c]\<rparr>"
  using assms
proof (induction "is" msg err pool rule: send_first.induct)
  case (2 j js msg err pool)
  obtain ch1 e1 c msg1 where s: "Client_Send msg (pool_clients pool ! j) = ((ch1, e1), c, msg1)" by (metis prod.exhaust)
  show ?case
  proof (cases e1)
    case None
    then have "i = j" "ch1 = ch" "pool' = pool\<lparr>pool_clients := (pool_clients pool)[j := c]\<rparr>" "msg1 = msg'" using "2.prems" s by auto
    with s None show ?thesis by (intro exI [of _ "[]"] exI [of _ js] exI [of _ err] exI [of _ pool] exI [of _ msg] exI [of _ c]) simp
  next
    case (Some x)
    with "2.prems" s have "send_first js msg1 (Some x) (pool\<lparr>pool_clients := (pool_clients pool)[j := c]\<rparr>) = ((Some (i, ch), e), pool', msg')"
      by simp
    from "2.IH" [OF s [symmetric] refl Some refl this] obtain before after e2 p m c' where
      "js = before @ i # after" "send_first before msg1 (Some x) (pool\<lparr>pool_clients := (pool_clients pool)[j := c]\<rparr>) = ((None, e2), p, m)"
      "Client_Send m (pool_clients p ! i) = ((ch, None), c', msg')" "pool' = p\<lparr>pool_clients := (pool_clients p)[i := c']\<rparr>" by blast
    with s Some show ?thesis
      by (intro exI [of _ "j # before"] exI [of _ after] exI [of _ e2] exI [of _ p] exI [of _ m] exI [of _ c']) simp
  qed
qed simp

lemma send_first_frame:
  assumes "send_first is msg err pool = ((None, e), pool', msg')"
  shows "(\<forall>j. j \<notin> set is \<longrightarrow> pool_clients pool' ! j = pool_clients pool ! j)
    \<and> (pool_ok pool \<and> (\<forall>i\<in>set is. i < length (pool_clients pool)) \<longrightarrow> pool_ok pool')
    \<and> pool_slots pool' = pool_slots pool \<and> length (pool_clients pool') = length (pool_clients pool)
    \<and> (is \<noteq> [] \<or> err \<noteq> None \<longrightarrow> e \<noteq> None)"
  using assms
proof (induction "is" msg err pool rule: send_first.induct)
  case (2 j js msg err pool)
  obtain ch1 e1 c msg1 where s: "Client_Send msg (pool_clients pool ! j) = ((ch1, e1), c, msg1)" by (metis prod.exhaust)
  with "2.prems" obtain x where x: "e1 = Some x" by (cases e1) auto
  have "pool_ok (pool\<lparr>pool_clients := (pool_clients pool)[j := c]\<rparr>)" if "pool_ok pool" "j < length (pool_clients pool)"
    using that client_inv_Send [OF _ s] by (intro pool_ok_update) (auto simp: pool_ok_def list_all_length)
  with "2.IH" [OF s [symmetric] refl x refl] "2.prems" s x show ?case by auto
qed simp

subsection \<open>Requests to proxies that are new\<close>

text \<open>A network on which every address parses and every dial succeeds; after a refresh the proxies have no client yet.\<close>

definition reachable_net :: "network \<Rightarrow> bool" where
  "reachable_net net \<longleftrightarrow> (\<forall>spec. \<exists>host. url_Host net spec = Inr host)
     \<and> (\<forall>n host. \<exists>certs rd nc. tls_Dial net n host = Inr (certs, rd, nc) \<and> nc_fail nc = None \<and> nc_sent nc = [])"

definition fresh_conn :: "Connection \<Rightarrow> bool" where
  "fresh_conn conn \<longleftrightarrow> conn_healthy conn \<and> outgoingmsgno conn = 0 \<and> sent conn = []"

text \<open>A connection as it is when the host of a connection string has just been dialed.\<close>

definition dialed :: "network \<Rightarrow> bytes \<Rightarrow> Connection \<Rightarrow> bool" where
  "dialed net spec conn \<longleftrightarrow> (\<exists>host n certs rd nc. url_Host net spec = Inr host \<and> tls_Dial net n host = Inr (certs, rd, nc)
     \<and> conn = NewConnection raw_fingerprint certs rd nc)"

definition fresh_client :: "network \<Rightarrow> serviceProxy \<Rightarrow> Client \<Rightarrow> bool" where
  "fresh_client net sp cl \<longleftrightarrow> (\<exists>conn. dialed net (connspec sp) conn \<and> fresh_conn conn \<and> cl = (NewClient conn)\<lparr>spIdent := ident sp\<rparr>)"

lemma GetClient_fresh:
  assumes "reachable_net net" and "pool_slots pool addr = None"
  shows "\<exists>cl pool1. GetClient net addr sp pool = (Inr (length (pool_clients pool)), pool1) \<and> fresh_client net sp cl
    \<and> pool_clients pool1 = pool_clients pool @ [cl] \<and> pool_slots pool1 = (pool_slots pool)(addr \<mapsto> length (pool_clients pool))"
proof -
  obtain host where host: "url_Host net (connspec sp) = Inr host" using assms(1) unfolding reachable_net_def by blast
  obtain certs rd nc where d: "tls_Dial net (pool_dials pool) host = Inr (certs, rd, nc)" "nc_fail nc = None" "nc_sent nc = []"
    using assms(1) unfolding reachable_net_def by blast
  let ?conn = "NewConnection raw_fingerprint certs rd nc"
  have "fresh_conn ?conn" using d(2,3) by (simp add: fresh_conn_def conn_healthy_def bw_healthy_def NewConnection_def)
  moreover have "dialed net (connspec sp) ?conn" using host d(1) unfolding dialed_def by blast
  ultimately show ?thesis using assms(2) host d(1)
    by (auto simp: GetClient_def must_dial_def Dial_def DialConnection_def use_client_def fresh_client_def Let_def)
qed

lemma get_clients_fresh:
  assumes "reachable_net net" and "length addrs = length sps" and "distinct addrs" and "\<forall>a\<in>set addrs. pool_slots pool a = None"
  shows "\<exists>cls pool1. get_clients net (zip addrs sps) err pool = ([length (pool_clients pool)..<length (pool_clients pool) + length sps], err, pool1)
    \<and> list_all2 (fresh_client net) sps cls \<and> pool_clients pool1 = pool_clients pool @ cls"
  using assms(2-)
proof (induction addrs sps arbitrary: pool rule: list_induct2)
  case (Cons a addrs sp sps)
  then obtain cl pool1 where g: "GetClient net a sp pool = (Inr (length (pool_clients pool)), pool1)" "fresh_client net sp cl"
    "pool_clients pool1 = pool_clients pool @ [cl]" "pool_slots pool1 = (pool_slots pool)(a \<mapsto> length (pool_clients pool))"
    using GetClient_fresh [OF assms(1), of pool a sp] by auto
  have "\<forall>b\<in>set addrs. pool_slots pool1 b = None" using g(4) Cons.prems by auto
  with Cons.IH [of pool1] Cons.prems obtain cls pool2 where
    "get_clients net (zip addrs sps) err pool1 = ([length (pool_clients pool1)..<length (pool_clients pool1) + length sps], err, pool2)"
    "list_all2 (fresh_client net) sps cls" "pool_clients pool2 = pool_clients pool1 @ cls" by auto
  with g show ?case by (intro exI [of _ "cl # cls"] exI [of _ pool2]) (simp add: upt_conv_Cons del: upt_Suc)
qed simp

lemma Client_Send_fresh:
  assumes "fresh_client net sp cl" and "message_fits (msg\<lparr>mRequestID := 1\<rparr>)" and "mMessageType msg = MessageTypeRequest"
  shows "\<exists>conn0 conn m cl' msg'. Client_Send msg cl = ((Some 0, None), cl', msg') \<and> cl_conn cl' = Some conn \<and> spIdent cl' = ident sp
    \<and> dialed net (connspec sp) conn0 \<and> Connection_Send (Some conn0) (msg\<lparr>mRequestID := 1\<rparr>) = (None, Some conn, m)
    \<and> sent conn = frames (fst (toPackets 0 (msg\<lparr>mRequestID := 1\<rparr>)))"
proof -
  obtain conn0 where c: "fresh_conn conn0" "cl = (NewClient conn0)\<lparr>spIdent := ident sp\<rparr>" "dialed net (connspec sp) conn0" using assms(1) by (auto simp: fresh_client_def)
  from Send_healthy [of conn0, OF _ assms(2)] c(1) obtain conn where
    s: "Connection_Send (Some conn0) (msg\<lparr>mRequestID := 1\<rparr>) = (None, Some conn, snd (toPackets 0 (msg\<lparr>mRequestID := 1\<rparr>)))"
    "sent conn = frames (fst (toPackets 0 (msg\<lparr>mRequestID := 1\<rparr>)))" by (auto simp: fresh_conn_def)
  have "mMessageType (snd (toPackets 0 (msg\<lparr>mRequestID := 1\<rparr>))) = MessageTypeRequest" using assms(3) by (simp add: toPackets_def Let_def)
  with s c(2,3) show ?thesis
    by (simp add: Client_Send_def send_out_def NewClient_def register_reply_def Let_def) blast
qed

lemma dispatch_fresh:
  assumes "reachable_net net" and "length addrs = length sps" and "distinct addrs" and "\<forall>a\<in>set addrs. pool_slots pool a = None"
    and "sps \<noteq> []" and "message_fits (msg\<lparr>mRequestID := 1\<rparr>)" and "mMessageType msg = MessageTypeRequest"
  shows "\<exists>sp i conn0 conn m pool' msg'. sp \<in> set sps \<and> dispatch_request net rnd sct action (zip addrs sps) msg pool = (Inr (i, Some 0), pool', msg')
    \<and> cl_conn (pool_clients pool' ! i) = Some conn \<and> spIdent (pool_clients pool' ! i) = ident sp
    \<and> dialed net (connspec sp) conn0 \<and> Connection_Send (Some conn0) (msg\<lparr>mRequestID := 1\<rparr>) = (None, Some conn, m)
    \<and> sent conn = frames (fst (toPackets 0 (msg\<lparr>mRequestID := 1\<rparr>)))"
proof -
  let ?n = "length (pool_clients pool)"
  obtain cls pool1 where g: "get_clients net (zip addrs sps) None pool = ([?n..<?n + length sps], None, pool1)"
    "list_all2 (fresh_client net) sps cls" "pool_clients pool1 = pool_clients pool @ cls" using get_clients_fresh [OF assms(1-4)] by blast
  have len: "length cls = length sps" using g(2) by (simp add: list_all2_lengthD)
  let ?order = "sort_clients rnd pool1 [?n..<?n + length sps]"
  have m: "mset ?order = mset [?n..<?n + length sps]" by (simp add: sort_clients_def mset_rand_Shuffle)
  moreover have "[?n..<?n + length sps] \<noteq> []" using assms(5) by simp
  ultimately obtain i js where order: "?order = i # js" by (metis list.exhaust mset_zero_iff)
  then have i: "?n \<le> i" "i < ?n + length sps" using mset_eq_setD [OF m] by auto
  let ?sp = "sps ! (i - ?n)"
  have cl: "fresh_client net ?sp (pool_clients pool1 ! i)" using g(2,3) i len by (simp add: nth_append list_all2_conv_all_nth)
  from Client_Send_fresh [OF this assms(6,7)] obtain conn0 conn m cl' msg' where
    "Client_Send msg (pool_clients pool1 ! i) = ((Some 0, None), cl', msg')" "cl_conn cl' = Some conn" "spIdent cl' = ident ?sp"
    "dialed net (connspec ?sp) conn0" "Connection_Send (Some conn0) (msg\<lparr>mRequestID := 1\<rparr>) = (None, Some conn, m)"
    "sent conn = frames (fst (toPackets 0 (msg\<lparr>mRequestID := 1\<rparr>)))" by blast
  moreover have "i < length (pool_clients pool1)" "?sp \<in> set sps" using g(3) i len by auto
  ultimately show ?thesis
    by (intro exI [of _ ?sp] exI [of _ i] exI [of _ conn0] exI [of _ conn] exI [of _ m] exI [of _ "pool1\<lparr>pool_clients := (pool_clients pool1)[i := cl']\<rparr>"] exI [of _ msg'])
       (simp add: dispatch_request_def g(1) order)
qed

subsection \<open>Properties\<close>

text \<open>
  C5. A request goes to a client with the fewest open requests among those that take it. The candidates are
  the clients of the proxies found, dialed where needed and none of them closed; the client that takes the message
  comes after clients that all refused it, no candidate after it has fewer open requests, and no other client
  is touched. If no candidate takes it, the request fails with the error of the last attempt. The pool stays in
  order: no two proxies share a client.
\<close>

theorem request_least_loaded:
  assumes "pool_ok pool" and "get_clients net sps None pool = (is, err, pool1)"
    and "dispatch_request net rnd sct action sps msg pool = (r, pool2, msg')"
  shows "pool_ok pool2 \<and> (\<forall>j\<in>set is. open_in pool1 j)
    \<and> (case r of
         Inr (i, ch) \<Rightarrow> \<exists>before after e p m c. mset is = mset (before @ i # after)
           \<and> send_first before msg err pool1 = ((None, e), p, m)
           \<and> Client_Send m (pool_clients p ! i) = ((ch, None), c, msg') \<and> pool2 = p\<lparr>pool_clients := (pool_clients p)[i := c]\<rparr>
           \<and> (\<forall>j\<in>set after. depth pool1 i \<le> depth pool1 j)
           \<and> (\<forall>j. j \<notin> set (before @ [i]) \<longrightarrow> pool_clients pool2 ! j = pool_clients pool1 ! j)
       | Inl text \<Rightarrow> \<exists>order e. mset is = mset order \<and> send_first order msg err pool1 = ((None, e), pool2, msg')
           \<and> text = ''Request failed: '' @ sct @ ''.'' @ action @ '' not found: '' @ show_err e \<and> (sps \<noteq> [] \<longrightarrow> e \<noteq> None))"
proof -
  let ?order = "sort_clients rnd pool1 is"
  have order: "mset is = mset ?order" "sorted (map (depth pool1) ?order)" by (simp_all add: sort_clients_def mset_rand_Shuffle)
  note ok = get_clients_ok [OF assms(1,2)]
  have in_store: "\<forall>i\<in>set ?order. i < length (pool_clients pool1)" using ok mset_eq_setD [OF order(1)] by (auto simp: open_in_def)
  obtain t e where s: "send_first ?order msg err pool1 = ((t, e), pool2, msg')"
    and r: "r = (case t of Some taken \<Rightarrow> Inr taken | None \<Rightarrow> Inl (''Request failed: '' @ sct @ ''.'' @ action @ '' not found: '' @ show_err e))"
    using assms(2,3) by (auto simp: dispatch_request_def split: prod.splits option.splits)
  show ?thesis
  proof (cases t)
    case None
    note f = send_first_frame [OF s [unfolded None]]
    have "sps \<noteq> [] \<longrightarrow> e \<noteq> None" using f ok order(1) by (cases "is") auto
    with None f ok in_store order(1) s r show ?thesis by auto
  next
    case (Some taken)
    then obtain i ch where t: "t = Some (i, ch)" by (cases taken) auto
    from send_first_sent [OF s [unfolded t]] obtain before after e1 p m c where
      split: "?order = before @ i # after" and failed: "send_first before msg err pool1 = ((None, e1), p, m)"
      and sent: "Client_Send m (pool_clients p ! i) = ((ch, None), c, msg')" and pool2: "pool2 = p\<lparr>pool_clients := (pool_clients p)[i := c]\<rparr>"
      by blast
    note f = send_first_frame [OF failed]
    have p: "pool_ok p" "i < length (pool_clients p)" using f ok in_store split by auto
    then have "pool_ok pool2" using client_inv_Send [OF _ sent] unfolding pool2
      by (intro pool_ok_update) (auto simp: pool_ok_def list_all_length)
    moreover have "\<forall>j\<in>set after. depth pool1 i \<le> depth pool1 j" using order(2) split by (auto simp: sorted_append)
    moreover have "mset is = mset (before @ i # after)" using order(1) split by simp
    moreover have "\<forall>j. j \<notin> set (before @ [i]) \<longrightarrow> pool_clients pool2 ! j = pool_clients pool1 ! j" using f pool2 by simp
    ultimately show ?thesis unfolding r t option.case sum.case prod.case using ok failed sent pool2 by blast
  qed
qed

text \<open>Two proxies: the client of the first has an open request, so the second is dialed and takes the message.\<close>

definition demo_net :: network where
  "demo_net = \<lparr>url_Host = (\<lambda>spec. Inr spec), tls_Dial = (\<lambda>_ _. Inr ([], \<lparr>rd_data = [], rd_err = ''EOF''\<rparr>, \<lparr>nc_sent = [], nc_fail = None\<rparr>))\<rparr>"

definition demo_pool :: pool where
  "demo_pool = \<lparr>pool_clients = [(NewClient demo_conn)\<lparr>reply_chans := [new_chan], openReplies := [(1, 0)], nextRequestID := 1\<rparr>],
     pool_slots = [7 \<mapsto> 0], pool_dials = 1\<rparr>"

theorem request_least_loaded_witness:
  "\<exists>pool2 msg'. dispatch_request demo_net (\<lambda>_. 0) ''main'' ''ping'' [(7, zeroProxy), (8, zeroProxy)] demo_msg demo_pool
      = (Inr (1, Some 0), pool2, msg')
    \<and> pool_ok pool2 \<and> length (pool_clients pool2) = 2 \<and> depth pool2 0 = 1 \<and> depth pool2 1 = 1"
proof -
  obtain c' msg' where s: "Client_Send demo_msg ((NewClient demo_conn)\<lparr>spIdent := []\<rparr>) = ((Some 0, None), c', msg')" "openReplies c' = [(1, 0)]"
    using demo_client_send by (auto simp: NewClient_def)
  let ?c0 = "(NewClient demo_conn)\<lparr>reply_chans := [new_chan], openReplies := [(1, 0)], nextRequestID := 1\<rparr>"
  let ?p1 = "\<lparr>pool_clients = [?c0, NewClient demo_conn], pool_slots = [7 \<mapsto> 0, 8 \<mapsto> 1], pool_dials = 2\<rparr>"
  have g: "get_clients demo_net [(7, zeroProxy), (8, zeroProxy)] None demo_pool = ([0, 1], None, ?p1)"
    by (simp add: GetClient_def must_dial_def demo_pool_def use_client_def Dial_def DialConnection_def demo_net_def
        NewClient_def zeroProxy_def demo_conn_def NewConnection_def)
  have o: "sort_clients (\<lambda>_. 0) ?p1 [0, 1] = [1, 0]"
    by (simp add: sort_clients_def rand_Shuffle_def swap_at_def depth_def NewClient_def)
  have d: "dispatch_request demo_net (\<lambda>_. 0) ''main'' ''ping'' [(7, zeroProxy), (8, zeroProxy)] demo_msg demo_pool
      = (Inr (1, Some 0), ?p1\<lparr>pool_clients := [?c0, c']\<rparr>, msg')"
    unfolding dispatch_request_def g prod.case o using s by (simp add: NewClient_def)
  have "pool_ok demo_pool" by (simp add: pool_ok_def demo_pool_def client_inv_def NewClient_def)
  from request_least_loaded [OF this g d] d s(2) show ?thesis by (simp add: depth_def)
qed

end
