(* ===== verification/Announcer.thy ===== *)
theory Announcer
  imports Service
begin

text \<open>
  The discovery announcer (\<^verbatim>\<open>scamp/discoveryannounce.go\<close>) with the multicast socket it opens
  (\<^verbatim>\<open>scamp/multicast.go\<close>).

  Services are pointers: the announcer keeps their addresses, and what is announced is the service as it is
  then. The network is the record \<open>udp\<close>: the outcome of opening a socket, of looking up an interface,
  and of the \<open>n\<close>-th datagram; the text of an address that is not IPv4 is a parameter too.
\<close>

record udp =
  udp_ListenPacket :: "bytes \<Rightarrow> gerror option"
  udp_InterfaceByName :: "bytes \<Rightarrow> gerror option"
  udp_WriteTo :: "nat \<Rightarrow> bytes \<Rightarrow> gerror option"

record DiscoveryAnnouncer =
  an_services :: "nat list"
  multicastConn :: bool
  multicastDest :: "net_IP \<times> goint"
  an_sent :: "bytes list"

subsection \<open>The socket\<close>

definition loopbackInterface :: "udp \<Rightarrow> gerror + bytes" where
  "loopbackInterface net = (case udp_InterfaceByName net ''lo0'' of
     None \<Rightarrow> Inr ''lo0''
   | Some _ \<Rightarrow> (case udp_InterfaceByName net ''lo'' of None \<Rightarrow> Inr ''lo'' | Some e \<Rightarrow> Inl e))"

definition IP_String :: "(net_IP \<Rightarrow> bytes) \<Rightarrow> net_IP \<Rightarrow> bytes" where
  "IP_String ip6 ip = (if ip = [] then ''<nil>'' else if To4 ip \<noteq> [] then IP4_String (To4 ip) else ip6 ip)"

definition localMulticastSpec :: "(net_IP \<Rightarrow> bytes) \<Rightarrow> (bytes \<Rightarrow> net_IP) \<Rightarrow> Config \<Rightarrow> bytes" where
  "localMulticastSpec ip6 parseIP conf =
     (if LocalDiscoveryMulticast conf then
        IP_String ip6 (LocalDiscoveryMulticastIP parseIP conf) @ '':'' @ dec_int (LocalDiscoveryMulticastPort conf)
      else ''127.0.0.1:'')"

text \<open>Whether there is a socket, and the error: without the interface \<^verbatim>\<open>eth0\<close> both.\<close>

definition localMulticastPacketConn :: "udp \<Rightarrow> bytes \<Rightarrow> bool \<times> gerror option" where
  "localMulticastPacketConn net spec = (case udp_ListenPacket net spec of
     Some e \<Rightarrow> (False, Some e)
   | None \<Rightarrow> (True, udp_InterfaceByName net ''eth0''))"

subsection \<open>The announcer\<close>

definition NewDiscoveryAnnouncer ::
  "udp \<Rightarrow> (net_IP \<Rightarrow> bytes) \<Rightarrow> (bytes \<Rightarrow> net_IP) \<Rightarrow> Config option \<Rightarrow> (DiscoveryAnnouncer \<times> gerror option) go" where
  "NewDiscoveryAnnouncer net ip6 parseIP defaultConfig = go_bind (DefaultConfig defaultConfig) (\<lambda>config.
     case localMulticastPacketConn net (localMulticastSpec ip6 parseIP config) of
       (conn, err) \<Rightarrow> Ret (\<lparr>an_services = [], multicastConn = conn,
         multicastDest = (DiscoveryMulticastIP parseIP config, DiscoveryMulticastPort config), an_sent = []\<rparr>, err))"

definition Track :: "nat \<Rightarrow> DiscoveryAnnouncer \<Rightarrow> DiscoveryAnnouncer" where
  "Track serv announcer = announcer\<lparr>an_services := an_services announcer @ [serv]\<rparr>"

text \<open>
  The loop of \<^verbatim>\<open>doAnnounce\<close>. A service that cannot be marshalled gives a nil description, which is sent all the
  same; a datagram that cannot be sent ends the loop.
\<close>

fun announce_services ::
  "('pub, 'priv) crypto \<Rightarrow> udp \<Rightarrow> highResTimestamp \<Rightarrow> 'priv Service list \<Rightarrow> DiscoveryAnnouncer \<Rightarrow> (gerror option \<times> DiscoveryAnnouncer) go" where
  "announce_services c net now [] announcer = Ret (None, announcer)"
| "announce_services c net now (serv # servs) announcer = go_bind (MarshalText c now serv) (\<lambda>r.
     let serviceDesc = (case r of Inl e \<Rightarrow> [] | Inr b \<Rightarrow> b)
     in case udp_WriteTo net (length (an_sent announcer)) serviceDesc of
          Some e \<Rightarrow> Ret (Some e, announcer)
        | None \<Rightarrow> announce_services c net now servs (announcer\<lparr>an_sent := an_sent announcer @ [serviceDesc]\<rparr>))"

definition doAnnounce ::
  "('pub, 'priv) crypto \<Rightarrow> udp \<Rightarrow> highResTimestamp \<Rightarrow> (nat \<Rightarrow> 'priv Service) \<Rightarrow> DiscoveryAnnouncer
    \<Rightarrow> (gerror option \<times> DiscoveryAnnouncer) go" where
  "doAnnounce c net now heap announcer =
     (if an_services announcer \<noteq> [] \<and> \<not> multicastConn announcer then Panic ''invalid memory address or nil pointer dereference''
      else announce_services c net now (map heap (an_services announcer)) announcer)"

text \<open>
  \<^verbatim>\<open>AnnounceLoop\<close>, given by its turns: whether \<^verbatim>\<open>Stop\<close> waits to send on the channel, the clock, the services and
  the network at that time. The error of \<^verbatim>\<open>doAnnounce\<close> is dropped.
\<close>

datatype 'priv turn = StopSignal | Turn highResTimestamp "nat \<Rightarrow> 'priv Service" udp

fun AnnounceLoop :: "('pub, 'priv) crypto \<Rightarrow> 'priv turn list \<Rightarrow> DiscoveryAnnouncer \<Rightarrow> DiscoveryAnnouncer go" where
  "AnnounceLoop c [] announcer = Ret announcer"
| "AnnounceLoop c (StopSignal # turns) announcer = Ret announcer"
| "AnnounceLoop c (Turn now heap net # turns) announcer =
     go_bind (doAnnounce c net now heap announcer) (\<lambda>(e, announcer1). AnnounceLoop c turns announcer1)"

subsection \<open>Laws\<close>

text \<open>What was sent: the descriptions of the services before the first that could not be sent.\<close>

definition description :: "('pub, 'priv) crypto \<Rightarrow> highResTimestamp \<Rightarrow> 'priv Service \<Rightarrow> bytes" where
  "description c now serv = (case MarshalText c now serv of Ret (Inr b) \<Rightarrow> b | _ \<Rightarrow> [])"

lemma announce_services_sent:
  assumes "announce_services c net now servs an = Ret (e, an')"
  shows "\<exists>k\<le>length servs. an' = an\<lparr>an_sent := an_sent an @ map (description c now) (take k servs)\<rparr>
    \<and> (\<forall>i<k. udp_WriteTo net (length (an_sent an) + i) (description c now (servs ! i)) = None)
    \<and> (k < length servs \<longrightarrow> (\<exists>err. e = Some err \<and> udp_WriteTo net (length (an_sent an) + k) (description c now (servs ! k)) = Some err))
    \<and> (k = length servs \<longrightarrow> e = None)"
  using assms
proof (induction servs arbitrary: an)
  case (Cons serv servs)
  then obtain r where r: "MarshalText c now serv = Ret r" by (auto simp: go_bind_Ret_conv)
  have d: "(case r of Inl e \<Rightarrow> [] | Inr b \<Rightarrow> b) = description c now serv" by (simp add: description_def r split: sum.splits)
  show ?case
  proof (cases "udp_WriteTo net (length (an_sent an)) (description c now serv)")
    case None
    let ?an = "an\<lparr>an_sent := an_sent an @ [description c now serv]\<rparr>"
    have "announce_services c net now servs ?an = Ret (e, an')" using Cons.prems r d None by simp
    from Cons.IH [OF this] obtain k where k: "k \<le> length servs" "an' = ?an\<lparr>an_sent := an_sent ?an @ map (description c now) (take k servs)\<rparr>"
      "\<forall>i<k. udp_WriteTo net (length (an_sent ?an) + i) (description c now (servs ! i)) = None"
      "k < length servs \<longrightarrow> (\<exists>err. e = Some err \<and> udp_WriteTo net (length (an_sent ?an) + k) (description c now (servs ! k)) = Some err)"
      "k = length servs \<longrightarrow> e = None"
      by blast
    from k(3) None have "\<forall>i<Suc k. udp_WriteTo net (length (an_sent an) + i) (description c now ((serv # servs) ! i)) = None"
      by (auto simp: less_Suc_eq_0_disj)
    with k(1,2,4,5) show ?thesis by (intro exI [of _ "Suc k"]) auto
  next
    case (Some err)
    with Cons.prems r d have "e = Some err" "an' = an" by (auto simp: Let_def)
    with Some show ?thesis by (intro exI [of _ 0]) simp
  qed
qed (auto intro: exI [of _ 0])

lemma announce_services_returns:
  assumes "\<forall>serv\<in>set servs. \<exists>r. MarshalText c now serv = Ret r"
  shows "\<exists>e an'. announce_services c net now servs an = Ret (e, an')"
  using assms by (induction servs arbitrary: an) (auto simp: Let_def split: option.splits)

lemma list_all2_descriptions:
  assumes "\<forall>serv\<in>set servs. publishable c now serv \<and> (\<exists>b. MarshalText c now serv = Ret (Inr b))"
  shows "list_all2 (\<lambda>serv text. publishable c now serv \<and> MarshalText c now serv = Ret (Inr text)) servs (map (description c now) servs)"
  using assms by (induction servs) (auto simp: description_def)

subsection \<open>Properties\<close>

text \<open>
  C4. Discovery, end to end: the tracked services announce themselves in their order, until the network refuses a datagram, whose error
  is returned. Another process whose discovery file holds the datagrams that were sent (each after a separator line), with verification
  of signatures on, loads it without an error, and each of its searches finds exactly the services before the refused datagram that
  offer what it asks for (an action of that sector, name and version), at the address on which the service listens: all services when no
  datagram is refused, and none of those after a refused one unless it is announced before it too.
\<close>

theorem announced_services_found:
  assumes "multicastConn an" and "an_sent an = []"
    and "\<forall>serv\<in>set (an_services an). publishable c now (heap serv) \<and> (\<exists>b. MarshalText c now (heap serv) = Ret (Inr b))"
  shows "\<exists>e an' k cache'. doAnnounce c net now heap an = Ret (e, an') \<and> k \<le> length (an_services an)
    \<and> (\<forall>i<k. udp_WriteTo net i (description c now (heap (an_services an ! i))) = None)
    \<and> (k < length (an_services an) \<longrightarrow> (\<exists>err. e = Some err \<and> udp_WriteTo net k (description c now (heap (an_services an ! k))) = Some err))
    \<and> (k = length (an_services an) \<longrightarrow> e = None)
    \<and> an_sent an' = map (description c now \<circ> heap) (take k (an_services an))
    \<and> DoScan lower (validates c) (new_scanner (concat (map (\<lambda>text. lines_text [sep] @ text) (an_sent an')))) cache = Ret (None, cache')
    \<and> (\<forall>sct nm ver env. list_all (validates c) (fst (SearchByAction lower sct nm ver env cache'))
        \<and> (\<lambda>sp. (ident sp, connspec sp)) ` set (fst (SearchByAction lower sct nm ver env cache'))
          = (\<lambda>serv. (sv_name serv, connspec_of serv)) ` {serv \<in> set (map heap (take k (an_services an))). offers lower serv sct nm ver env})"
proof -
  let ?servs = "map heap (an_services an)"
  have m: "\<forall>serv\<in>set ?servs. publishable c now serv \<and> (\<exists>b. MarshalText c now serv = Ret (Inr b))" using assms(3) by auto
  then obtain e an' where a: "announce_services c net now ?servs an = Ret (e, an')"
    using announce_services_returns [of ?servs c now net an] by blast
  from announce_services_sent [OF a] assms(2) obtain k where k: "k \<le> length ?servs"
    "an' = an\<lparr>an_sent := map (description c now) (take k ?servs)\<rparr>"
    "\<forall>i<k. udp_WriteTo net i (description c now (?servs ! i)) = None"
    "k < length ?servs \<longrightarrow> (\<exists>err. e = Some err \<and> udp_WriteTo net k (description c now (?servs ! k)) = Some err)" "k = length ?servs \<longrightarrow> e = None" by auto
  have "\<forall>serv\<in>set (take k ?servs). publishable c now serv \<and> (\<exists>b. MarshalText c now serv = Ret (Inr b))"
    using m set_take_subset [of k ?servs] by blast
  note disc = service_discovery [OF list_all2_descriptions [OF this], of lower cache]
  have sent: "an_sent an' = map (description c now) (take k ?servs)" using k(2) by simp
  have "doAnnounce c net now heap an = Ret (e, an')" using a assms(1) by (simp add: doAnnounce_def)
  moreover have "\<forall>i<k. udp_WriteTo net i (description c now (heap (an_services an ! i))) = None" using k(1,3) by simp
  moreover obtain cache' where "DoScan lower (validates c) (new_scanner (concat (map (\<lambda>text. lines_text [sep] @ text) (an_sent an')))) cache = Ret (None, cache')"
    "\<forall>sct nm ver env. list_all (validates c) (fst (SearchByAction lower sct nm ver env cache'))
        \<and> (\<lambda>sp. (ident sp, connspec sp)) ` set (fst (SearchByAction lower sct nm ver env cache'))
          = (\<lambda>serv. (sv_name serv, connspec_of serv)) ` {serv \<in> set (take k ?servs). offers lower serv sct nm ver env}"
    using disc unfolding sent [symmetric] by (elim exE conjE) (rule that)
  ultimately show ?thesis using k(1,4,5) sent
    by (intro exI [of _ e] exI [of _ an'] exI [of _ k] exI [of _ cache']) (simp add: take_map)
qed

definition demo_udp :: udp where
  "demo_udp = \<lparr>udp_ListenPacket = (\<lambda>_. None), udp_InterfaceByName = (\<lambda>_. None), udp_WriteTo = (\<lambda>n _. if n < 1 then None else Some ''no route'')\<rparr>"

definition demo_announcer :: DiscoveryAnnouncer where
  "demo_announcer = \<lparr>an_services = [3, 4], multicastConn = True, multicastDest = (defaultGroupIP, defaultGroupPort), an_sent = []\<rparr>"

text \<open>Two services with the same action, and a network that takes one datagram: only the first is found.\<close>

definition moved_service :: "unit Service" where "moved_service = demo_service\<lparr>listenerPort := 30101\<rparr>"

lemma moved_connspec: "connspec_of moved_service = ''beepish+tls://10.0.0.1:30101''"
  by (simp add: connspec_of_def moved_service_def demo_service_def IP4_String_def To4_def dec_nat.simps dec_int_def zeroService_def)

lemma moved_proxy: "serviceAsServiceProxy 0 moved_service = Ret (demo_service_proxy\<lparr>connspec := connspec_of moved_service\<rparr>)"
  using demo_split
  by (simp add: serviceAsServiceProxy_def action_class_def moved_service_def demo_service_def demo_service_proxy_def zeroService_def
      defaultAnnounceInterval_def)

lemma moved_record_length: "length (serviceProxy_MarshalJSON (demo_service_proxy\<lparr>connspec := connspec_of moved_service\<rparr>)) < maxTokenSize"
  by (simp add: demo_service_proxy_def moved_connspec maxTokenSize_def serviceProxy_MarshalJSON_def proxy_json_def print_json_def
      texts_def json_string_def json_int_def dec_int_def timestamp_MarshalJSON_def timestamp_text_def pad_left_def dec_nat.simps
      enc_string_plain plain_def html_safe_def class_json_def action_json_def)

lemma demo_moved: "publishable demo_crypto 0 moved_service \<and> (\<exists>b. MarshalText demo_crypto 0 moved_service = Ret (Inr b))"
proof
  show "publishable demo_crypto 0 moved_service"
    using demo_publishable moved_proxy moved_record_length unfolding publishable_def
    by (auto simp: moved_service_def)
  show "\<exists>b. MarshalText demo_crypto 0 moved_service = Ret (Inr b)"
    by (simp add: MarshalText_def moved_proxy Let_def) (simp add: moved_service_def demo_service_def signSHA256_def demo_crypto_def)
qed

definition demo_heap :: "nat \<Rightarrow> unit Service" where
  "demo_heap n = (if n = 3 then demo_service else moved_service)"

theorem announced_services_found_witness:
  "\<exists>an' cache'. doAnnounce demo_crypto demo_udp 0 demo_heap demo_announcer = Ret (Some ''no route'', an')
     \<and> DoScan (\<lambda>r. r) (validates demo_crypto) (new_scanner (concat (map (\<lambda>text. lines_text [sep] @ text) (an_sent an')))) (emptyCache [])
       = Ret (None, cache')
     \<and> (\<lambda>sp. (ident sp, connspec sp)) ` set (fst (SearchByAction (\<lambda>r. r) ''main'' ''Log.info'' 1 ''json'' cache'))
       = {(''log:x'', ''beepish+tls://10.0.0.1:30100'')}"
proof -
  have pub: "\<forall>serv\<in>set (an_services demo_announcer). publishable demo_crypto 0 (demo_heap serv)
      \<and> (\<exists>b. MarshalText demo_crypto 0 (demo_heap serv) = Ret (Inr b))"
    using demo_publishable demo_marshals demo_moved by (simp add: demo_announcer_def demo_heap_def)
  have an: "an_services demo_announcer = [3, 4]" "multicastConn demo_announcer" "an_sent demo_announcer = []"
    by (simp_all add: demo_announcer_def)
  note found = announced_services_found [OF an(2,3) pub, of demo_udp "\<lambda>r. r" "emptyCache []"]
  obtain e an' k cache' where r: "doAnnounce demo_crypto demo_udp 0 demo_heap demo_announcer = Ret (e, an')"
    "k \<le> length (an_services demo_announcer)"
    "\<forall>i<k. udp_WriteTo demo_udp i (description demo_crypto 0 (demo_heap (an_services demo_announcer ! i))) = None"
    "k < length (an_services demo_announcer) \<longrightarrow>
      (\<exists>err. e = Some err \<and> udp_WriteTo demo_udp k (description demo_crypto 0 (demo_heap (an_services demo_announcer ! k))) = Some err)"
    "DoScan (\<lambda>r. r) (validates demo_crypto) (new_scanner (concat (map (\<lambda>text. lines_text [sep] @ text) (an_sent an')))) (emptyCache [])
       = Ret (None, cache')"
    "\<forall>sct nm ver env. list_all (validates demo_crypto) (fst (SearchByAction (\<lambda>r. r) sct nm ver env cache'))
        \<and> (\<lambda>sp. (ident sp, connspec sp)) ` set (fst (SearchByAction (\<lambda>r. r) sct nm ver env cache'))
      = (\<lambda>serv. (sv_name serv, connspec_of serv)) ` {serv \<in> set (map demo_heap (take k (an_services demo_announcer))). offers (\<lambda>r. r) serv sct nm ver env}"
    using found by (elim exE conjE) (rule that)
  have k: "k = 1" using r(3) [rule_format, of 1] r(2,4) an(1) by (cases "k = 0 \<or> k = 2") (auto simp: demo_udp_def)
  then have "e = Some ''no route''" using r(4) an(1) by (simp add: demo_udp_def)
  moreover have "offers (\<lambda>r. r) demo_service ''main'' ''Log.info'' 1 ''json''" by (simp add: offers_def demo_service_def)
  then have "{serv \<in> set (map demo_heap (take k [3, 4])). offers (\<lambda>r. r) serv ''main'' ''Log.info'' 1 ''json''} = {demo_service}"
    using k by (auto simp: demo_heap_def)
  moreover have "sv_name demo_service = ''log:x''" by (simp add: demo_service_def)
  ultimately show ?thesis using r(1,5) r(6) [rule_format, of "''main''" "''Log.info''" 1 "''json''"] demo_connspec an(1) by (intro exI [of _ an'] exI [of _ cache']) simp
qed

end
