(* ===== verification/AuthorizedServices.thy ===== *)
theory AuthorizedServices
  imports Go_Scanner Go_Strings ServiceProxy
begin

text \<open>
  The file of authorized services (\<^verbatim>\<open>scamp/authorizedservices.go\<close>): each line names the fingerprint of a
  certificate and the classes its service may offer. A scanner with \<^verbatim>\<open>bufio.ScanWords\<close> cuts a line at space
  runes; like the scanner of lines it stops at a token that does not fit in its buffer.
\<close>

record AuthorizedServiceSpec =
  as_Fingerprint :: bytes
  as_Actions :: "serviceProxyClass list"

record AuthorizedServicesCache =
  as_services :: "AuthorizedServiceSpec list"

definition zeroSpec :: AuthorizedServiceSpec where "zeroSpec = \<lparr>as_Fingerprint = [], as_Actions = []\<rparr>"
definition zeroClass :: serviceProxyClass where "zeroClass = \<lparr>className = [], actions = []\<rparr>"

declare zeroSpec_def [zero_values] zeroClass_def [zero_values]

definition NewAuthorizedServicesCache :: AuthorizedServicesCache where
  "NewAuthorizedServicesCache = \<lparr>as_services = replicate 100 zeroSpec\<rparr>"

subsection \<open>Scanning words\<close>

text \<open>The length of the word at the beginning of a text.\<close>

function word_length :: "bytes \<Rightarrow> nat" where
  "word_length s =
     (if s = [] \<or> is_space_rune (fst (decode_rune s)) then 0
      else snd (decode_rune s) + word_length (drop (snd (decode_rune s)) s))"
  by pat_completeness auto
termination
  by (relation "measure length") (auto dest: drop_rune_less)

declare word_length.simps [simp del]

text \<open>\<^verbatim>\<open>Scan\<close>: the next word, if there is one, and the text after it.\<close>

definition ScanWord :: "bytes \<Rightarrow> bytes option \<times> bytes" where
  "ScanWord s =
     (let d = trim_left s; n = word_length d in
      if n = 0 \<or> maxTokenSize \<le> n then (None, d) else (Some (take n d), drop n d))"

lemma word_length_Nil [simp]: "word_length [] = 0"
  by (subst word_length.simps) simp

lemma trim_left_le: "length (trim_left s) \<le> length s"
proof (induction s rule: trim_left.induct)
  case (1 s)
  then show ?case by (cases "s = [] \<or> \<not> is_space_rune (fst (decode_rune s))") (subst trim_left.simps, auto simp del: trim_left.simps)+
qed

lemma ScanWord_decreases: "ScanWord s = (Some w, t) \<Longrightarrow> length t < length s"
proof -
  assume s: "ScanWord s = (Some w, t)"
  then have n: "word_length (trim_left s) \<noteq> 0" "t = drop (word_length (trim_left s)) (trim_left s)"
    by (auto simp: ScanWord_def Let_def split: if_splits)
  then have "trim_left s \<noteq> []" by auto
  with n trim_left_le [of s] show "length t < length s" by (cases "trim_left s") auto
qed

subsection \<open>Reading a line\<close>

text \<open>The slice of actions has 100 elements; the index panics behind them.\<close>

function read_class_names :: "nat \<Rightarrow> bytes \<Rightarrow> serviceProxyClass list \<Rightarrow> serviceProxyClass list go" where
  "read_class_names index s acts = (case ScanWord s of
     (None, _) \<Rightarrow> Ret acts
   | (Some w, t) \<Rightarrow>
       if index < length acts then read_class_names (index + 1) t (acts[index := (acts ! index)\<lparr>className := w\<rparr>])
       else Panic ''index out of range'')"
  by pat_completeness auto
termination
  by (relation "measure (\<lambda>(index, s, acts). length s)") (auto dest: ScanWord_decreases [OF sym])

declare read_class_names.simps [simp del]

definition NewAuthorizedServicesSpec :: "bytes \<Rightarrow> (gerror + AuthorizedServiceSpec) go" where
  "NewAuthorizedServicesSpec line = (case ScanWord line of
     (None, _) \<Rightarrow> Ret (Inl ''invalid'')
   | (Some w, t) \<Rightarrow>
       if hd w = CHR ''#'' then Ret (Inl ''invalid'')
       else go_bind (read_class_names 0 t (replicate 100 zeroClass))
         (\<lambda>acts. Ret (Inr \<lparr>as_Fingerprint = w, as_Actions = acts\<rparr>)))"

subsection \<open>Loading a file\<close>

text \<open>Each line that is not empty is read; what it says is dropped, and its error replaces the one before.\<close>

function load_services :: "gerror option \<Rightarrow> scanner \<Rightarrow> gerror option go" where
  "load_services err s = (case Scan s of
     ((False, _), _) \<Rightarrow> Ret err
   | ((True, line), s1) \<Rightarrow>
       if line = [] then load_services err s1
       else go_bind (NewAuthorizedServicesSpec line)
         (\<lambda>r. load_services (case r of Inl e \<Rightarrow> Some e | Inr spec \<Rightarrow> None) s1))"
  by pat_completeness auto
termination
  by (relation "measure (\<lambda>(err, s). length (sc_data s))") (auto dest!: Scan_True_decreases dest: sym)

declare load_services.simps [simp del]

definition LoadAuthorizedServices :: "scanner \<Rightarrow> AuthorizedServicesCache \<Rightarrow> (gerror option \<times> AuthorizedServicesCache) go" where
  "LoadAuthorizedServices s cache = go_bind (load_services None s) (\<lambda>err. Ret (err, cache))"

subsection \<open>Lines of words\<close>

text \<open>Words of printable characters, each after one or more blanks.\<close>

definition spaced :: "(nat \<times> bytes) list \<Rightarrow> bytes" where
  "spaced ps = concat (map (\<lambda>(n, w). replicate (Suc n) SP @ w) ps)"

definition plain_word :: "bytes \<Rightarrow> bool" where
  "plain_word w \<longleftrightarrow> w \<noteq> [] \<and> list_all graphic w \<and> length w < maxTokenSize"

lemma spaced_simps [simp]: "spaced [] = []" "spaced ((n, w) # ps) = replicate (Suc n) SP @ w @ spaced ps"
  by (simp_all add: spaced_def)

lemma spaced_begins: "spaced ps = [] \<or> hd (spaced ps) = SP"
  by (cases ps) auto

lemma trim_left_blanks: "trim_left (replicate n SP @ s) = trim_left s"
  by (induction n) (simp_all, subst trim_left.simps, simp add: is_space_rune_def del: trim_left.simps)

lemma word_length_graphic:
  assumes "list_all graphic w" and "s = [] \<or> hd s = SP"
  shows "word_length (w @ s) = length w"
  using assms(1)
proof (induction w)
  case Nil
  with assms(2) show ?case by (cases s) (auto simp: word_length.simps is_space_rune_def)
next
  case (Cons c w)
  then have "code c < 0x80" "\<not> is_space_rune (code c)" by (auto simp: graphic_def is_space_rune_def)
  with Cons show ?case by (subst word_length.simps) simp
qed

lemma ScanWord_plain:
  assumes "plain_word w"
  shows "ScanWord (replicate n SP @ w @ spaced ps) = (Some w, spaced ps)"
proof -
  have "trim_left (replicate n SP @ w @ spaced ps) = w @ spaced ps"
    using assms trim_left_graphic [of "w @ spaced ps"] by (cases w) (auto simp: trim_left_blanks plain_word_def simp del: trim_left.simps)
  then show ?thesis
    using assms word_length_graphic [of w "spaced ps"] spaced_begins by (simp add: ScanWord_def plain_word_def)
qed

lemma ScanWord_Nil [simp]: "ScanWord [] = (None, [])"
  by (simp add: ScanWord_def trim_left.simps)

definition named_class :: "nat \<times> bytes \<Rightarrow> serviceProxyClass" where
  "named_class p = zeroClass\<lparr>className := snd p\<rparr>"

lemma read_class_names_spaced:
  assumes "list_all (\<lambda>p. plain_word (snd p)) ps"
  shows "read_class_names (length done) (spaced ps) (done @ replicate k zeroClass)
    = (if length ps \<le> k then Ret (done @ map named_class ps @ replicate (k - length ps) zeroClass) else Panic ''index out of range'')"
  using assms
proof (induction ps arbitrary: "done" k)
  case Nil
  then show ?case by (simp add: read_class_names.simps)
next
  case (Cons p ps)
  obtain n w where p: "p = (n, w)" by force
  have s: "ScanWord (spaced (p # ps)) = (Some w, spaced ps)" using ScanWord_plain [of w "Suc n" ps] Cons.prems p by simp
  show ?case
  proof (cases k)
    case (Suc k')
    have "(done @ replicate k zeroClass)[length done := ((done @ replicate k zeroClass) ! length done)\<lparr>className := w\<rparr>]
      = (done @ [named_class p]) @ replicate k' zeroClass" by (simp add: Suc p named_class_def)
    with Cons.IH [of "done @ [named_class p]" k'] Cons.prems s Suc show ?thesis
      by (subst read_class_names.simps) simp
  qed (use s in \<open>simp add: read_class_names.simps\<close>)
qed

text \<open>A line of words.\<close>

lemma authorized_words:
  assumes "plain_word w" and "list_all (\<lambda>p. plain_word (snd p)) ps"
  shows "NewAuthorizedServicesSpec (replicate n SP @ w @ spaced ps) =
    (if hd w = CHR ''#'' then Ret (Inl ''invalid'')
     else if length ps \<le> 100 then
       Ret (Inr \<lparr>as_Fingerprint = w, as_Actions = map (\<lambda>p. \<lparr>className = snd p, actions = []\<rparr>) ps @ replicate (100 - length ps) zeroClass\<rparr>)
     else Panic ''index out of range'')"
  using read_class_names_spaced [OF assms(2), of "[]" 100] ScanWord_plain [OF assms(1), of n ps]
  by (simp add: NewAuthorizedServicesSpec_def named_class_def zeroClass_def)

text \<open>
  A line as the test data documents it, prefixes separated by a comma and a blank, is a line of words in which all prefixes but the last
  have a comma.
\<close>

lemma documented_words:
  "qs \<noteq> [] \<Longrightarrow> spaced (map (\<lambda>q. (0, q @ '','')) (butlast qs) @ [(0, last qs)]) = SP # join_with '', '' qs"
  by (induction "'', ''" qs rule: join_with.induct) auto

text \<open>
  C39. A line of the file of authorized services is read into its first word, the fingerprint, and its other
  words in order, kept as class names; the rest of the hundred classes is empty. A line that starts with
  a hash is refused, and a line with more than a hundred further words makes the program panic. The words are not split at commas:
  in a line of the documented format, with prefixes separated by a comma and a blank, every class name but the last is the
  prefix with its comma.
\<close>

theorem authorized_line:
  assumes "plain_word w" and "list_all (\<lambda>p. plain_word (snd p)) ps" and "\<forall>q\<in>set qs. q \<noteq> [] \<and> plain_word (q @ '','')"
  shows "NewAuthorizedServicesSpec (replicate n SP @ w @ spaced ps) =
      (if hd w = CHR ''#'' then Ret (Inl ''invalid'')
       else if length ps \<le> 100 then
         Ret (Inr \<lparr>as_Fingerprint = w, as_Actions = map (\<lambda>p. \<lparr>className = snd p, actions = []\<rparr>) ps @ replicate (100 - length ps) zeroClass\<rparr>)
       else Panic ''index out of range'')
    \<and> (qs \<noteq> [] \<and> length qs \<le> 100 \<and> hd w \<noteq> CHR ''#'' \<longrightarrow>
       NewAuthorizedServicesSpec (w @ '' '' @ join_with '', '' qs) =
         Ret (Inr \<lparr>as_Fingerprint = w, as_Actions = map (\<lambda>q. \<lparr>className = q @ '','', actions = []\<rparr>) (butlast qs)
           @ [\<lparr>className = last qs, actions = []\<rparr>] @ replicate (100 - length qs) zeroClass\<rparr>))"
proof (intro conjI impI)
  assume q: "qs \<noteq> [] \<and> length qs \<le> 100 \<and> hd w \<noteq> CHR ''#''"
  let ?ps = "map (\<lambda>q. (0, q @ '','')) (butlast qs) @ [(0 :: nat, last qs)]"
  have "plain_word (last qs)" using bspec [OF assms(3) last_in_set] q by (auto simp: plain_word_def)
  moreover have "list_all (\<lambda>q. plain_word (q @ '','')) (butlast qs)" using assms(3) by (auto simp: list_all_iff dest: in_set_butlastD)
  ultimately have "list_all (\<lambda>p. plain_word (snd p)) ?ps" by (simp add: list_all_iff)
  from authorized_words [OF assms(1) this, of 0] documented_words [of qs] q
  show "NewAuthorizedServicesSpec (w @ '' '' @ join_with '', '' qs) =
    Ret (Inr \<lparr>as_Fingerprint = w, as_Actions = map (\<lambda>q. \<lparr>className = q @ '','', actions = []\<rparr>) (butlast qs)
      @ [\<lparr>className = last qs, actions = []\<rparr>] @ replicate (100 - length qs) zeroClass\<rparr>)"
    by (auto simp: comp_def Suc_le_eq)
qed (rule authorized_words [OF assms(1,2)])

theorem authorized_line_witness:
  "NewAuthorizedServicesSpec ''06:28 config, web:ALL'' =
     Ret (Inr \<lparr>as_Fingerprint = ''06:28'', as_Actions = \<lparr>className = ''config,'', actions = []\<rparr> # \<lparr>className = ''web:ALL'', actions = []\<rparr>
       # replicate 98 zeroClass\<rparr>)
   \<and> NewAuthorizedServicesSpec (''x'' @ spaced (replicate 101 (0, ''y''))) = Panic ''index out of range''"
proof
  have "plain_word w" if "w \<in> {''06:28'', ''config,'', ''web:ALL,'', ''x'', ''y''}" for w
    using that by (auto simp: plain_word_def graphic_def maxTokenSize_def)
  then have pw: "plain_word ''06:28''" "plain_word ''config,''" "plain_word ''web:ALL,''" "plain_word ''x''" "plain_word ''y''" by blast+
  show "NewAuthorizedServicesSpec ''06:28 config, web:ALL'' =
     Ret (Inr \<lparr>as_Fingerprint = ''06:28'', as_Actions = \<lparr>className = ''config,'', actions = []\<rparr> # \<lparr>className = ''web:ALL'', actions = []\<rparr>
       # replicate 98 zeroClass\<rparr>)"
    using authorized_line [OF pw(1), of "[]" "[''config'', ''web:ALL'']"] pw by simp
  have "list_all (\<lambda>p. plain_word (snd p)) (replicate 101 (0 :: nat, ''y''))" using pw(5) by (simp add: list_all_iff)
  from authorized_line [OF pw(4) this, of "[]" 0]
  show "NewAuthorizedServicesSpec (''x'' @ spaced (replicate 101 (0, ''y''))) = Panic ''index out of range''" by simp
qed

subsection \<open>What loading does\<close>

text \<open>Of a file of lines only the error of the last line that is not empty remains, and the cache is as before.\<close>

definition spec_error :: "bytes \<Rightarrow> gerror option" where
  "spec_error line = (case NewAuthorizedServicesSpec line of Ret (Inl e) \<Rightarrow> Some e | _ \<Rightarrow> None)"

lemma load_services_lines:
  assumes "list_all scan_line ls" and "\<forall>l\<in>set ls. l \<noteq> [] \<longrightarrow> (\<exists>r. NewAuthorizedServicesSpec l = Ret r)"
  shows "load_services err \<lparr>sc_data = lines_text ls, sc_failed = False\<rparr>
    = Ret (case filter (\<lambda>l. l \<noteq> []) ls of [] \<Rightarrow> err | ls' \<Rightarrow> spec_error (last ls'))"
  using assms
proof (induction ls arbitrary: err)
  case Nil
  then show ?case by (simp add: load_services.simps)
next
  case (Cons l ls)
  have sc: "Scan \<lparr>sc_data = lines_text (l # ls), sc_failed = False\<rparr> = ((True, l), \<lparr>sc_data = lines_text ls, sc_failed = False\<rparr>)"
    using Scan_line [of l] Cons.prems(1) by simp
  show ?case
  proof (cases "l = []")
    case False
    then obtain r where "NewAuthorizedServicesSpec l = Ret r" using Cons.prems(2) by auto
    with sc False Cons show ?thesis
      by (subst load_services.simps) (auto simp: spec_error_def split: sum.splits list.splits)
  qed (use sc Cons in \<open>subst load_services.simps, simp\<close>)
qed

lemma authorized_services_dropped:
  assumes "list_all scan_line ls" and "\<forall>l\<in>set ls. l \<noteq> [] \<longrightarrow> (\<exists>r. NewAuthorizedServicesSpec l = Ret r)"
  shows "LoadAuthorizedServices (new_scanner (lines_text ls)) cache
    = Ret (case filter (\<lambda>l. l \<noteq> []) ls of [] \<Rightarrow> None | ls' \<Rightarrow> spec_error (last ls'), cache)"
  using load_services_lines [OF assms] by (simp add: LoadAuthorizedServices_def new_scanner_def)

end
