(* ===== verification/ScampMain.thy ===== *)
theory ScampMain
  imports Service Refresher
begin

text \<open>
  The command-line tool (\<^verbatim>\<open>scamp/scamp.go\<close>): signing an announcement for a discovery file, and printing the
  fingerprint of a certificate. A run ends with a text printed (\<open>Inr\<close>), with \<^verbatim>\<open>Error.Fatalf\<close> (\<open>Inl\<close>, the text of
  the log), or with a panic. The block type of a PEM key and \<^verbatim>\<open>x509.ParsePKCS1PrivateKey\<close> are the record \<open>key_files\<close>.
\<close>

record 'priv key_files =
  pem_Block :: "bytes \<Rightarrow> (bytes \<times> bytes) option"
  ParsePKCS1PrivateKey :: "bytes \<Rightarrow> gerror + 'priv"

definition quoted1 :: "bytes \<Rightarrow> bytes" where "quoted1 s = CHR 0x27 # s @ [CHR 0x27]"

definition fatal_no_block :: string where "fatal_no_block = ''invalid memory address or nil pointer dereference''"

text \<open>The message for a key without a PEM block reads the type of the block that is missing.\<close>

definition load_private_key :: "'priv key_files \<Rightarrow> (bytes \<Rightarrow> gerror + bytes) \<Rightarrow> bytes \<Rightarrow> (gerror + 'priv) go" where
  "load_private_key kf readFile keyPath = (case readFile keyPath of
     Inl e \<Rightarrow> Ret (Inl (''could not read key at '' @ keyPath))
   | Inr keyRawBytes \<Rightarrow> (case pem_Block kf keyRawBytes of
       None \<Rightarrow> Panic fatal_no_block
     | Some (btype, bs) \<Rightarrow>
         if btype \<noteq> ''RSA PRIVATE KEY'' then Ret (Inl (''expected key type '' @ quoted1 ''RSA PRIVATE KEY'' @ '' but got '' @ quoted1 btype))
         else (case ParsePKCS1PrivateKey kf bs of
             Inl e \<Rightarrow> Ret (Inl (''could not parse key from '' @ keyPath @ '' ('' @ btype @ '')''))
           | Inr privKey \<Rightarrow> Ret (Inr privKey))))"

definition fake_record :: "bytes \<Rightarrow> bytes \<Rightarrow> bytes \<Rightarrow> bytes" where
  "fake_record announceData cert sig = [LF] @ ''%%%'' @ [LF] @ announceData @ [LF, LF] @ TrimSpace cert @ [LF, LF] @ sig @ [LF]"

definition doFakeDiscoveryCache ::
  "('pub, 'priv) crypto \<Rightarrow> 'priv key_files \<Rightarrow> (bytes \<Rightarrow> gerror + bytes) \<Rightarrow> bytes \<Rightarrow> bytes \<Rightarrow> bytes \<Rightarrow> (gerror + bytes) go" where
  "doFakeDiscoveryCache c kf readFile keyPath certPath announcePath = res_bind (load_private_key kf readFile keyPath) (\<lambda>privKey.
     case readFile announcePath of
       Inl e \<Rightarrow> Ret (Inl (''could not read announce data from '' @ announcePath))
     | Inr announceData \<Rightarrow> (case signSHA256 c announceData privKey of
         Inl e \<Rightarrow> Ret (Inl (''could not sign announce data: '' @ e))
       | Inr announceSig \<Rightarrow> (case readFile certPath of
           Inl e \<Rightarrow> Ret (Inl (''could not read cert from '' @ certPath))
         | Inr certData \<Rightarrow> Ret (Inr (fake_record announceData certData announceSig)))))"

definition doCertFingerprint :: "('pub, 'priv) crypto \<Rightarrow> (bytes \<Rightarrow> gerror + bytes) \<Rightarrow> bytes \<Rightarrow> gerror + bytes" where
  "doCertFingerprint c readFile fingerprintPath = (case readFile fingerprintPath of
     Inl e \<Rightarrow> Inl (''could not read cert from '' @ fingerprintPath)
   | Inr certData \<Rightarrow> (case pem_Decode c certData of
       None \<Rightarrow> Inl ''could not decode cert. is it PEM encoded?''
     | Some decoded \<Rightarrow> (case ParseCertificate c decoded of
         Inl e \<Rightarrow> Inl ''could not parse certificate. is it valid x509?''
       | Inr cert \<Rightarrow> (let fingerprint = GetSHA1FingerPrint cert in
           if length fingerprint > 0 then Inr (''fingerprint: '' @ fingerprint @ [LF])
           else Inl ''could not fingerprint certificate''))))"

record main_flags =
  f_config :: bytes
  f_announcePath :: bytes
  f_certPath :: bytes
  f_keyPath :: bytes
  f_fingerprintPath :: bytes

definition usage :: bytes where
  "usage = ''not enough options specified, must provide: tcertpath, keypath, and announcepath, OR fingerprintpath''"

text \<open>The error of \<^verbatim>\<open>Initialize\<close> is dropped.\<close>

definition scamp_main ::
  "('pub, 'priv) crypto \<Rightarrow> 'priv key_files \<Rightarrow> source \<Rightarrow> (bytes \<Rightarrow> gerror + bytes) \<Rightarrow> main_flags \<Rightarrow> (gerror + bytes) go" where
  "scamp_main c kf src readFile fl =
     go_bind (Initialize src readFile (f_config fl) \<lparr>WaitDuration = None, opt_Reactive = True\<rparr> None) (\<lambda>_.
       if (f_keyPath fl = [] \<or> f_announcePath fl = [] \<or> f_certPath fl = []) \<and> f_fingerprintPath fl = [] then
         Ret (Inr (''fingerprintpath: '' @ f_fingerprintPath fl @ [LF] @ usage @ [LF]))
       else if f_keyPath fl \<noteq> [] then doFakeDiscoveryCache c kf readFile (f_keyPath fl) (f_certPath fl) (f_announcePath fl)
       else Ret (doCertFingerprint c readFile (f_fingerprintPath fl)))"

subsection \<open>Loading what was printed\<close>

lemma read_block_eof:
  "\<forall>l\<in>set ls. scan_line l \<and> l \<noteq> [] \<and> l \<notin> set stop \<Longrightarrow> read_block stop buf (at (lines_text ls)) = (buf @ lines_text ls, at [])"
proof (induction ls arbitrary: buf)
  case Nil
  show ?case by (subst read_block.simps) simp
next
  case (Cons l ls)
  then show ?case using Scan_at [of l "lines_text ls"] by (subst read_block.simps) simp
qed

lemma skip_to_sep_blank: "skip_to_sep (at (LF # sep @ LF # t)) = (True, at t)"
  using Scan_at [of "[]" "sep @ LF # t"] by (subst skip_to_sep.simps) (simp add: skip_to_sep_at sep_not_Nil [symmetric])

lemma scan_fake_record:
  assumes "scan_line record" "record \<noteq> []" "block_lines cert" "block_lines [sig]" "TrimSpace certData = join_with [LF] cert"
    and "newServiceProxy record (join_with [LF] cert) sig = Ret (Inr sp)"
  shows "DoScan lower validate (new_scanner (fake_record record certData sig)) cache
    = Ret (None, if verifyRecords cache \<and> \<not> validate sp then snd (removeNoLock sp (clearNoLock cache)) else storeNoLock lower sp (clearNoLock cache))"
proof -
  have cert: "cert \<noteq> []" using assms(3) by (simp add: block_lines_def)
  have eq: "fake_record record certData sig = LF # sep @ LF # record @ LF # [] @ LF # lines_text cert @ LF # lines_text [sig]"
    using join_lines [OF cert] by (simp add: fake_record_def assms(5) sep_def)
  note Scan_at [OF assms(1), of "[] @ LF # lines_text cert @ LF # lines_text [sig]"]
  moreover note Scan_at [OF scan_line_Nil(1), of "lines_text cert @ LF # lines_text [sig]"]
  moreover have "read_block [] [] (at (lines_text cert @ LF # lines_text [sig])) = ([] @ lines_text cert, at (lines_text [sig]))"
    using assms(3) by (intro read_block_at) (auto simp: block_lines_def)
  moreover have "read_block [sep] [] (at (lines_text [sig])) = ([] @ lines_text [sig], at [])"
    using assms(4) by (intro read_block_eof) (auto simp: block_lines_def)
  ultimately have "scan_loop lower validate (at (fake_record record certData sig)) c
      = Ret (None, if verifyRecords c \<and> \<not> validate sp then snd (removeNoLock sp c) else storeNoLock lower sp c)" for c
    using assms(2,6) butlast_lines [OF cert] skip_to_sep_blank by (subst scan_loop.simps) (simp add: scan_loop_end eq)
  then show ?thesis by (simp add: DoScan_def new_scanner_def clearNoLock_def)
qed

text \<open>With a newline at the end of the data the block of the certificate is empty, and the record is skipped.\<close>

lemma scan_fake_record_newline:
  assumes "scan_line record" "record \<noteq> []" "block_lines cert" "block_lines [sig]" "TrimSpace certData = join_with [LF] cert"
  shows "DoScan lower validate (new_scanner (fake_record (record @ [LF]) certData sig)) cache = Ret (None, clearNoLock cache)"
proof -
  let ?t = "lines_text cert @ LF # lines_text [sig]"
  have cert: "cert \<noteq> []" using assms(3) by (simp add: block_lines_def)
  have eq: "fake_record (record @ [LF]) certData sig = LF # sep @ LF # record @ LF # [] @ LF # [] @ LF # ?t"
    using join_lines [OF cert] by (simp add: fake_record_def assms(5) sep_def)
  have skip: "skip_to_sep (at (lines_text ls @ t)) = skip_to_sep (at t)" if "\<forall>l\<in>set ls. scan_line l \<and> l \<noteq> sep" for ls t
    using that by (induction ls) (simp_all, subst skip_to_sep.simps, simp add: Scan_at)
  have "?t = lines_text (cert @ [[], sig]) @ []" by (simp add: lines_text_def)
  then have "skip_to_sep (at ?t) = skip_to_sep (at [])"
    using skip [of "cert @ [[], sig]" "[]"] assms(3,4) sep_not_Nil [symmetric] by (auto simp: block_lines_def simp del: sep_not_Nil)
  then have "skip_to_sep (at ?t) = (False, at [])" by (simp add: skip_to_sep.simps)
  then have "scan_loop lower validate (at ?t) c = Ret (None, c)" for c by (subst scan_loop.simps) simp
  moreover have "read_block [] [] (at ([] @ LF # ?t)) = ([], at ?t)" using Scan_at [OF scan_line_Nil(1), of ?t] by (subst read_block.simps) simp
  moreover note Scan_at [OF assms(1), of "[] @ LF # [] @ LF # ?t"] Scan_at [OF scan_line_Nil(1), of "[] @ LF # ?t"]
  ultimately have "scan_loop lower validate (at (fake_record (record @ [LF]) certData sig)) c = Ret (None, c)" for c
    using assms(2) skip_to_sep_blank by (subst scan_loop.simps) (simp add: eq)
  then show ?thesis by (simp add: DoScan_def new_scanner_def)
qed

subsection \<open>Properties\<close>

text \<open>A key file and a certificate that belong together; signatures are short enough for a line.\<close>

definition signing_setup ::
  "('pub, 'priv) crypto \<Rightarrow> 'priv key_files \<Rightarrow> (bytes \<Rightarrow> gerror + bytes) \<Rightarrow> bytes \<Rightarrow> bytes \<Rightarrow> bytes list \<Rightarrow> bool" where
  "signing_setup c kf readFile keyPath certPath cert \<longleftrightarrow> (\<exists>keyRaw bs priv certData blk crt pub.
     readFile keyPath = Inr keyRaw \<and> pem_Block kf keyRaw = Some (''RSA PRIVATE KEY'', bs) \<and> ParsePKCS1PrivateKey kf bs = Inr priv
     \<and> readFile certPath = Inr certData \<and> TrimSpace certData = join_with [LF] cert \<and> block_lines cert
     \<and> pem_Decode c (join_with [LF] cert) = Some blk \<and> ParseCertificate c blk = Inr crt \<and> cert_PublicKey crt = Some pub
     \<and> key_pair c pub priv \<and> (\<forall>d. \<exists>s. SignPKCS1v15 c priv d = Inr s \<and> s \<noteq> [] \<and> length (EncodeToString s) < maxTokenSize))"

lemma doFakeDiscoveryCache_prints:
  assumes "signing_setup c kf readFile keyPath certPath cert" and "readFile announcePath = Inr announceData"
  shows "\<exists>certData sig. doFakeDiscoveryCache c kf readFile keyPath certPath announcePath = Ret (Inr (fake_record announceData certData sig))
    \<and> TrimSpace certData = join_with [LF] cert \<and> block_lines cert \<and> block_lines [sig]
    \<and> (\<forall>sp. rawCert sp = join_with [LF] cert \<longrightarrow> rawSig sp = sig \<longrightarrow> rawClassRecords sp = announceData \<longrightarrow> validates c sp)"
proof -
  obtain keyRaw bs priv certData blk crt pub where k: "readFile keyPath = Inr keyRaw" "pem_Block kf keyRaw = Some (''RSA PRIVATE KEY'', bs)"
     "ParsePKCS1PrivateKey kf bs = Inr priv" "readFile certPath = Inr certData" "TrimSpace certData = join_with [LF] cert" "block_lines cert"
     "pem_Decode c (join_with [LF] cert) = Some blk" "ParseCertificate c blk = Inr crt" "cert_PublicKey crt = Some pub" "key_pair c pub priv"
     "\<forall>d. \<exists>s. SignPKCS1v15 c priv d = Inr s \<and> s \<noteq> [] \<and> length (EncodeToString s) < maxTokenSize"
    using assms(1) unfolding signing_setup_def by blast
  obtain s where s: "SignPKCS1v15 c priv (sha256_Sum announceData) = Inr s" "s \<noteq> []" "length (EncodeToString s) < maxTokenSize" using k(11) by blast
  have sign: "signSHA256 c announceData priv = Inr (EncodeToString s)" by (simp add: signSHA256_def s)
  have "block_lines [EncodeToString s]"
    using b64_line [OF EncodeToString_text] s(2,3) by (simp add: block_lines_def EncodeToString_Nil_iff)
  moreover have "verifySHA256 c announceData pub (EncodeToString s) False = Ret None"
    using signed_verifies [OF k(10) sign filter_b64 [OF EncodeToString_text]] .
  moreover have "doFakeDiscoveryCache c kf readFile keyPath certPath announcePath = Ret (Inr (fake_record announceData certData (EncodeToString s)))"
    by (simp add: doFakeDiscoveryCache_def load_private_key_def k(1-4) assms(2) sign)
  ultimately show ?thesis using k(5-9) by (auto simp: validates_iff verifySHA256_accepts)
qed

text \<open>
  C38. The record that the tool signs can be used as a discovery file: when the announced data is the class record of
  a proxy and the key belongs to the certificate, a cache that verifies signatures loads the printed text into
  exactly that proxy, with the certificate and the signature. When the data ends with a newline, as
  most editors leave it, the same steps report no error but the cache is empty.
\<close>

theorem fake_cache_loads:
  assumes "signing_setup c kf readFile keyPath certPath cert"
    and "length (serviceProxy_MarshalJSON sp) < maxTokenSize" and "\<forall>cl\<in>set (classes sp). actions cl \<noteq> []"
    and "readFile announcePath = Inr (serviceProxy_MarshalJSON sp @ replicate n LF)" and "n \<le> 1"
  shows "\<exists>out sig. doFakeDiscoveryCache c kf readFile keyPath certPath announcePath = Ret (Inr out)
    \<and> DoScan lower (validates c) (new_scanner out) cache = Ret (None,
        if n = 0 then storeNoLock lower (loaded (sp, cert, [sig])) (clearNoLock cache) else clearNoLock cache)
    \<and> (n = 0 \<longrightarrow> validates c (loaded (sp, cert, [sig])))"
proof -
  let ?rec = "serviceProxy_MarshalJSON sp"
  obtain certData sig where d: "doFakeDiscoveryCache c kf readFile keyPath certPath announcePath
      = Ret (Inr (fake_record (?rec @ replicate n LF) certData sig))" "TrimSpace certData = join_with [LF] cert" "block_lines cert" "block_lines [sig]"
    "\<forall>sp'. rawCert sp' = join_with [LF] cert \<longrightarrow> rawSig sp' = sig \<longrightarrow> rawClassRecords sp' = ?rec @ replicate n LF \<longrightarrow> validates c sp'"
    using doFakeDiscoveryCache_prints [OF assms(1,4)] by (elim exE conjE) (rule that)
  note line = MarshalJSON_line [OF assms(2)]
  show ?thesis
  proof (cases n)
    case 0
    have v: "validates c (loaded (sp, cert, [sig]))" using d(5) 0 by (simp add: announced_def)
    have "newServiceProxy ?rec (join_with [LF] cert) sig = Ret (Inr (loaded (sp, cert, [sig])))"
      using newServiceProxy_MarshalJSON [of sp] assms(3) by simp
    from scan_fake_record [OF _ _ d(3,4,2) this, of lower "validates c" cache] line v d(1) 0 show ?thesis by auto
  next
    case (Suc m)
    then have "replicate n LF = [LF]" using assms(5) by simp
    with scan_fake_record_newline [OF _ _ d(3,4,2), of ?rec lower "validates c" cache] line d(1) Suc show ?thesis by auto
  qed
qed

definition demo_key_files :: "unit key_files" where
  "demo_key_files = \<lparr>pem_Block = (\<lambda>s. Some (''RSA PRIVATE KEY'', s)), ParsePKCS1PrivateKey = (\<lambda>s. Inr ())\<rparr>"

definition demo_files :: "nat \<Rightarrow> bytes \<Rightarrow> gerror + bytes" where
  "demo_files n p = (if p = ''announce'' then Inr (serviceProxy_MarshalJSON demo_service_proxy @ replicate n LF) else Inr ''CERT'')"

lemma demo_signing_setup: "signing_setup demo_crypto demo_key_files (demo_files n) ''key'' ''cert'' [''CERT'']"
  unfolding signing_setup_def
  by (simp add: demo_files_def demo_key_files_def demo_crypto_def TrimSpace_graphic graphic_def block_lines_def scan_line_def maxTokenSize_def
      sep_def key_pair_def EncodeToString_length)

theorem fake_cache_loads_witness:
  "\<exists>out cache'. doFakeDiscoveryCache demo_crypto demo_key_files (demo_files 0) ''key'' ''cert'' ''announce'' = Ret (Inr out)
     \<and> DoScan (\<lambda>r. r) (validates demo_crypto) (new_scanner out) (emptyCache []) = Ret (None, cache') \<and> Size cache' = 1
   \<and> (\<exists>out. doFakeDiscoveryCache demo_crypto demo_key_files (demo_files 1) ''key'' ''cert'' ''announce'' = Ret (Inr out)
     \<and> DoScan (\<lambda>r. r) (validates demo_crypto) (new_scanner out) (emptyCache []) = Ret (None, clearNoLock (emptyCache [])))"
proof -
  have cl: "\<forall>cl\<in>set (classes demo_service_proxy). actions cl \<noteq> []" by (simp add: demo_service_proxy_def)
  have f: "demo_files n ''announce'' = Inr (serviceProxy_MarshalJSON demo_service_proxy @ replicate n LF)" for n by (simp add: demo_files_def)
  have "Size (storeNoLock (\<lambda>r. r) sp (clearNoLock (emptyCache []))) = 1" for sp
    by (simp add: Size_def storeNoLock_def clearNoLock_def emptyCache_def)
  then show ?thesis
    using fake_cache_loads [OF demo_signing_setup demo_record_length cl f, of 0 "\<lambda>r. r" "emptyCache []"]
      fake_cache_loads [OF demo_signing_setup demo_record_length cl f, of 1 "\<lambda>r. r" "emptyCache []"] by fastforce
qed

end
