(* ===== verification/Debugger.thy ===== *)
theory Debugger
  imports Go_Base64 Go_Strings Systems "HOL-Library.Multiset"
begin

text \<open>
  The debugging tee of connections (\<^verbatim>\<open>scamp/debugger.go\<close>), which is switched off by default: the names of its
  files, what is written to them, and the allocation of the number of a debugger, which many goroutines
  do at the same time with an atomic counter.
\<close>

definition enableWriteTee :: bool where "enableWriteTee = False"
definition writeTeeTargetPath :: bytes where "writeTeeTargetPath = ''/tmp/scamp_proto.bin''"

subsection \<open>Numbers\<close>

text \<open>
  A goroutine in the loop of \<^verbatim>\<open>newScampDebugger\<close>: about to load the counter in its attempt \<open>i\<close>, about to compare
  and swap with the loaded value, out of the loop with its number, or in the panic after ten attempts.
\<close>

datatype allocation = Loading nat | Swapping nat uint64 | Numbered uint64 | GaveUp

definition attempts :: nat where "attempts = 10"

record allocator =
  scampDebuggerID :: uint64
  goroutines :: "allocation list"

definition load_step :: "nat \<Rightarrow> allocator \<Rightarrow> allocator" where
  "load_step g s = (case goroutines s ! g of
     Loading i \<Rightarrow> s\<lparr>goroutines := (goroutines s)[g := Swapping i (scampDebuggerID s)]\<rparr>
   | _ \<Rightarrow> s)"

definition swap_step :: "nat \<Rightarrow> allocator \<Rightarrow> allocator" where
  "swap_step g s = (case goroutines s ! g of
     Swapping i loadedVal \<Rightarrow>
       (let thisDebuggerID = loadedVal + 1 in
        if scampDebuggerID s = loadedVal then
          s\<lparr>scampDebuggerID := thisDebuggerID, goroutines := (goroutines s)[g := Numbered thisDebuggerID]\<rparr>
        else s\<lparr>goroutines := (goroutines s)[g := (if i + 1 < attempts then Loading (i + 1) else GaveUp)]\<rparr>)
   | _ \<Rightarrow> s)"

inductive alloc_step :: "nat \<Rightarrow> allocator \<Rightarrow> allocator \<Rightarrow> bool" for n where
  loads: "g < n \<Longrightarrow> alloc_step n s (load_step g s)"
| swaps: "g < n \<Longrightarrow> alloc_step n s (swap_step g s)"

definition alloc_start :: "nat \<Rightarrow> allocator" where
  "alloc_start n = \<lparr>scampDebuggerID = 0, goroutines = replicate n (Loading 0)\<rparr>"

definition alloc_reach :: "nat \<Rightarrow> allocator \<Rightarrow> bool" where
  "alloc_reach n s \<longleftrightarrow> (alloc_step n)\<^sup>*\<^sup>* (alloc_start n) s"

subsection \<open>Files\<close>

text \<open>The random part of the names, chosen once for the process.\<close>

definition scampDebuggerRandomString :: "gerror + bytes \<Rightarrow> bytes go" where
  "scampDebuggerRandomString randRead = (case randRead of
     Inl e \<Rightarrow> Panic ''shouldn't happen''
   | Inr randBytes \<Rightarrow> Ret (EncodeToString randBytes))"

definition debugger_path :: "bytes \<Rightarrow> bytes \<Rightarrow> uint64 \<Rightarrow> bytes" where
  "debugger_path rnd clientType thisDebuggerID = writeTeeTargetPath @ ''.'' @ rnd @ ''.'' @ clientType @ ''.'' @ dec_uint thisDebuggerID"

text \<open>The handle, or the error of \<^verbatim>\<open>os.Create\<close>; what the file holds is a list of the texts written to it.\<close>

record scampDebugger =
  db_path :: bytes
  db_texts :: "bytes list"

definition newScampDebugger :: "(bytes \<Rightarrow> gerror option) \<Rightarrow> bytes \<Rightarrow> bytes \<Rightarrow> uint64 \<Rightarrow> gerror + scampDebugger" where
  "newScampDebugger create rnd clientType thisDebuggerID =
     (let path = debugger_path rnd clientType thisDebuggerID
      in case create path of Some e \<Rightarrow> Inl e | None \<Rightarrow> Inr \<lparr>db_path = path, db_texts = []\<rparr>)"

definition write_text :: "(bytes \<Rightarrow> gerror option) \<Rightarrow> bytes \<Rightarrow> bytes \<Rightarrow> scampDebugger \<Rightarrow> (nat \<times> gerror option) \<times> scampDebugger" where
  "write_text fileWrite formattedStr p handle = (case fileWrite formattedStr of
     Some e \<Rightarrow> ((0, Some e), handle)
   | None \<Rightarrow> ((length p, None), handle\<lparr>db_texts := db_texts handle @ [formattedStr]\<rparr>))"

definition Debugger_Write :: "(bytes \<Rightarrow> gerror option) \<Rightarrow> goint \<Rightarrow> bytes \<Rightarrow> scampDebugger \<Rightarrow> (nat \<times> gerror option) \<times> scampDebugger" where
  "Debugger_Write fileWrite now p = write_text fileWrite (''write: '' @ dec_int now @ '' '' @ p) p"

definition Debugger_ReadWriter :: "(bytes \<Rightarrow> gerror option) \<Rightarrow> goint \<Rightarrow> bytes \<Rightarrow> scampDebugger \<Rightarrow> (nat \<times> gerror option) \<times> scampDebugger" where
  "Debugger_ReadWriter fileWrite now p = write_text fileWrite (''read: '' @ dec_int now @ '' '' @ p) p"

definition DebuggerReader_Write :: "(bytes \<Rightarrow> gerror option) \<Rightarrow> goint \<Rightarrow> bytes \<Rightarrow> scampDebugger \<Rightarrow> (nat \<times> gerror option) \<times> scampDebugger" where
  "DebuggerReader_Write fileWrite now p = Debugger_ReadWriter fileWrite now p"

subsection \<open>Invariant of the allocation\<close>

definition numbers :: "allocation list \<Rightarrow> uint64 list" where
  "numbers gs = concat (map (\<lambda>g. case g of Numbered i \<Rightarrow> [i] | _ \<Rightarrow> []) gs)"

lemma numbers_append [simp]: "numbers (xs @ ys) = numbers xs @ numbers ys" by (simp add: numbers_def)
lemma numbers_Cons [simp]: "numbers (g # gs) = (case g of Numbered i \<Rightarrow> i # numbers gs | _ \<Rightarrow> numbers gs)"
  by (simp add: numbers_def split: allocation.splits)
lemma numbers_Nil [simp]: "numbers [] = []" by (simp add: numbers_def)

lemma numbers_le: "length (numbers gs) \<le> length gs"
  by (induction gs) (auto split: allocation.splits)

lemma numbers_update:
  assumes "g < length gs" and "\<forall>i. gs ! g \<noteq> Numbered i"
  shows "(\<forall>i. x \<noteq> Numbered i) \<Longrightarrow> numbers (gs[g := x]) = numbers gs"
    and "mset (numbers (gs[g := Numbered i])) = add_mset i (mset (numbers gs))"
    and "length (numbers gs) < length gs"
proof -
  have gs: "gs = take g gs @ gs ! g # drop (Suc g) gs" using assms(1) by (rule id_take_nth_drop)
  have u: "gs[g := y] = take g gs @ y # drop (Suc g) gs" for y using assms(1) by (rule upd_conv_take_nth_drop)
  have n: "numbers gs = numbers (take g gs) @ numbers (drop (Suc g) gs)"
    using assms(2) by (subst gs) (simp split: allocation.splits)
  show "(\<forall>i. x \<noteq> Numbered i) \<Longrightarrow> numbers (gs[g := x]) = numbers gs" by (simp add: u n split: allocation.splits)
  show "mset (numbers (gs[g := Numbered i])) = add_mset i (mset (numbers gs))" by (simp add: u n)
  show "length (numbers gs) < length gs"
    using numbers_le [of "take g gs"] numbers_le [of "drop (Suc g) gs"] assms(1) by (simp add: n)
qed

text \<open>The numbers that were given out are 1 to the counter, each once.\<close>

definition alloc_ok :: "nat \<Rightarrow> allocator \<Rightarrow> bool" where
  "alloc_ok n s \<longleftrightarrow> length (goroutines s) = n \<and> unat (scampDebuggerID s) = length (numbers (goroutines s))
     \<and> mset (map unat (numbers (goroutines s))) = mset [1..<Suc (length (numbers (goroutines s)))]"

lemma alloc_ok_load: "alloc_ok n s \<Longrightarrow> g < n \<Longrightarrow> alloc_ok n (load_step g s)"
  by (cases "goroutines s ! g") (auto simp: load_step_def alloc_ok_def numbers_update)

lemma alloc_ok_swap:
  assumes "alloc_ok n s" and "g < n" and "n < 2 ^ 64"
  shows "alloc_ok n (swap_step g s)"
proof (cases "goroutines s ! g")
  case (Swapping i v)
  then have g: "g < length (goroutines s)" "\<forall>j. goroutines s ! g \<noteq> Numbered j" using assms(1,2) by (auto simp: alloc_ok_def)
  let ?gs = "goroutines s" and ?k = "length (numbers (goroutines s))"
  show ?thesis
  proof (cases "scampDebuggerID s = v")
    case True
    have k: "?k < n" "unat v = ?k" using numbers_update(3) [OF g] assms(1) True by (auto simp: alloc_ok_def)
    then have v1: "unat (v + 1) = Suc ?k" using assms(3) by (simp add: unat_word_ariths mod_less)
    have m: "mset (numbers (?gs[g := Numbered (v + 1)])) = add_mset (v + 1) (mset (numbers ?gs))" by (rule numbers_update(2) [OF g])
    then have l: "length (numbers (?gs[g := Numbered (v + 1)])) = Suc ?k" by (metis size_add_mset size_mset)
    have "mset (map unat (numbers (?gs[g := Numbered (v + 1)]))) = add_mset (Suc ?k) (mset [1..<Suc ?k])"
      using m v1 assms(1) by (simp add: alloc_ok_def)
    then have "mset (map unat (numbers (?gs[g := Numbered (v + 1)]))) = mset [1..<Suc (Suc ?k)]" by simp
    then show ?thesis using Swapping True l v1 assms(1) by (simp add: swap_step_def alloc_ok_def Let_def)
  next
    case False
    with Swapping assms(1) numbers_update(1) [OF g] show ?thesis by (simp add: swap_step_def alloc_ok_def)
  qed
qed (use assms in \<open>auto simp: swap_step_def\<close>)

lemma alloc_ok_start: "alloc_ok n (alloc_start n)"
proof -
  have "numbers (replicate n (Loading 0)) = []" by (induction n) simp_all
  then show ?thesis by (simp add: alloc_ok_def alloc_start_def)
qed

text \<open>A goroutine that has a number keeps it.\<close>

definition alloc_le :: "allocator \<Rightarrow> allocator \<Rightarrow> bool" where
  "alloc_le s t \<longleftrightarrow> length (goroutines t) = length (goroutines s)
     \<and> (\<forall>g < length (goroutines s). \<forall>i. goroutines s ! g = Numbered i \<longrightarrow> goroutines t ! g = Numbered i)"

lemma update_other: "gs ! g \<noteq> gs ! h \<Longrightarrow> gs[g := x] ! h = gs ! h"
  by (cases "g = h") auto

lemma alloc_le_step: "alloc_step n s t \<Longrightarrow> alloc_le s t"
  by (induction rule: alloc_step.induct)
     (auto simp: alloc_le_def load_step_def swap_step_def Let_def update_other split: allocation.splits)

interpretation numbering: monotone_system "\<lambda>s. s = alloc_start n" "alloc_step n" "\<lambda>s. n < 2 ^ 64 \<longrightarrow> alloc_ok n s" alloc_le for n
proof unfold_locales
  show "n < 2 ^ 64 \<longrightarrow> alloc_ok n t" if "n < 2 ^ 64 \<longrightarrow> alloc_ok n s" "alloc_step n s t" for s t
    using that(2,1) by (induction rule: alloc_step.induct) (auto simp: alloc_ok_load alloc_ok_swap)
  show "alloc_le s u" if "alloc_le s t" "alloc_le t u" for s t u using that by (simp add: alloc_le_def)
qed (auto simp: alloc_ok_start alloc_le_def [of s s for s] intro: alloc_le_step)

lemma alloc_ok_reach: "alloc_reach n s \<Longrightarrow> n < 2 ^ 64 \<Longrightarrow> alloc_ok n s"
  unfolding alloc_reach_def using numbering.reach_inv by blast

lemma numbers_nth: "g < length gs \<Longrightarrow> gs ! g = Numbered i \<Longrightarrow> i \<in> set (numbers gs)"
  by (force simp: numbers_def in_set_conv_nth)

lemma numbers_distinct_nth:
  "distinct (numbers gs) \<Longrightarrow> g < h \<Longrightarrow> h < length gs \<Longrightarrow> gs ! g = Numbered i \<Longrightarrow> gs ! h = Numbered j \<Longrightarrow> i \<noteq> j"
proof (induction gs arbitrary: g h)
  case (Cons x gs)
  obtain h' where h: "h = Suc h'" using Cons.prems(2) by (cases h) auto
  show ?case
  proof (cases g)
    case 0
    have "j \<in> set (numbers gs)" using Cons.prems h by (intro numbers_nth [of h']) auto
    with Cons.prems 0 show ?thesis by auto
  next
    case (Suc g')
    with Cons.IH [of g' h'] Cons.prems h show ?thesis by (auto split: allocation.splits)
  qed
qed simp

lemma debugger_path_inj: "debugger_path rnd t i = debugger_path rnd t' j \<Longrightarrow> i = j"
proof -
  assume eq: "debugger_path rnd t i = debugger_path rnd t' j"
  have nd: "CHR ''.'' \<notin> set (dec_uint k)" for k
    using dec_nat_digits [of "unat k"] by (auto simp: dec_uint_def list_all_iff is_digit_def)
  have "split_last (CHR ''.'') (debugger_path rnd t k) = Some (writeTeeTargetPath @ ''.'' @ rnd @ ''.'' @ t, dec_uint k)" for t k
    using split_last_append [OF nd, of "writeTeeTargetPath @ ''.'' @ rnd @ ''.'' @ t" k] by (simp add: debugger_path_def)
  with eq have "dec_uint i = dec_uint j" by (metis option.inject prod.inject)
  then show "i = j" using parse_uint_dec_uint by (metis option.inject)
qed

text \<open>A run, given by the goroutines that load and swap in turn.\<close>

fun alloc_run :: "(bool \<times> nat) list \<Rightarrow> allocator \<Rightarrow> allocator" where
  "alloc_run [] s = s"
| "alloc_run ((l, g) # xs) s = alloc_run xs (if l then load_step g s else swap_step g s)"

lemma alloc_run_steps: "list_all (\<lambda>x. snd x < n) xs \<Longrightarrow> (alloc_step n)\<^sup>*\<^sup>* s (alloc_run xs s)"
proof (induction xs s rule: alloc_run.induct)
  case (2 l g xs s)
  then have "alloc_step n s (if l then load_step g s else swap_step g s)" by (simp add: alloc_step.loads alloc_step.swaps)
  with 2 show ?case by (simp add: converse_rtranclp_into_rtranclp)
qed simp

lemma alloc_gives_up: "\<exists>s. alloc_reach 11 s \<and> GaveUp \<in> set (goroutines s)"
proof -
  define xs where "xs = concat (map (\<lambda>k. [(True, 10 :: nat), (True, k), (False, k), (False, 10)]) [0..<10])"
  have "list_all (\<lambda>x. snd x < 11) xs" unfolding xs_def by (auto simp: list_all_iff)
  then have "alloc_reach 11 (alloc_run xs (alloc_start 11))" unfolding alloc_reach_def by (rule alloc_run_steps)
  moreover have "GaveUp \<in> set (goroutines (alloc_run xs (alloc_start 11)))" unfolding xs_def by code_simp
  ultimately show ?thesis by blast
qed

subsection \<open>Properties\<close>

text \<open>
  C40. However the goroutines interleave, the debuggers that got a number, at whatever time, write to different files, whatever
  kind of connection they are for: the numbers are 1 up to the value of the counter, each given out once and kept. The panic that the
  code says never happens does happen, with eleven goroutines one of which is overtaken ten times.
\<close>

theorem debugger_files_distinct:
  assumes "alloc_reach n s" and "n < 2 ^ 64" and "g < n" and "h < n" and "g \<noteq> h"
    and "goroutines s ! g = Numbered i" and "(alloc_step n)\<^sup>*\<^sup>* s t" and "goroutines t ! h = Numbered j"
  shows "debugger_path rnd ty i \<noteq> debugger_path rnd ty' j \<and> 1 \<le> unat i \<and> unat i \<le> unat (scampDebuggerID t)
    \<and> (\<exists>s'. alloc_reach 11 s' \<and> GaveUp \<in> set (goroutines s'))"
proof (intro conjI)
  have "alloc_ok n s" by (rule alloc_ok_reach [OF assms(1,2)])
  then have "length (goroutines s) = n" and le: "alloc_le s t" using numbering.steps_le [OF assms(7)] by (auto simp: alloc_ok_def)
  then have i: "goroutines t ! g = Numbered i" using assms(3,6) by (simp add: alloc_le_def)
  have "alloc_reach n t" using assms(1,7) unfolding alloc_reach_def by (rule rtranclp_trans)
  then have ok: "length (goroutines t) = n" "unat (scampDebuggerID t) = length (numbers (goroutines t))"
    "mset (map unat (numbers (goroutines t))) = mset [1..<Suc (length (numbers (goroutines t)))]"
    using alloc_ok_reach [OF _ assms(2)] by (auto simp: alloc_ok_def)
  have "distinct (map unat (numbers (goroutines t)))" using mset_eq_imp_distinct_iff [OF ok(3)] by simp
  then have d: "distinct (numbers (goroutines t))" by (simp add: distinct_map)
  have "g < length (goroutines t)" "h < length (goroutines t)" using assms(3,4) ok(1) by simp_all
  then have "i \<noteq> j"
    using numbers_distinct_nth [OF d _ _ i assms(8)] numbers_distinct_nth [OF d _ _ assms(8) i] assms(5) by (metis nat_neq_iff)
  then show "debugger_path rnd ty i \<noteq> debugger_path rnd ty' j" using debugger_path_inj by blast
  have "unat i \<in> set (map unat (numbers (goroutines t)))" using numbers_nth assms(3) i ok(1) by auto
  then have "unat i \<in> set [1..<Suc (length (numbers (goroutines t)))]" using mset_eq_setD [OF ok(3)] by simp
  then show "1 \<le> unat i" "unat i \<le> unat (scampDebuggerID t)" using ok(2) by auto
  show "\<exists>s'. alloc_reach 11 s' \<and> GaveUp \<in> set (goroutines s')" by (rule alloc_gives_up)
qed

theorem debugger_files_distinct_witness:
  "\<exists>s. alloc_reach 2 s \<and> goroutines s = [Numbered 1, Numbered 2] \<and> debugger_path ''x'' ''client'' 1 \<noteq> debugger_path ''x'' ''service'' 2"
proof -
  let ?xs = "[(True, 1), (True, 0), (False, 0), (False, 1), (True, 1), (False, 1)]"
  have r: "alloc_reach 2 (alloc_run ?xs (alloc_start 2))" unfolding alloc_reach_def by (rule alloc_run_steps) simp
  have g: "goroutines (alloc_run ?xs (alloc_start 2)) = [Numbered 1, Numbered 2]"
    by (simp add: alloc_start_def load_step_def swap_step_def Let_def attempts_def numeral_2_eq_2)
  from debugger_files_distinct [OF r, of 0 1 1 "alloc_run ?xs (alloc_start 2)" 2 "''x''" "''client''" "''service''"] g r
  show ?thesis by force
qed

end
