(* ===== verification/Tools.thy ===== *)
theory Tools
  imports ServiceRun
begin

text \<open>
  Small parts of the package: the loggers (\<^verbatim>\<open>scamp/logger.go\<close>), \<^verbatim>\<open>panicjson\<close> (\<^verbatim>\<open>scamp/debug.go\<close>), the mocked
  requester (\<^verbatim>\<open>scamp/mocked.go\<close>), the loops that trace statistics (\<^verbatim>\<open>scamp/stats.go\<close>, \<^verbatim>\<open>scamp/service_stats.go\<close>)
  and the short host name of a proxy (\<^verbatim>\<open>scamp/serviceproxy.go\<close>).
\<close>

subsection \<open>Loggers\<close>

text \<open>A logger is where it writes and its prefix; the package variables are nil before the first call.\<close>

datatype log_sink = NullWriter | Stdout | Stderr

record loggers =
  log_Trace :: "(log_sink \<times> bytes) option"
  log_Info :: "(log_sink \<times> bytes) option"
  log_Warning :: "(log_sink \<times> bytes) option"
  log_Error :: "(log_sink \<times> bytes) option"

definition nullWriter_Write :: "bytes \<Rightarrow> nat \<times> gerror option" where "nullWriter_Write p = (0, None)"

definition initSCAMPLogger :: "loggers \<Rightarrow> loggers" where
  "initSCAMPLogger l =
     (if log_Trace l \<noteq> None then l
      else \<lparr>log_Trace = Some (NullWriter, ''TRACE: ''), log_Info = Some (Stdout, ''INFO:  ''),
        log_Warning = Some (Stdout, ''WARN:  ''), log_Error = Some (Stderr, ''ERROR: '')\<rparr>)"

lemma initSCAMPLogger_idem: "initSCAMPLogger (initSCAMPLogger l) = initSCAMPLogger l"
  by (simp add: initSCAMPLogger_def)

subsection \<open>Printing a value and ending the process\<close>

text \<open>What is printed, and the exit code; the error of \<^verbatim>\<open>json.Marshal\<close> is dropped, its bytes are then nil.\<close>

definition panicjson :: "('a \<Rightarrow> gerror + bytes) \<Rightarrow> 'a \<Rightarrow> bytes \<times> nat" where
  "panicjson marshal thing = ((case marshal thing of Inl _ \<Rightarrow> [] | Inr b \<Rightarrow> b) @ [LF], 1)"

subsection \<open>The mocked requester\<close>

record mockedScampRequester =
  mockRequests :: "bytes \<rightharpoonup> bytes"
  mockErrors :: "gerror list"

definition NewMockedScampRequester :: "(bytes \<rightharpoonup> bytes) \<Rightarrow> mockedScampRequester" where
  "NewMockedScampRequester mocks = \<lparr>mockRequests = mocks, mockErrors = []\<rparr>"

definition getMockedResponse :: "bytes \<Rightarrow> mockedScampRequester \<Rightarrow> gerror + Message" where
  "getMockedResponse action r = (case mockRequests r action of
     None \<Rightarrow> Inl (''No response was found for action: '' @ action)
   | Some response \<Rightarrow>
       if response = [] then Inl (''No response was found for action: '' @ action)
       else Inr (snd (Message_Write response (SetAction action NewResponseMessage))))"

definition addError :: "gerror \<Rightarrow> mockedScampRequester \<Rightarrow> mockedScampRequester" where
  "addError err r = r\<lparr>mockErrors := mockErrors r @ [err]\<rparr>"

definition mocked_MakeJSONRequest :: "Message \<Rightarrow> mockedScampRequester \<Rightarrow> (gerror + Message) \<times> mockedScampRequester" where
  "mocked_MakeJSONRequest mssg r = (case getMockedResponse (mAction mssg) r of
     Inl e \<Rightarrow> (let err = ''Error getting mocked response: '' @ e in (Inl err, addError err r))
   | Inr response \<Rightarrow> (Inr response, r))"

definition MakeChannelJSONRequest :: "Message \<Rightarrow> mockedScampRequester \<Rightarrow> mockedScampRequester go" where
  "MakeChannelJSONRequest m r = Panic ''MakeChannelJSONRequest NOT YET SUPPORTED''"

text \<open>A mock answers with its text and keeps no error, or records exactly the error that it returns.\<close>

lemma mocked_answers:
  "case mocked_MakeJSONRequest m r of
     (Inr msg, r') \<Rightarrow> r' = r \<and> mockRequests r (mAction m) = Some (Message_Bytes msg) \<and> Message_Bytes msg \<noteq> []
       \<and> mAction msg = mAction m \<and> mMessageType msg = MessageTypeReply
   | (Inl e, r') \<Rightarrow> mockErrors r' = mockErrors r @ [e] \<and> mockRequests r' = mockRequests r
       \<and> (mockRequests r (mAction m) = None \<or> mockRequests r (mAction m) = Some [])"
  by (auto simp: mocked_MakeJSONRequest_def getMockedResponse_def addError_def Let_def Message_Write_def Message_Bytes_eq
      data_packet_def NewResponseMessage_def NewMessage_def message_setters split: option.splits if_splits)

subsection \<open>Tracing statistics\<close>

definition stats_json :: "serviceStats \<Rightarrow> json" where
  "stats_json s = JObj [(''total_clients_accepted'', JNum (dec_uint (ClientsAccepted s))), (''open_connections'', JNum (dec_uint (OpenConnections s)))]"

definition stats_line :: "bytes \<Rightarrow> serviceStats \<Rightarrow> bytes" where
  "stats_line nm s = ''periodic stats ('' @ nm @ ''): `'' @ print_json (stats_json s) @ ''`''"

text \<open>The turns of a loop: the timer, with the service at that time, or the end; the lines that are traced.\<close>

datatype 'priv stats_turn = StatsTimer "'priv Service" | StatsClose

fun printStatsLoop :: "'priv stats_turn list \<Rightarrow> bytes list" where
  "printStatsLoop [] = []"
| "printStatsLoop (StatsTimer serv # turns) = stats_line (sv_name serv) (gatherStats serv) # printStatsLoop turns"
| "printStatsLoop (StatsClose # turns) = []"

fun PrintStatsLoop :: "'priv stats_turn list \<Rightarrow> bytes list" where
  "PrintStatsLoop [] = []"
| "PrintStatsLoop (StatsTimer serv # turns) = stats_line (sv_name serv) (GatherStats serv) # PrintStatsLoop turns"
| "PrintStatsLoop (StatsClose # turns) = [''exiting PrintStatsLoop'']"

lemma PrintStatsLoop_eq:
  "PrintStatsLoop turns = printStatsLoop turns @ (if StatsClose \<in> set turns then [''exiting PrintStatsLoop''] else [])"
  by (induction turns rule: printStatsLoop.induct) (auto simp: gatherStats_def GatherStats_def)

text \<open>The statistics of a running service never count more open connections than accepted ones.\<close>

lemma stats_bound:
  assumes "serv_reach serv w" and "sv_clients serv = []" and "connectionsAccepted serv = 0" and "length (w_clients w) < 2 ^ 64"
  shows "OpenConnections (gatherStats (w_serv w)) \<le> ClientsAccepted (gatherStats (w_serv w))"
proof -
  have ok: "world_ok w" using assms(1-3) by (rule world_ok_reach)
  then have "length (sv_clients (w_serv w)) \<le> length (w_clients w)"
    using card_mono [of "{..<length (w_clients w)}" "set (sv_clients (w_serv w))"] by (auto simp: world_ok_def clients_ok_def distinct_card)
  then show ?thesis using ok assms(4)
    by (simp add: gatherStats_def world_ok_def clients_ok_def word_le_nat_alt take_bit_nat_eq_self unat_of_nat)
qed

subsection \<open>Host names\<close>

text \<open>\<open>Inl\<close> ends the process (\<^verbatim>\<open>log.Fatal\<close>).\<close>

definition shortHostname :: "(bytes \<Rightarrow> gerror + bytes) \<Rightarrow> (bytes \<Rightarrow> gerror + bytes list) \<Rightarrow> serviceProxy \<Rightarrow> gerror + bytes" where
  "shortHostname urlHost lookupAddr sp = (case urlHost (connspec sp) of
     Inl e \<Rightarrow> Inl e
   | Inr h \<Rightarrow> (case split_on (CHR '':'') h of
       [host, port] \<Rightarrow> (case lookupAddr host of
           Inl e \<Rightarrow> Inr host
         | Inr [] \<Rightarrow> Inr host
         | Inr (n # names) \<Rightarrow> Inr n)
     | _ \<Rightarrow> Inr (connspec sp)))"

end
