(* ===== verification/Spec2Isabelle.thy ===== *)
theory Spec2Isabelle
  imports Dialogue Splitter Requester Announcer AuthorizedServices ScampMain Debugger Tools
begin

text \<open>
  \<^bold>\<open>A verification library for scamp-go\<close>, the SCAMP client and service library under \<^verbatim>\<open>src/scamp\<close>.

  \<^bold>\<open>The program.\<close> Services and requesters exchange messages over TLS connections. A message is cut into numbered
  packets (\<^verbatim>\<open>packet.go\<close>, \<^verbatim>\<open>packetheader.go\<close>, \<^verbatim>\<open>message.go\<close>); a connection writes and reads them, reassembles messages
  and acknowledges data (\<^verbatim>\<open>connection.go\<close>); a client numbers requests and hands replies to the channels that
  wait for them (\<^verbatim>\<open>client.go\<close>). A service accepts connections, checks tickets and runs actions (\<^verbatim>\<open>service.go\<close>,
  \<^verbatim>\<open>action_options.go\<close>, \<^verbatim>\<open>ticket.go\<close>), and announces itself as a signed text (\<^verbatim>\<open>serviceproxy.go\<close>, \<^verbatim>\<open>verify.go\<close>,
  \<^verbatim>\<open>discoveryannounce.go\<close>). Announcements end up in a discovery file, which the cache reads (\<^verbatim>\<open>servicecache.go\<close>) and a
  refresher keeps up to date (\<^verbatim>\<open>refresher.go\<close>); a request looks an action up there, dials or reuses a client
  and waits for the reply (\<^verbatim>\<open>requester.go\<close>). Settings come from a configuration file (\<^verbatim>\<open>config.go\<close>).

  \<^bold>\<open>Conventions.\<close> Go strings and byte slices are \<^typ>\<open>char list\<close>, \<^verbatim>\<open>int\<close> and \<^verbatim>\<open>uint64\<close> are \<^typ>\<open>64 word\<close>, structs are
  records with the fields of the source, errors are values of a sum or an option, and a call that may panic or
  block for ever has a result of type \<^verbatim>\<open>go\<close> (\<^verbatim>\<open>Go_Prelude\<close>). Pointers that are shared (clients, services, buffers) are
  indices into an explicit store. Goroutines are given by their turns, either as lists of events or as inductive step
  relations, so that statements quantify over interleavings.

  \<^bold>\<open>Theories of the language and its library.\<close> \<^verbatim>\<open>Go_Utf8\<close>, \<^verbatim>\<open>Go_Strconv\<close>, \<^verbatim>\<open>Go_Strings\<close>, \<^verbatim>\<open>Go_Base64\<close>, \<^verbatim>\<open>Go_Hash\<close> (SHA-1 and
  SHA-256), \<^verbatim>\<open>Go_IO\<close> (buffered readers and writers; the locales \<^verbatim>\<open>io_writer\<close> and \<^verbatim>\<open>sticky_writer\<close> state what the packet
  writer relies on and are interpreted on the buffer, the connection and the buffered writer), \<^verbatim>\<open>Go_Json\<close>,
  \<^verbatim>\<open>Go_Json_Value\<close> and \<^verbatim>\<open>Go_Json_Text\<close> (\<^verbatim>\<open>encoding/json\<close> as a token machine, printing, and that parsing inverts printing),
  \<^verbatim>\<open>Go_Scanner\<close> (\<^verbatim>\<open>bufio.Scanner\<close> over a text) and \<^verbatim>\<open>Go_ScanBuffer\<close> (the same scanner with the buffer that its tokens alias).

  \<^bold>\<open>State over time.\<close> \<^verbatim>\<open>Systems\<close> has the locales of what components with state promise: \<^verbatim>\<open>invariant_system\<close> (an invariant of every reachable state) and
  \<^verbatim>\<open>monotone_system\<close> (an order between earlier and later states). They are interpreted on the steps of messages (\<^verbatim>\<open>building\<close>), connections
  (\<^verbatim>\<open>conns\<close>), clients (\<^verbatim>\<open>clients\<close>), running services (\<^verbatim>\<open>running\<close>),
  the users of a client with its splitting goroutine (\<^verbatim>\<open>exchanges\<close>; \<^verbatim>\<open>stalling\<close> where nobody takes a message) and the numbering of debuggers (\<^verbatim>\<open>numbering\<close>):
  payloads and delivered messages are only appended to, closed connections, channels and clients stay closed, numbers are kept.

  \<^bold>\<open>Theories of the components\<close>, each named after its file, with the operations under their names in the code.

  \<^item> \<^verbatim>\<open>PacketHeader\<close>, \<^verbatim>\<open>Packet\<close>, \<^verbatim>\<open>Message\<close>: reading and writing. Headers, packets and payloads survive the round trip, reading is
    sound (what is returned stood in the input), makes progress, and panics exactly on lengths that cannot be allocated.
  \<^item> \<^verbatim>\<open>Connection\<close>, \<^verbatim>\<open>Connection_Laws\<close>: sending, routing, acknowledging, the reader loop. What is sent on a healthy connection is delivered
    once, in order and unchanged; packets of interleaved messages do not disturb each other; the reachable states of a
    connection keep their invariant; the reader ends on every input, with what ended it; failures of the writer and of marshalling have the effects that are proved.
  \<^item> \<^verbatim>\<open>Client\<close>: request ids, the table of open replies, closing with its lock. A request gets exactly its first reply, whatever else happens.
  \<^item> \<^verbatim>\<open>Splitter\<close>: the splitting goroutine at the grain at which it can be stopped (evaluating the channel, receiving, handing on over channels
    without a buffer). A whole turn is the \<^verbatim>\<open>split_message\<close> of \<^verbatim>\<open>Client\<close>. A reply that comes after a timeout leaves it in a send that nobody ever takes;
    closing lets a waiting loop end and makes a busy one panic.
  \<^item> \<^verbatim>\<open>Timestamp\<close>, \<^verbatim>\<open>ServiceProxy\<close>, \<^verbatim>\<open>ServiceCache\<close>, \<^verbatim>\<open>Validation\<close>: class records, the two indexes (the locale \<^verbatim>\<open>multi_index\<close> is
    interpreted on the action index), scanning a discovery file. A file of announcements is loaded exactly, searches are
    exact, and with verification on only records with valid signatures are ever stored.
  \<^item> \<^verbatim>\<open>Verify\<close>, \<^verbatim>\<open>Ticket\<close>, \<^verbatim>\<open>ActionOptions\<close>: signatures, fingerprints, tickets. An accepted ticket was signed and is not expired, an issued
    one is accepted, and an action that asks for a ticket runs exactly for the messages whose
    ticket, as a text, is signed under the loaded key, in time and with the privileges.
  \<^item> \<^verbatim>\<open>Multicast\<close>, \<^verbatim>\<open>Config\<close>: the announced address; loading a configuration through the scanner's buffer, against a reference
    that reads line by line.
  \<^item> \<^verbatim>\<open>Service\<close>, \<^verbatim>\<open>ServiceRun\<close>, \<^verbatim>\<open>Announcer\<close>: construction, registration, announcement, dispatch, clients, shutdown. Announced services
    are found by a cache elsewhere, from \<^verbatim>\<open>doAnnounce\<close> to \<^verbatim>\<open>SearchByAction\<close>; the list of clients keeps its invariant in every
    interleaving; a message reaches the action registered under its name. \<^verbatim>\<open>Close\<close> of a client and \<^verbatim>\<open>RemoveClient\<close> of a service call each other with
    their mutexes as state, and when they deadlock is derived from that.
  \<^item> \<^verbatim>\<open>Refresher\<close>, \<^verbatim>\<open>Requester\<close>: refreshing on demand at most once per tick, \<^verbatim>\<open>Initialize\<close>; \<^verbatim>\<open>GetClient\<close>, \<^verbatim>\<open>Dial\<close> and \<^verbatim>\<open>MakeJSONRequest\<close>. A request goes to
    a least loaded client among those that take it, shuffling and sorting can produce exactly the orders by load.
  \<^item> \<^verbatim>\<open>AuthorizedServices\<close>, \<^verbatim>\<open>ScampMain\<close>, \<^verbatim>\<open>Debugger\<close>, \<^verbatim>\<open>Tools\<close>: the file of authorized services, the command-line tool, the debugging tee, and the
    loggers, mocks and statistics.
  \<^item> \<^verbatim>\<open>Dialogue\<close>: the client of a requester and the client of a service at the two ends of a connection. Requests sent in turn arrive at
    their actions and every reply is received on the channel of its request.
  \<^item> This theory composes them: a request for an action that a published service offers reaches such a service, at the address that it
    published.

  \<^bold>\<open>Parameters.\<close> Code outside the repository is an argument: RSA, PEM and X.509 (the record \<^verbatim>\<open>crypto\<close>; that a signature verifies under
  the matching key is the hypothesis \<^verbatim>\<open>key_pair\<close>), TLS dialing and sockets (\<^verbatim>\<open>network\<close>, \<^verbatim>\<open>udp\<close>), URL and IP parsing, files, the clock, random
  numbers, the Unicode tables of \<^verbatim>\<open>ToLower\<close> and \<^verbatim>\<open>Quote\<close>, and the callbacks of actions. Every property with such a hypothesis has a
  witness with concrete functions.

  \<^bold>\<open>Bounds.\<close> No definition uses fuel: every loop has a termination proof (by the bytes left, the attempts left, the list of
  turns, or the locks that are still free). Buffer sizes, retry limits and the nesting limit of JSON are the numbers of the source and of the library.

  \<^bold>\<open>Not modelled.\<close> Log output (except what ends the process or is a result), mutexes where the code uses them only to make an operation
  atomic (\<^verbatim>\<open>closedM\<close> and \<^verbatim>\<open>clientsM\<close>, which the code can wait for while it holds them, are fields), memory limits other than the panics
  of \<^verbatim>\<open>make\<close>, and the tests. Data races
  between goroutines on unlocked fields are outside the sequentially consistent turns used here. A channel of replies in
  \<^verbatim>\<open>Client\<close> is the log of what was sent on it; that sends on it block is the subject of \<^verbatim>\<open>Splitter\<close>.
\<close>

section \<open>From an announcement to a request\<close>

text \<open>
  What a requester needs: the discovery file holds the announcements of the services, its refresher is due, the network is
  reachable, and the proxies of the search are new objects without clients (a refresh creates them anew).
\<close>

definition discovers :: "('pub, 'priv) crypto \<Rightarrow> highResTimestamp \<Rightarrow> 'priv Service list \<Rightarrow> source \<Rightarrow> CacheRefresher \<Rightarrow> bool" where
  "discovers c now servs src r \<longleftrightarrow> will_refresh r \<and> src_validate src = validates c
     \<and> (\<exists>outs. list_all2 (\<lambda>serv text. publishable c now serv \<and> MarshalText c now serv = Ret (Inr text)) servs outs
         \<and> src_file src (path (rf_cache r)) = Regular (concat (map (\<lambda>text. lines_text [sep] @ text) outs)))"

definition new_addresses :: "(serviceProxy list \<Rightarrow> nat list) \<Rightarrow> pool \<Rightarrow> bool" where
  "new_addresses addrs pool \<longleftrightarrow> (\<forall>sps. length (addrs sps) = length sps \<and> distinct (addrs sps) \<and> (\<forall>a\<in>set (addrs sps). pool_slots pool a = None))"

lemma discovers_search:
  assumes "discovers c now servs src r" and "serv \<in> set servs" and "(nm, a) \<in> set (sv_actions serv)"
  shows "\<exists>sps r'. Refresher_SearchByAction src (sv_sector serv) nm (sa_version a) ''json'' r = Ret ((sps, None), r') \<and> sps \<noteq> []
    \<and> list_all (validates c) sps \<and> (\<lambda>sp. (ident sp, connspec sp)) ` set sps
      = (\<lambda>serv'. (sv_name serv', connspec_of serv')) ` {serv' \<in> set servs. offers (src_lower src) serv' (sv_sector serv) nm (sa_version a) ''json''}"
proof -
  obtain outs where o: "list_all2 (\<lambda>serv text. publishable c now serv \<and> MarshalText c now serv = Ret (Inr text)) servs outs"
    "src_file src (path (rf_cache r)) = Regular (concat (map (\<lambda>text. lines_text [sep] @ text) outs))"
    "will_refresh r" "src_validate src = validates c" using assms(1) unfolding discovers_def by blast
  note disc = service_discovery [OF o(1), of "src_lower src" "rf_cache r"]
  obtain cache' where
    scan: "DoScan (src_lower src) (validates c) (new_scanner (concat (map (\<lambda>text. lines_text [sep] @ text) outs))) (rf_cache r) = Ret (None, cache')"
    and found: "\<forall>sct nm ver env. list_all (validates c) (fst (SearchByAction (src_lower src) sct nm ver env cache'))
        \<and> (\<lambda>sp. (ident sp, connspec sp)) ` set (fst (SearchByAction (src_lower src) sct nm ver env cache'))
          = (\<lambda>serv. (sv_name serv, connspec_of serv)) ` {serv \<in> set servs. offers (src_lower src) serv sct nm ver env}"
    using disc by (elim exE conjE) (rule that)
  let ?s = "SearchByAction (src_lower src) (sv_sector serv) nm (sa_version a) ''json'' cache'"
  have "Refresh (src_lower src) (validates c) (src_file src) (rf_cache r) = Ret (None, cache')" using scan o(2) by (simp add: Refresh_def)
  then obtain r' where q: "Refresher_SearchByAction src (sv_sector serv) nm (sa_version a) ''json'' r = Ret (?s, r')"
    using ReactiveRefresh_due [OF o(3), of src] o(4) by (simp add: Refresher_SearchByAction_def query_def go_bind_assoc)
  have "serv \<in> {serv' \<in> set servs. offers (src_lower src) serv' (sv_sector serv) nm (sa_version a) ''json''}"
    using assms(2,3) by (auto simp: offers_def)
  then have "fst ?s \<noteq> []" using found [rule_format, of "sv_sector serv" nm "sa_version a" "''json''"] by auto
  then obtain sps where "?s = (sps, None)" "sps \<noteq> []" by (auto simp: SearchByAction_def Let_def split: if_splits)
  then show ?thesis using q found [rule_format, of "sv_sector serv" nm "sa_version a" "''json''"] by (intro exI [of _ sps] exI [of _ r']) simp
qed

text \<open>What is on the wire of a new connection is the request, and any peer that starts reading there gets it.\<close>

definition peer_gets :: "bytes \<Rightarrow> Message \<Rightarrow> bool" where
  "peer_gets wire m \<longleftrightarrow> (\<forall>peer e seen. pktToMsg peer = (\<lambda>_. None) \<and> incomingmsgno peer = 0 \<and> conn_reader peer = \<lparr>rd_data = wire, rd_err = e\<rparr>
     \<longrightarrow> (\<exists>peer' end_err seen'. packetReader (Some peer) seen = Ret (end_err, Some peer', seen') \<and> msgs peer' = msgs peer @ [received_message m]))"

lemma peer_gets_frames:
  assumes "message_fits m" and "wire = frames (fst (toPackets 0 m))"
  shows "peer_gets wire m"
  unfolding peer_gets_def
proof (intro allI impI, elim conjE)
  fix peer :: Connection and e :: gerror and seen :: uint64
  assume p: "pktToMsg peer = (\<lambda>_. None)" "incomingmsgno peer = 0" "conn_reader peer = \<lparr>rd_data = wire, rd_err = e\<rparr>"
  have "conn_reader peer = \<lparr>rd_data = frames (numbered_packets (incomingmsgno peer) [m]), rd_err = e\<rparr>" using assms(2) p by simp
  from deliver_frames [OF _ p(1) this, of seen] assms(1)
  show "\<exists>peer' end_err seen'. packetReader (Some peer) seen = Ret (end_err, Some peer', seen') \<and> msgs peer' = msgs peer @ [received_message m]"
    by auto
qed

text \<open>
  C3. A request reaches a service that offers the action: when the discovery file holds what services have published and the network
  is reachable, a JSON request for an action that one of them offers is not refused. It looks the action up, dials the services found and
  sends to one of them: a published service that offers the action asked for, on the connection that dialing the host of this
  service's own address gave. Whoever reads the bytes sent on that connection gets the message with the action and the version asked
  for and the first request id, and the request then waits for the reply.
\<close>

theorem request_reaches_service:
  assumes "discovers c now servs src r" and "serv \<in> set servs" and "(nm, a) \<in> set (sv_actions serv)"
    and "mEnvelope msg = EnvelopeJSON" and "mMessageType msg = MessageTypeRequest"
    and "message_fits ((SetVersion (sa_version a) (SetAction nm msg))\<lparr>mRequestID := 1\<rparr>)"
    and "reachable_net net" and "new_addresses addrs pool"
  shows "\<exists>serv'\<in>set servs. offers (src_lower src) serv' (sv_sector serv) nm (sa_version a) ''json''
    \<and> (\<exists>i host n certs rd nc conn m r' pool' msg'.
      MakeJSONRequest src net rnd ev addrs (sv_sector serv) nm (sa_version a) msg (Some r) pool = Ret (retry_loop 0 ev, Some r', pool', msg')
    \<and> url_Host net (connspec_of serv') = Inr host \<and> tls_Dial net n host = Inr (certs, rd, nc)
    \<and> Connection_Send (Some (NewConnection raw_fingerprint certs rd nc)) ((SetVersion (sa_version a) (SetAction nm msg))\<lparr>mRequestID := 1\<rparr>)
      = (None, Some conn, m)
    \<and> cl_conn (pool_clients pool' ! i) = Some conn \<and> spIdent (pool_clients pool' ! i) = sv_name serv'
    \<and> peer_gets (sent conn) ((SetVersion (sa_version a) (SetAction nm msg))\<lparr>mRequestID := 1\<rparr>))"
proof -
  let ?m = "SetVersion (sa_version a) (SetAction nm msg)"
  obtain sps r' where q: "Refresher_SearchByAction src (sv_sector serv) nm (sa_version a) ''json'' r = Ret ((sps, None), r')" "sps \<noteq> []"
    and all: "(\<lambda>sp. (ident sp, connspec sp)) ` set sps
      = (\<lambda>serv'. (sv_name serv', connspec_of serv')) ` {serv' \<in> set servs. offers (src_lower src) serv' (sv_sector serv) nm (sa_version a) ''json''}"
    using discovers_search [OF assms(1-3)] by (elim exE conjE) (rule that)
  have ad: "length (addrs sps) = length sps" "distinct (addrs sps)" "\<forall>a\<in>set (addrs sps). pool_slots pool a = None"
    using assms(8) by (simp_all add: new_addresses_def)
  have req: "mMessageType ?m = MessageTypeRequest" using assms(5) by (simp add: message_setters)
  obtain sp i conn0 conn m pool' msg' where d: "sp \<in> set sps"
    "dispatch_request net rnd (sv_sector serv) nm (zip (addrs sps) sps) ?m pool = (Inr (i, Some 0), pool', msg')"
    "cl_conn (pool_clients pool' ! i) = Some conn" "spIdent (pool_clients pool' ! i) = ident sp"
    "dialed net (connspec sp) conn0" "Connection_Send (Some conn0) (?m\<lparr>mRequestID := 1\<rparr>) = (None, Some conn, m)"
    "sent conn = frames (fst (toPackets 0 (?m\<lparr>mRequestID := 1\<rparr>)))"
    using dispatch_fresh [OF assms(7) ad q(2) assms(6) req, of rnd "sv_sector serv" nm] by (elim exE conjE) (rule that)
  have "(ident sp, connspec sp) \<in> (\<lambda>sp. (ident sp, connspec sp)) ` set sps" using d(1) by blast
  then obtain serv' where serv': "serv' \<in> set servs" "offers (src_lower src) serv' (sv_sector serv) nm (sa_version a) ''json''"
    "ident sp = sv_name serv'" "connspec sp = connspec_of serv'" unfolding all by auto
  obtain host n certs rd nc where dial: "url_Host net (connspec_of serv') = Inr host" "tls_Dial net n host = Inr (certs, rd, nc)"
    "conn0 = NewConnection raw_fingerprint certs rd nc" using d(5) serv'(4) unfolding dialed_def by auto
  have "MakeJSONRequest src net rnd ev addrs (sv_sector serv) nm (sa_version a) msg (Some r) pool = Ret (retry_loop 0 ev, Some r', pool', msg')"
    using q d(2) assms(4) by (simp add: MakeJSONRequest_def wait_reply_def)
  with serv' dial d(3,4,6) peer_gets_frames [OF assms(6) d(7)] show ?thesis
    by (intro bexI [of _ serv'] conjI exI [of _ i] exI [of _ host] exI [of _ n] exI [of _ certs] exI [of _ rd] exI [of _ nc] exI [of _ conn]
        exI [of _ m] exI [of _ r'] exI [of _ pool'] exI [of _ msg']) simp_all
qed

text \<open>One service, published to the file; a request for its action with nothing dialed yet.\<close>

definition demo_request :: Message where
  "demo_request = SetVersion 1 (SetAction ''Log.info'' demo_msg)"

lemma demo_request_fits: "message_fits (demo_request\<lparr>mRequestID := 1\<rparr>)"
proof (rule small_message_fits)
  show "message_ok (demo_request\<lparr>mRequestID := 1\<rparr>)" using demo_ok by (simp add: demo_request_def message_setters message_ok_def Message_Bytes_eq)
  show "\<exists>j. header_json (header_of (demo_request\<lparr>mRequestID := 1\<rparr>)) = Inr j"
    by (simp add: header_json_Inr_iff header_of_def demo_request_def demo_msg_def NewRequestMessage_def NewMessage_def message_setters
        Message_Write_def)
  show "length (print_json j) < 1000" if "header_json (header_of (demo_request\<lparr>mRequestID := 1\<rparr>)) = Inr j" for j
    using that dec_int_length [of 1]
    by (auto simp: header_json_def header_of_def demo_request_def demo_msg_def NewRequestMessage_def NewMessage_def message_setters
      message_getters Message_Write_def header_members_def omitempty_def print_json_def json_string_def enc_string_plain
      plain_def html_safe_def json_int_def json_literal_def quoted_def dec_int_def [of 0] dec_int_def [of 1] dec_nat.simps)
qed (auto simp: demo_request_def demo_msg_def Message_Write_def NewRequestMessage_def NewMessage_def message_setters)

text \<open>A network whose connections tell the host that was dialed, by the text their readers end with.\<close>

definition named_net :: network where
  "named_net = \<lparr>url_Host = (\<lambda>spec. Inr (drop 14 spec)),
     tls_Dial = (\<lambda>_ host. Inr ([], \<lparr>rd_data = [], rd_err = host\<rparr>, \<lparr>nc_sent = [], nc_fail = None\<rparr>))\<rparr>"

theorem request_reaches_service_witness:
  "\<exists>out i conn m r' pool' msg'. MarshalText demo_crypto 0 demo_service = Ret (Inr out)
    \<and> MakeJSONRequest \<lparr>src_lower = (\<lambda>r. r), src_validate = validates demo_crypto, src_file = (\<lambda>_. Regular (lines_text [sep] @ out))\<rparr>
        named_net (\<lambda>_. 0) (\<lambda>_. Timeout) (\<lambda>sps. [0..<length sps]) ''main'' ''Log.info'' 1 demo_msg (Some demo_refresher)
        \<lparr>pool_clients = [], pool_slots = (\<lambda>_. None), pool_dials = 0\<rparr>
      = Ret (Inl ''request timed out'', Some r', pool', msg')
    \<and> Connection_Send (Some (NewConnection raw_fingerprint [] \<lparr>rd_data = [], rd_err = ''10.0.0.1:30100''\<rparr> \<lparr>nc_sent = [], nc_fail = None\<rparr>))
        (demo_request\<lparr>mRequestID := 1\<rparr>) = (None, Some conn, m)
    \<and> cl_conn (pool_clients pool' ! i) = Some conn \<and> spIdent (pool_clients pool' ! i) = ''log:x''
    \<and> peer_gets (sent conn) (demo_request\<lparr>mRequestID := 1\<rparr>)"
proof -
  obtain out where out: "MarshalText demo_crypto 0 demo_service = Ret (Inr out)" using demo_marshals by blast
  let ?src = "\<lparr>src_lower = (\<lambda>r. r), src_validate = validates demo_crypto, src_file = (\<lambda>_. Regular (lines_text [sep] @ out))\<rparr>"
  let ?pool = "\<lparr>pool_clients = [], pool_slots = (\<lambda>_. None), pool_dials = 0\<rparr> :: pool"
  have d: "discovers demo_crypto 0 [demo_service] ?src demo_refresher"
    unfolding discovers_def using demo_publishable out
    by (auto simp: will_refresh_def Reactive_def demo_refresher_def intro!: exI [of _ "[out]"])
  have n: "reachable_net named_net" "new_addresses (\<lambda>sps. [0..<length sps]) ?pool"
    by (simp_all add: reachable_net_def named_net_def new_addresses_def)
  have s: "(''Log.info'', \<lparr>sa_callback = demo_action [], sa_crudTags = [], sa_version = 1\<rparr>) \<in> set (sv_actions demo_service)"
    "sv_sector demo_service = ''main''" "sv_name demo_service = ''log:x''" by (simp_all add: demo_service_def)
  have m: "mEnvelope demo_msg = EnvelopeJSON" "mMessageType demo_msg = MessageTypeRequest"
    by (simp_all add: demo_msg_def Message_Write_def NewRequestMessage_def NewMessage_def message_setters)
  have t: "retry_loop 0 (\<lambda>_. Timeout) = Inl ''request timed out''" by (simp add: retry_loop.simps MAX_RETRIES_def)
  have u: "url_Host named_net (connspec_of demo_service) = Inr ''10.0.0.1:30100''" by (simp add: named_net_def demo_connspec)
  have w: "tls_Dial named_net k host = Inr ([], \<lparr>rd_data = [], rd_err = host\<rparr>, \<lparr>nc_sent = [], nc_fail = None\<rparr>)" for k host
    by (simp add: named_net_def)
  show ?thesis
    using request_reaches_service [OF d _ s(1) m _ n, of "\<lambda>_. 0" "\<lambda>_. Timeout"] demo_request_fits out
    by (simp add: demo_request_def s(2,3) t u w)
qed

end
